(* ===== verification/Prelude.thy ===== *)
theory Prelude
  imports Main "HOL-Library.Word" "HOL-Library.Sublist"
begin

unbundle bit_operations_syntax

text \<open>
  Shared ground of the development: the machine integers of the C++ sources as words, the
  values that stand for undefined behaviour, the string functions of the standard library
  and of Abseil that the extensions call (on \<open>string\<close>, since a \<open>std::string\<close> is a sequence
  of bytes), and the little-endian layout of a \<open>uint64_t\<close> in memory.

  The collections \<open>string_simps\<close>, \<open>host_simps\<close> and \<open>wf_intros\<close> carry the component proofs.
\<close>

named_theorems string_simps \<open>characterisations of the string library\<close>
named_theorems host_simps \<open>unfolding of host-call wrappers\<close>
named_theorems wf_intros \<open>preservation of well-formedness invariants\<close>

section \<open>Machine integers and undefined behaviour\<close>

type_synonym u8 = "8 word"
type_synonym u32 = "32 word"
type_synonym u64 = "64 word"
type_synonym bytes = "8 word list"

text \<open>
  What the C++ standard leaves undefined, and a failed \<open>ASSERT\<close>, is a value of the model: an
  operation that may run into it has a result of type \<open>ub + 'a\<close>.
\<close>

datatype ub = OutOfBounds | EmptyBack | InvalidIterator | DanglingReference | AssertFailed

text \<open>The next statement, unless an earlier one was undefined.\<close>

definition and_then :: "ub + 'a \<Rightarrow> ('a \<Rightarrow> ub + 'b) \<Rightarrow> ub + 'b" where
  "and_then x f = (case x of Inl e \<Rightarrow> Inl e | Inr a \<Rightarrow> f a)"

lemma and_then_simps [simp]: "and_then (Inl e) f = Inl e" "and_then (Inr a) f = f a"
  by (simp_all add: and_then_def)

text \<open>A \<open>char\<close> of a \<open>std::string\<close> seen as a \<open>uint8_t\<close>, and back.\<close>

definition byte_of_char :: "char \<Rightarrow> u8" where
  "byte_of_char c = of_nat (of_char c)"

definition char_of_byte :: "u8 \<Rightarrow> char" where
  "char_of_byte b = char_of (unat b)"

lemma unat_byte_of_char [simp]: "unat (byte_of_char c) = of_char c"
  by (simp add: byte_of_char_def unat_of_nat take_bit_eq_mod)

lemma char_of_byte_of_char [simp]: "char_of_byte (byte_of_char c) = c"
  by (simp add: char_of_byte_def)

lemma byte_of_char_of_byte [simp]: "byte_of_char (char_of_byte b) = b"
proof -
  have "unat b < 256"
    using unsigned_less [of b] by simp
  then show ?thesis by (simp add: char_of_byte_def byte_of_char_def)
qed

lemma byte_of_char_inject [simp]: "byte_of_char a = byte_of_char b \<longleftrightarrow> a = b"
  by (metis char_of_byte_of_char)

section \<open>Strings\<close>

text \<open>\<open>absl::StartsWith\<close>, \<open>absl::EndsWith\<close>, \<open>absl::StripPrefix\<close> and \<open>absl::StrContains\<close>.\<close>

definition StartsWith :: "string \<Rightarrow> string \<Rightarrow> bool" where
  "StartsWith str p \<longleftrightarrow> take (length p) str = p"

definition EndsWith :: "string \<Rightarrow> string \<Rightarrow> bool" where
  "EndsWith str p \<longleftrightarrow> length p \<le> length str \<and> drop (length str - length p) str = p"

definition StripPrefix :: "string \<Rightarrow> string \<Rightarrow> string" where
  "StripPrefix str p = (if StartsWith str p then drop (length p) str else str)"

fun StrContains :: "string \<Rightarrow> string \<Rightarrow> bool" where
  "StrContains [] p = (p = [])"
| "StrContains (x # str) p = (StartsWith (x # str) p \<or> StrContains str p)"

text \<open>\<open>std::string_view::rfind\<close> of one character: the last position, \<open>None\<close> for \<open>npos\<close>.\<close>

fun rfind :: "string \<Rightarrow> char \<Rightarrow> nat option" where
  "rfind [] c = None"
| "rfind (x # str) c =
     (case rfind str c of Some i \<Rightarrow> Some (Suc i) | None \<Rightarrow> if x = c then Some 0 else None)"

text \<open>\<open>absl::StrSplit\<close> at one character: always at least one piece.\<close>

fun StrSplit :: "string \<Rightarrow> char \<Rightarrow> string list" where
  "StrSplit [] c = [[]]"
| "StrSplit (x # str) c =
     (if x = c then [] # StrSplit str c
      else case StrSplit str c of [] \<Rightarrow> [[x]] | p # ps \<Rightarrow> (x # p) # ps)"

text \<open>Joining with a separator character, the inverse of splitting.\<close>

fun join_with :: "char \<Rightarrow> string list \<Rightarrow> string" where
  "join_with c [] = []"
| "join_with c [p] = p"
| "join_with c (p # q # ps) = p @ c # join_with c (q # ps)"

text \<open>\<open>std::to_string\<close> of an unsigned integer: its decimal digits.\<close>

fun to_string :: "nat \<Rightarrow> string" where
  "to_string n = (if n < 10 then [char_of (48 + n)] else to_string (n div 10) @ [char_of (48 + n mod 10)])"

declare to_string.simps [simp del]

lemma StartsWith_iff [string_simps]: "StartsWith str p \<longleftrightarrow> prefix p str"
  by (metis StartsWith_def append_eq_conv_conj append_take_drop_id prefix_def)

lemma EndsWith_iff [string_simps]: "EndsWith str p \<longleftrightarrow> suffix p str"
proof
  assume "EndsWith str p"
  then show "suffix p str" by (metis EndsWith_def suffix_drop)
qed (auto simp: EndsWith_def suffix_def)

lemma StripPrefix_append [string_simps]: "StripPrefix (p @ str) p = str"
  by (simp add: StripPrefix_def StartsWith_def)

lemma StrContains_char [string_simps]: "StrContains str [c] \<longleftrightarrow> c \<in> set str"
  by (induction str) (auto simp: StartsWith_def)

lemma rfind_None [string_simps]: "rfind str c = None \<longleftrightarrow> c \<notin> set str"
  by (induction str) (auto split: option.splits)

lemma rfind_append_not_in: "c \<notin> set s \<Longrightarrow> rfind (r @ s) c = rfind r c"
  by (induction r) (auto simp: string_simps split: option.splits)

lemma rfind_append_in: "rfind s c = Some i \<Longrightarrow> rfind (r @ s) c = Some (length r + i)"
  by (induction r) auto

lemma StrSplit_not_Nil [simp]: "StrSplit s c \<noteq> []"
  by (induction s) (auto split: list.splits)

lemma StrSplit_no_sep: "c \<notin> set s \<Longrightarrow> StrSplit s c = [s]"
  by (induction s) auto

lemma StrSplit_append_sep: "c \<notin> set p \<Longrightarrow> StrSplit (p @ c # s) c = p # StrSplit s c"
  by (induction p) auto

lemma StrSplit_join_with:
  "ps \<noteq> [] \<Longrightarrow> \<forall>p \<in> set ps. c \<notin> set p \<Longrightarrow> StrSplit (join_with c ps) c = ps"
  by (induction c ps rule: join_with.induct) (auto simp: StrSplit_no_sep StrSplit_append_sep)

lemma join_with_StrSplit: "join_with c (StrSplit s c) = s"
proof (induction s)
  case (Cons x s)
  obtain p ps where "StrSplit s c = p # ps" by (metis StrSplit_not_Nil list.exhaust)
  with Cons show ?case by (cases ps) auto
qed simp

lemma join_with_snoc: "ps \<noteq> [] \<Longrightarrow> join_with c (ps @ [p]) = join_with c ps @ c # p"
  by (induction c ps rule: join_with.induct) auto

lemma join_with_eq_Nil: "[] \<notin> set ps \<Longrightarrow> join_with c ps = [] \<longleftrightarrow> ps = []"
  by (induction c ps rule: join_with.induct) auto

lemma to_string_digits: "x \<in> set (to_string n) \<Longrightarrow> 48 \<le> (of_char x :: nat) \<and> (of_char x :: nat) < 58"
proof (induction n rule: to_string.induct)
  case (1 n)
  have m: "(48 + n mod 10) mod 256 = 48 + n mod 10" "n mod 10 < 10" by simp_all
  from 1 show ?case
    by (subst (asm) (2) to_string.simps) (auto simp: m split: if_splits)
qed

lemma to_string_not_Nil [simp]: "to_string n \<noteq> []"
  by (subst to_string.simps) simp

section \<open>Memory layout\<close>

text \<open>
  The bytes of a \<open>uint64_t\<close> object, little-endian as on Wasm, and the reinterpretation of a
  buffer as a \<open>uint64_t\<close>: a buffer that is too short is read out of bounds.
\<close>

definition u64_bytes :: "u64 \<Rightarrow> bytes" where
  "u64_bytes x = map (\<lambda>i. ucast (drop_bit (8 * i) x)) [0..<8]"

definition read_u64 :: "bytes \<Rightarrow> ub + u64" where
  "read_u64 bs =
     (if length bs < 8 then Inl OutOfBounds
      else Inr (foldr (\<lambda>i x. push_bit 8 x OR ucast (bs ! i)) [0..<8] 0))"

lemma byte_step: "push_bit 8 (drop_bit (8 * Suc i) x) OR ucast (ucast (drop_bit (8 * i) x) :: u8) = drop_bit (8 * i) x"
  for x :: u64
  by (rule bit_word_eqI) (auto simp: bit_simps not_less algebra_simps dest: bit_imp_le_length)

lemma read_u64_bytes [simp]: "read_u64 (u64_bytes x) = Inr x"
proof -
  have "foldr (\<lambda>i y. push_bit 8 y OR ucast (u64_bytes x ! i)) [k..<8] 0 = drop_bit (8 * k) x"
    if "k \<le> 8" for k
    using that
  proof (induction "8 - k" arbitrary: k)
    case 0
    have "drop_bit 64 x = 0" by (rule bit_word_eqI) (auto simp: bit_simps dest: bit_imp_le_length)
    with 0 show ?case by simp
  next
    case (Suc d)
    then have "foldr (\<lambda>i y. push_bit 8 y OR ucast (u64_bytes x ! i)) [Suc k..<8] 0 = drop_bit (8 * Suc k) x"
      by auto
    with Suc show ?case
      by (simp add: upt_rec [of k] u64_bytes_def byte_step del: mult_Suc_right)
  qed
  from this [of 0] show ?thesis by (simp add: read_u64_def u64_bytes_def)
qed

lemma length_u64_bytes [simp]: "length (u64_bytes x) = 8"
  by (simp add: u64_bytes_def)

lemma u64_bytes_inject [simp]: "u64_bytes x = u64_bytes y \<longleftrightarrow> x = y"
  by (metis read_u64_bytes sum.inject(2))

lemma to_string_inject [simp]: "to_string m = to_string n \<longleftrightarrow> m = n"
proof -
  let ?val = "foldl (\<lambda>v c. 10 * v + (of_char c - 48)) (0::nat)"
  have "?val (to_string k) = k" for k
  proof (induction k rule: to_string.induct)
    case (1 k)
    have "k mod 10 < 10" by simp
    with 1 show ?case by (subst to_string.simps) (auto simp: mult.commute)
  qed
  then show ?thesis by metis
qed

lemma rfind_less: "rfind s c = Some i \<Longrightarrow> i < length s"
  by (induction s arbitrary: i) (auto split: option.splits if_splits)

end
