(* ===== verification/Base64.thy ===== *)
theory Base64
  imports Prelude
begin

text \<open>
  The Base64 codec of \<open>extensions/common/wasm/base64.h\<close>: the two tables, the per-character
  helpers \<open>encodeBase\<close>, \<open>encodeLast\<close>, \<open>decodeBase\<close>, \<open>decodeLast\<close> and the two entry points.
  The output string \<open>ret\<close> that the helpers mutate is passed and returned. \<open>ret.back()\<close> on an
  empty string, a read past the end of the input and a failed \<open>ASSERT\<close> are values of type
  \<open>ub\<close>; the decoder is proved to reach none of them.

  The lemmas relate the encoder to the RFC 4648 grouping of the input into 6-bit digits
  (\<open>sextets\<close>), and show that decoding inverts encoding and that whatever the decoder accepts
  is the canonical encoding of its result.
\<close>

section \<open>Tables\<close>

definition CHAR_TABLE :: string where
  "CHAR_TABLE = ''ABCDEFGHIJKLMNOPQRSTUVWXYZabcdefghijklmnopqrstuvwxyz0123456789+/''"

definition REVERSE_LOOKUP_TABLE :: "u8 list" where
  "REVERSE_LOOKUP_TABLE =
    [64, 64, 64, 64, 64, 64, 64, 64, 64, 64, 64, 64, 64, 64, 64, 64, 64, 64, 64, 64, 64, 64, 64, 64,
     64, 64, 64, 64, 64, 64, 64, 64, 64, 64, 64, 64, 64, 64, 64, 64, 64, 64, 64, 62, 64, 64, 64, 63,
     52, 53, 54, 55, 56, 57, 58, 59, 60, 61, 64, 64, 64, 64, 64, 64, 64, 0,  1,  2,  3,  4,  5,  6,
     7,  8,  9,  10, 11, 12, 13, 14, 15, 16, 17, 18, 19, 20, 21, 22, 23, 24, 25, 64, 64, 64, 64, 64,
     64, 26, 27, 28, 29, 30, 31, 32, 33, 34, 35, 36, 37, 38, 39, 40, 41, 42, 43, 44, 45, 46, 47, 48,
     49, 50, 51, 64, 64, 64, 64, 64, 64, 64, 64, 64, 64, 64, 64, 64, 64, 64, 64, 64, 64, 64, 64, 64,
     64, 64, 64, 64, 64, 64, 64, 64, 64, 64, 64, 64, 64, 64, 64, 64, 64, 64, 64, 64, 64, 64, 64, 64,
     64, 64, 64, 64, 64, 64, 64, 64, 64, 64, 64, 64, 64, 64, 64, 64, 64, 64, 64, 64, 64, 64, 64, 64,
     64, 64, 64, 64, 64, 64, 64, 64, 64, 64, 64, 64, 64, 64, 64, 64, 64, 64, 64, 64, 64, 64, 64, 64,
     64, 64, 64, 64, 64, 64, 64, 64, 64, 64, 64, 64, 64, 64, 64, 64, 64, 64, 64, 64, 64, 64, 64, 64,
     64, 64, 64, 64, 64, 64, 64, 64, 64, 64, 64, 64, 64, 64, 64, 64]"

section \<open>The codec\<close>

text \<open>\<open>ret.push_back(b)\<close> and \<open>ret.back() |= b\<close>; the latter is undefined on an empty string.\<close>

definition push_back :: "string \<Rightarrow> u8 \<Rightarrow> string" where
  "push_back ret b = ret @ [char_of_byte b]"

definition or_back :: "string \<Rightarrow> u8 \<Rightarrow> ub + string" where
  "or_back ret b =
     (if ret = [] then Inl EmptyBack
      else Inr (butlast ret @ [char_of_byte (byte_of_char (last ret) OR b)]))"

definition decodeBase :: "u8 \<Rightarrow> nat \<Rightarrow> string \<Rightarrow> u8 list \<Rightarrow> ub + (bool \<times> string)" where
  "decodeBase cur_char pos ret reverse_lookup_table =
     (let c = reverse_lookup_table ! unat cur_char in
      if c = 64 then Inr (False, ret)
      else if pos mod 4 = 0 then Inr (True, push_back ret (push_bit 2 c))
      else if pos mod 4 = 1 then
        map_sum id (\<lambda>r. (True, push_back r (push_bit 4 c))) (or_back ret (drop_bit 4 c))
      else if pos mod 4 = 2 then
        map_sum id (\<lambda>r. (True, push_back r (push_bit 6 c))) (or_back ret (drop_bit 2 c))
      else map_sum id (\<lambda>r. (True, r)) (or_back ret c))"

definition decodeLast :: "u8 \<Rightarrow> nat \<Rightarrow> string \<Rightarrow> u8 list \<Rightarrow> ub + (bool \<times> string)" where
  "decodeLast cur_char pos ret reverse_lookup_table =
     (let c = reverse_lookup_table ! unat cur_char in
      if c = 64 then Inr (False, ret)
      else if pos mod 4 = 0 then Inr (False, ret)
      else if pos mod 4 = 1 then
        map_sum id (\<lambda>r. (c AND 15 = 0, r)) (or_back ret (drop_bit 4 c))
      else if pos mod 4 = 2 then
        map_sum id (\<lambda>r. (c AND 3 = 0, r)) (or_back ret (drop_bit 2 c))
      else map_sum id (\<lambda>r. (True, r)) (or_back ret c))"

text \<open>\<open>encodeBase\<close> returns the new \<open>next_c\<close> and the new \<open>ret\<close>.\<close>

definition encodeBase :: "u8 \<Rightarrow> nat \<Rightarrow> u8 \<Rightarrow> string \<Rightarrow> string \<Rightarrow> u8 \<times> string" where
  "encodeBase cur_char pos next_c ret char_table =
     (if pos mod 3 = 0 then
        (push_bit 4 (cur_char AND 3), ret @ [char_table ! unat (drop_bit 2 cur_char)])
      else if pos mod 3 = 1 then
        (push_bit 2 (cur_char AND 15), ret @ [char_table ! unat (next_c OR drop_bit 4 cur_char)])
      else
        (0, ret @ [char_table ! unat (next_c OR drop_bit 6 cur_char),
                   char_table ! unat (cur_char AND 63)]))"

definition encodeLast :: "nat \<Rightarrow> u8 \<Rightarrow> string \<Rightarrow> string \<Rightarrow> bool \<Rightarrow> string" where
  "encodeLast pos last_char ret char_table add_padding =
     (if pos mod 3 = 1 then
        ret @ [char_table ! unat last_char] @ (if add_padding then ''=='' else '''')
      else if pos mod 3 = 2 then
        ret @ [char_table ! unat last_char] @ (if add_padding then ''='' else '''')
      else ret)"

text \<open>The \<open>for\<close> loop of \<open>Base64::encode\<close>, with its locals \<open>pos\<close>, \<open>next_c\<close> and \<open>ret\<close>.\<close>

fun encode_loop :: "string \<Rightarrow> nat \<Rightarrow> u8 \<Rightarrow> string \<Rightarrow> nat \<times> u8 \<times> string" where
  "encode_loop [] pos next_c ret = (pos, next_c, ret)"
| "encode_loop (x # input) pos next_c ret =
     (let (next_c', ret') = encodeBase (byte_of_char x) pos next_c ret CHAR_TABLE
      in encode_loop input (Suc pos) next_c' ret')"

definition encode :: "string \<Rightarrow> bool \<Rightarrow> string" where
  "encode input add_padding =
     (let (pos, next_c, ret) = encode_loop input 0 0 ''''
      in encodeLast pos next_c ret CHAR_TABLE add_padding)"

text \<open>
  The \<open>for\<close> loop of \<open>Base64::decodeWithoutPadding\<close>: \<open>Inr None\<close> is the early return of the empty
  string, \<open>Inr (Some ret)\<close> the value of \<open>ret\<close> after the loop.
\<close>

function decode_loop :: "string \<Rightarrow> nat \<Rightarrow> nat \<Rightarrow> string \<Rightarrow> ub + string option" where
  "decode_loop input i last_pos ret =
     (if i < last_pos then
        if i < length input then
          (case decodeBase (byte_of_char (input ! i)) i ret REVERSE_LOOKUP_TABLE of
             Inl e \<Rightarrow> Inl e
           | Inr (ok, ret') \<Rightarrow> if ok then decode_loop input (Suc i) last_pos ret' else Inr None)
        else Inl OutOfBounds
      else Inr (Some ret))"
  by pat_completeness auto
termination by (relation "measure (\<lambda>(input, i, last_pos, ret). last_pos - i)") auto

declare decode_loop.simps [simp del]

text \<open>
  \<open>n\<close> is a \<open>size_t\<close>, 32 bits wide on the Wasm target: for an input of padding characters only,
  \<open>n - 1\<close> wraps around to \<open>2 ^ 32 - 1\<close>.
\<close>

definition strip_padding_length :: "string \<Rightarrow> nat" where
  "strip_padding_length input =
     (let n = length input in
      if input ! (n - 1) = CHR ''='' then
        (let n = n - 1 in if n > 0 \<and> input ! (n - 1) = CHR ''='' then n - 1 else n)
      else n)"

definition max_decoded_length :: "nat \<Rightarrow> nat" where
  "max_decoded_length n =
     (let max_length = (n + 3) div 4 * 3;
          max_length = (if n mod 4 = 3 then max_length - 1 else max_length)
      in if n mod 4 = 2 then max_length - 2 else max_length)"

definition decodeWithoutPadding :: "string \<Rightarrow> ub + string" where
  "decodeWithoutPadding input =
     (if input = '''' then Inr ''''
      else
        let n = strip_padding_length input;
            last_pos = (if n = 0 then 2 ^ 32 - 1 else n - 1);
            max_length = max_decoded_length n
        in case decode_loop input 0 last_pos '''' of
             Inl e \<Rightarrow> Inl e
           | Inr None \<Rightarrow> Inr ''''
           | Inr (Some ret) \<Rightarrow>
               if last_pos < length input then
                 (case decodeLast (byte_of_char (input ! last_pos)) last_pos ret REVERSE_LOOKUP_TABLE of
                    Inl e \<Rightarrow> Inl e
                  | Inr (ok, ret') \<Rightarrow>
                      if \<not> ok then Inr ''''
                      else if length ret' = max_length then Inr ret'
                      else Inl AssertFailed)
               else Inl OutOfBounds)"

section \<open>The encoder against the RFC 4648 grouping\<close>

text \<open>The 6-bit digits of a byte string, three bytes at a time, the last group zero-filled.\<close>

fun sextets :: "string \<Rightarrow> u8 list" where
  "sextets [] = []"
| "sextets [x] = [drop_bit 2 (byte_of_char x), push_bit 4 (byte_of_char x AND 3)]"
| "sextets [x, y] =
     [drop_bit 2 (byte_of_char x),
      push_bit 4 (byte_of_char x AND 3) OR drop_bit 4 (byte_of_char y),
      push_bit 2 (byte_of_char y AND 15)]"
| "sextets (x # y # z # s) =
     drop_bit 2 (byte_of_char x)
     # (push_bit 4 (byte_of_char x AND 3) OR drop_bit 4 (byte_of_char y))
     # (push_bit 2 (byte_of_char y AND 15) OR drop_bit 6 (byte_of_char z))
     # (byte_of_char z AND 63) # sextets s"

definition digit :: "u8 \<Rightarrow> char" where
  "digit x = CHAR_TABLE ! unat x"

definition padding :: "nat \<Rightarrow> bool \<Rightarrow> string" where
  "padding n add_padding =
     (if add_padding then if n mod 3 = 1 then ''=='' else if n mod 3 = 2 then ''='' else ''''
      else '''')"

lemma mod3_steps: "pos mod 3 = 0 \<Longrightarrow> Suc pos mod 3 = 1" "pos mod 3 = 0 \<Longrightarrow> Suc (Suc pos) mod 3 = 2"
  "pos mod 3 = 0 \<Longrightarrow> Suc (Suc (Suc pos)) mod 3 = 0" for pos :: nat
  by presburger+

lemma encode_loop_sextets:
  "pos mod 3 = 0 \<Longrightarrow>
   (case encode_loop s pos next_c ret of (pos', next_c', ret') \<Rightarrow>
      encodeLast pos' next_c' ret' CHAR_TABLE add_padding) =
   ret @ map digit (sextets s) @ padding (length s) add_padding"
proof (induction s arbitrary: pos next_c ret rule: sextets.induct)
  case (4 x y z s)
  have "Suc (Suc (Suc (length s))) mod 3 = length s mod 3" by presburger
  then have pad: "padding (Suc (Suc (Suc (length s)))) add_padding = padding (length s) add_padding"
    by (simp only: padding_def)
  from "4.prems" have "Suc (Suc (Suc pos)) mod 3 = 0" by (rule mod3_steps)
  note IH = "4.IH" [OF this]
  show ?case
    using "4.prems" IH
    by (simp add: encodeBase_def mod3_steps pad digit_def Let_def)
qed (simp_all add: encodeBase_def encodeLast_def mod3_steps padding_def digit_def Let_def)

lemma encode_eq_sextets:
  "encode s add_padding = map digit (sextets s) @ padding (length s) add_padding"
  using encode_loop_sextets [where pos = 0 and ret = "[]"] by (simp add: encode_def)

lemma length_sextets: "length (sextets s) = (4 * length s + 2) div 3"
  by (induction s rule: sextets.induct) (simp_all add: Let_def)

subsection \<open>Bit-level facts\<close>

lemma bits_less_8: "(n :: nat) < 8 \<longleftrightarrow> n = 0 \<or> n = 1 \<or> n = 2 \<or> n = 3 \<or> n = 4 \<or> n = 5 \<or> n = 6 \<or> n = 7"
  by auto

lemma byte_eqI: "(a :: u8) = b"
  if "bit a 0 = bit b 0" "bit a 1 = bit b 1" "bit a 2 = bit b 2" "bit a 3 = bit b 3"
    "bit a 4 = bit b 4" "bit a 5 = bit b 5" "bit a 6 = bit b 6" "bit a 7 = bit b 7"
proof (rule bit_word_eqI)
  fix n assume "n < LENGTH(8)"
  then have "n < 8" by simp
  with that show "bit a n = bit b n" by (auto simp only: bits_less_8)
qed

lemma byte_bit_ge: "8 \<le> n \<Longrightarrow> \<not> bit (b :: u8) n"
  using bit_imp_le_length [of b n] by auto

lemma less_64I: "c < 64" if "\<not> bit c 6" "\<not> bit c 7" for c :: u8
proof -
  have "c AND 63 = c"
    by (rule byte_eqI) (use that in \<open>simp_all add: bit_simps\<close>)
  moreover have "c AND 63 \<le> 63" by (rule word_and_le1)
  ultimately have "c \<le> 63" by simp
  then show ?thesis by (auto simp: word_le_nat_alt word_less_nat_alt)
qed

lemma not_bit_67: "\<not> bit c 6" "\<not> bit c 7" if "c < 64" for c :: u8
proof -
  from that have "unat c < 64" by (simp add: word_less_nat_alt)
  then have "\<not> bit (unat c) 6" "\<not> bit (unat c) 7" by (simp_all add: bit_iff_odd)
  then show "\<not> bit c 6" "\<not> bit c 7" by (simp_all add: bit_unsigned_iff)
qed

lemma less_64_iff: "c < 64 \<longleftrightarrow> \<not> bit c 6 \<and> \<not> bit c 7" for c :: u8
  using less_64I not_bit_67 by blast

lemma sextets_less_64: "x \<in> set (sextets s) \<Longrightarrow> x < 64"
  by (induction s rule: sextets.induct)
    (auto simp: bit_simps byte_bit_ge less_64_iff)

subsection \<open>The tables\<close>

text \<open>The two tables are inverse to each other on the 64 digits, and nothing else is accepted.\<close>

definition undigit :: "char \<Rightarrow> u8" where
  "undigit c = REVERSE_LOOKUP_TABLE ! unat (byte_of_char c)"

lemma length_tables: "length REVERSE_LOOKUP_TABLE = 256" "length CHAR_TABLE = 64"
  by (simp_all add: REVERSE_LOOKUP_TABLE_def CHAR_TABLE_def)

lemma char_table_entries:
  "list_all (\<lambda>(i, c). REVERSE_LOOKUP_TABLE ! of_char c = of_nat i) (enumerate 0 CHAR_TABLE)"
  by (simp add: REVERSE_LOOKUP_TABLE_def CHAR_TABLE_def)

lemma reverse_table_entries:
  "list_all (\<lambda>(i, x). x = 64 \<or> (x < 64 \<and> of_char (CHAR_TABLE ! unat x) = (i::nat)))
     (enumerate 0 REVERSE_LOOKUP_TABLE)"
  by (simp add: REVERSE_LOOKUP_TABLE_def CHAR_TABLE_def)

lemma undigit_digit: "undigit (digit x) = x" if "x < 64"
proof -
  from that have "unat x < length CHAR_TABLE" by (simp add: length_tables word_less_nat_alt)
  then have "(unat x, CHAR_TABLE ! unat x) \<in> set (enumerate 0 CHAR_TABLE)"
    by (simp add: in_set_enumerate_eq)
  with char_table_entries show ?thesis by (auto simp: list_all_iff undigit_def digit_def)
qed

lemma digit_undigit: "undigit c < 64 \<and> digit (undigit c) = c" if "undigit c \<noteq> 64"
proof -
  have "(of_char c, REVERSE_LOOKUP_TABLE ! of_char c) \<in> set (enumerate 0 REVERSE_LOOKUP_TABLE)"
    by (simp add: in_set_enumerate_eq length_tables)
  with that reverse_table_entries show ?thesis
    by (auto simp: list_all_iff undigit_def digit_def)
qed

lemma undigit_padding: "undigit (CHR ''='') = 64"
  by (simp add: undigit_def REVERSE_LOOKUP_TABLE_def)

lemma digit_not_padding: "digit x \<noteq> CHR ''=''" if "x < 64"
  using undigit_digit [OF that] undigit_padding that by auto

section \<open>The decoder\<close>

text \<open>What the decoder computes on a list of digits; \<open>None\<close> is a rejected input.\<close>

fun unsextets :: "u8 list \<Rightarrow> string option" where
  "unsextets [] = Some []"
| "unsextets [a] = None"
| "unsextets [a, b] =
     (if b AND 15 = 0 then Some [char_of_byte (push_bit 2 a OR drop_bit 4 b)] else None)"
| "unsextets [a, b, c] =
     (if c AND 3 = 0
      then Some [char_of_byte (push_bit 2 a OR drop_bit 4 b), char_of_byte (push_bit 4 b OR drop_bit 2 c)]
      else None)"
| "unsextets (a # b # c # d # xs) =
     map_option (\<lambda>s. char_of_byte (push_bit 2 a OR drop_bit 4 b)
       # char_of_byte (push_bit 4 b OR drop_bit 2 c) # char_of_byte (push_bit 6 c OR d) # s)
       (unsextets xs)"

lemma unsextets_sextets: "unsextets (sextets s) = Some s"
proof -
  have inj: "char_of_byte b = c \<longleftrightarrow> b = byte_of_char c" for b c by auto
  show ?thesis
    by (induction s rule: sextets.induct)
      (auto simp: inj bit_simps byte_bit_ge intro!: byte_eqI)
qed

lemma low_bits_0:
  fixes b :: u8
  shows "b AND 15 = 0 \<longleftrightarrow> \<not> bit b 0 \<and> \<not> bit b 1 \<and> \<not> bit b 2 \<and> \<not> bit b 3"
    and "b AND 3 = 0 \<longleftrightarrow> \<not> bit b 0 \<and> \<not> bit b 1"
  by (auto simp: bit_simps dest: arg_cong [where f = "\<lambda>w. bit w 0"] arg_cong [where f = "\<lambda>w. bit w 1"]
      arg_cong [where f = "\<lambda>w. bit w 2"] arg_cong [where f = "\<lambda>w. bit w 3"] intro!: byte_eqI)

lemma sextets_unsextets:
  "unsextets xs = Some s \<Longrightarrow> \<forall>x \<in> set xs. x < 64 \<Longrightarrow> sextets s = xs"
  by (induction xs arbitrary: s rule: unsextets.induct)
    (auto simp: bit_simps byte_bit_ge low_bits_0 less_64_iff intro!: byte_eqI split: if_splits)

lemma max_decoded_length_step: "max_decoded_length (Suc (Suc (Suc (Suc n)))) = 3 + max_decoded_length n"
proof -
  have "Suc (Suc (Suc (Suc n))) mod 4 = n mod 4" by presburger
  moreover have "(Suc (Suc (Suc (Suc n))) + 3) div 4 = Suc ((n + 3) div 4)" by presburger
  moreover have "1 \<le> (n + 3) div 4" if "n mod 4 = 3 \<or> n mod 4 = 2" using that by presburger
  ultimately show ?thesis unfolding max_decoded_length_def Let_def by auto
qed

lemma length_unsextets: "unsextets xs = Some s \<Longrightarrow> length s = max_decoded_length (length xs)"
proof (induction xs arbitrary: s rule: unsextets.induct)
  case (5 a b c d xs)
  then show ?case by (auto simp: max_decoded_length_step)
qed (auto simp: max_decoded_length_def split: if_splits)

lemma or_back_push_back [simp]: "or_back (push_back r x) y = Inr (push_back r (x OR y))"
  by (simp add: or_back_def push_back_def)

text \<open>The loop and \<open>decodeLast\<close> on a list of characters.\<close>

fun decode_list :: "string \<Rightarrow> nat \<Rightarrow> string \<Rightarrow> ub + string option" where
  "decode_list [] i ret = Inr (Some ret)"
| "decode_list (x # xs) i ret =
     (case decodeBase (byte_of_char x) i ret REVERSE_LOOKUP_TABLE of
        Inl e \<Rightarrow> Inl e
      | Inr (ok, ret') \<Rightarrow> if ok then decode_list xs (Suc i) ret' else Inr None)"

definition decode_all :: "string \<Rightarrow> nat \<Rightarrow> string \<Rightarrow> ub + string option" where
  "decode_all xs i ret =
     (case decode_list (butlast xs) i ret of
        Inl e \<Rightarrow> Inl e
      | Inr None \<Rightarrow> Inr None
      | Inr (Some ret) \<Rightarrow>
          map_sum id (\<lambda>(ok, r). if ok then Some r else None)
            (decodeLast (byte_of_char (last xs)) (i + length xs - 1) ret REVERSE_LOOKUP_TABLE))"

lemma decode_loop_list:
  assumes "n \<le> length input"
  shows "decode_loop input i n ret = decode_list (drop i (take n input)) i ret"
  using assms
proof (induction input i n ret rule: decode_loop.induct)
  case (1 input i n ret)
  show ?case
  proof (cases "i < n")
    case True
    with "1.prems" have "drop i (take n input) = input ! i # drop (Suc i) (take n input)"
      by (simp add: Cons_nth_drop_Suc [symmetric])
    with True "1" show ?thesis
      by (subst decode_loop.simps) (auto split: sum.split)
  qed (subst decode_loop.simps, simp)
qed

lemma mod4_steps:
  fixes i :: nat
  assumes "i mod 4 = 0"
  shows "Suc i mod 4 = 1" "Suc (Suc i) mod 4 = 2" "Suc (Suc (Suc i)) mod 4 = 3"
    "Suc (Suc (Suc (Suc i))) mod 4 = 0" "(3 + i) mod 4 = 3"
  using assms by presburger+

text \<open>Only for its induction rule, which takes four characters at a time.\<close>

fun groups4 :: "'a list \<Rightarrow> 'a list list" where
  "groups4 [] = []"
| "groups4 [a] = [[a]]"
| "groups4 [a, b] = [[a, b]]"
| "groups4 [a, b, c] = [[a, b, c]]"
| "groups4 (a # b # c # d # xs) = [a, b, c, d] # groups4 xs"

lemma decodeBase_undigit:
  "decodeBase (byte_of_char x) i ret REVERSE_LOOKUP_TABLE =
     (let c = undigit x in
      if c = 64 then Inr (False, ret)
      else if i mod 4 = 0 then Inr (True, push_back ret (push_bit 2 c))
      else if i mod 4 = 1 then
        map_sum id (\<lambda>r. (True, push_back r (push_bit 4 c))) (or_back ret (drop_bit 4 c))
      else if i mod 4 = 2 then
        map_sum id (\<lambda>r. (True, push_back r (push_bit 6 c))) (or_back ret (drop_bit 2 c))
      else map_sum id (\<lambda>r. (True, r)) (or_back ret c))"
  by (simp add: decodeBase_def undigit_def)

lemma decodeLast_undigit:
  "decodeLast (byte_of_char x) i ret REVERSE_LOOKUP_TABLE =
     (let c = undigit x in
      if c = 64 then Inr (False, ret)
      else if i mod 4 = 0 then Inr (False, ret)
      else if i mod 4 = 1 then map_sum id (\<lambda>r. (c AND 15 = 0, r)) (or_back ret (drop_bit 4 c))
      else if i mod 4 = 2 then map_sum id (\<lambda>r. (c AND 3 = 0, r)) (or_back ret (drop_bit 2 c))
      else map_sum id (\<lambda>r. (True, r)) (or_back ret c))"
  by (simp add: decodeLast_def undigit_def)

lemma decode_all_unsextets:
  "xs \<noteq> [] \<Longrightarrow> i mod 4 = 0 \<Longrightarrow>
   decode_all xs i ret =
     Inr (if list_all (\<lambda>x. undigit x \<noteq> 64) xs
          then map_option (\<lambda>s. ret @ s) (unsextets (map undigit xs)) else None)"
proof (induction xs arbitrary: i ret rule: groups4.induct)
  case (4 a b c)
  then show ?case
    by (simp add: decode_all_def decodeBase_undigit decodeLast_undigit mod4_steps Let_def)
      (simp add: push_back_def)
next
  case (5 a b c d xs)
  note step = decodeBase_undigit decodeLast_undigit mod4_steps [OF \<open>i mod 4 = 0\<close>] \<open>i mod 4 = 0\<close>
  show ?case
  proof (cases "xs = []")
    case True
    then show ?thesis
      by (simp add: decode_all_def step Let_def) (simp add: push_back_def)
  next
    case False
    let ?ret = "push_back (push_back (push_back ret (push_bit 2 (undigit a) OR drop_bit 4 (undigit b)))
      (push_bit 4 (undigit b) OR drop_bit 2 (undigit c))) (push_bit 6 (undigit c) OR undigit d)"
    have "decode_all (a # b # c # d # xs) i ret =
      (if undigit a = 64 \<or> undigit b = 64 \<or> undigit c = 64 \<or> undigit d = 64 then Inr None
       else decode_all xs (Suc (Suc (Suc (Suc i)))) ?ret)"
      using False by (simp add: decode_all_def step Let_def split: sum.split option.split)
    then show ?thesis
      using "5.IH" [OF False mod4_steps(4) [OF \<open>i mod 4 = 0\<close>], of ?ret]
      by (cases "unsextets (map undigit xs)") (auto simp: push_back_def)
  qed
qed (simp_all add: decode_all_def decodeBase_undigit decodeLast_undigit mod4_steps Let_def push_back_def or_back_def)

section \<open>Correctness of the entry points\<close>

lemma strip_padding_length_le: "strip_padding_length s \<le> length s"
  by (simp add: strip_padding_length_def Let_def)

text \<open>What is left of the input when the padding is removed.\<close>

definition strip_padding :: "string \<Rightarrow> string" where
  "strip_padding s = take (strip_padding_length s) s"

lemma decode_loop_padding_only:
  assumes "s \<noteq> []" "strip_padding_length s = 0"
  shows "decode_loop s 0 (2 ^ 32 - 1) '''' = Inr None"
proof -
  from assms have "s ! 0 = CHR ''=''"
    by (auto simp: strip_padding_length_def Let_def nth_append split: if_splits)
  with assms(1) show ?thesis
    by (subst decode_loop.simps) (simp add: decodeBase_undigit undigit_padding)
qed

lemma decodeWithoutPadding_eq:
  "decodeWithoutPadding s =
     Inr (if list_all (\<lambda>x. undigit x \<noteq> 64) (strip_padding s)
          then case unsextets (map undigit (strip_padding s)) of None \<Rightarrow> '''' | Some r \<Rightarrow> r
          else '''')"
proof (cases "s = [] \<or> strip_padding_length s = 0")
  case True
  then show ?thesis
    using decode_loop_padding_only [of s]
    by (auto simp: decodeWithoutPadding_def strip_padding_def)
next
  case False
  let ?n = "strip_padding_length s"
  let ?t = "strip_padding s"
  from False have n: "0 < ?n" "?n \<le> length s" by (simp_all add: strip_padding_length_le)
  then have t: "?t \<noteq> []" "length ?t = ?n" by (auto simp: strip_padding_def)
  from n have bl: "take (?n - 1) s = butlast ?t" and la: "s ! (?n - 1) = last ?t"
    using t by (auto simp: strip_padding_def butlast_take last_conv_nth)
  have loop: "decode_loop s 0 (?n - 1) '''' = decode_list (butlast ?t) 0 ''''"
    using n decode_loop_list [of "?n - 1" s 0 "''''"] by (simp add: bl [simplified])
  have all: "decode_all ?t 0 '''' =
     Inr (if list_all (\<lambda>x. undigit x \<noteq> 64) ?t then unsextets (map undigit ?t) else None)"
    using decode_all_unsextets [OF t(1), of 0 "''''"]
    by (cases "unsextets (map undigit ?t)") auto
  have len: "unsextets (map undigit ?t) = Some r \<Longrightarrow>
    length r = max_decoded_length ?n"
    for r using length_unsextets [of "map undigit ?t" r] t by simp
  have "decodeWithoutPadding s =
     (case decode_all ?t 0 '''' of Inl e \<Rightarrow> Inl e | Inr None \<Rightarrow> Inr ''''
      | Inr (Some r) \<Rightarrow> if length r = max_decoded_length ?n then Inr r else Inl AssertFailed)"
  proof -
    from False n have 1: "(s = []) = False" "(?n = 0) = False" "(?n - 1 < length s) = True" by auto
    have 2: "0 + length ?t - 1 = ?n - 1" using t(2) by simp
    show ?thesis
      unfolding decodeWithoutPadding_def decode_all_def Let_def 1 2 if_False if_True loop la
      by (simp split: sum.split option.split)
  qed
  with all len show ?thesis by (auto split: option.split)
qed

lemma decodeWithoutPadding_defined: "\<exists>r. decodeWithoutPadding s = Inr r"
  by (simp add: decodeWithoutPadding_eq)

text \<open>
  C26: \<open>decodeWithoutPadding\<close> never reads past its input, never calls \<open>back()\<close> on an empty string and
  never fails its final \<open>ASSERT\<close>, on any input (padding-only inputs, where \<open>n - 1\<close> wraps around,
  included).
\<close>

theorem decodeWithoutPadding_safe: "\<exists>r. decodeWithoutPadding s = Inr r"
  by (rule decodeWithoutPadding_defined)

lemma strip_padding_snoc:
  "x \<noteq> CHR ''='' \<Longrightarrow> strip_padding (s @ [x]) = s @ [x]"
  "x \<noteq> CHR ''='' \<Longrightarrow> strip_padding (s @ [x] @ ''='') = s @ [x]"
  "x \<noteq> CHR ''='' \<Longrightarrow> strip_padding (s @ [x] @ ''=='') = s @ [x]"
  by (auto simp: strip_padding_def strip_padding_length_def Let_def nth_append)

lemma sextets_eq_Nil [simp]: "sextets s = [] \<longleftrightarrow> s = []"
  by (cases s rule: sextets.cases) auto

lemma strip_padding_encode:
  assumes "s \<noteq> []"
  shows "strip_padding (encode s add_padding) = map digit (sextets s)"
proof -
  from assms have ne: "map digit (sextets s) \<noteq> []" by simp
  then obtain xs x where xs: "map digit (sextets s) = xs @ [x]"
    by (metis rev_exhaust)
  then have "x \<in> set (map digit (sextets s))" by simp
  then have "x \<noteq> CHR ''=''"
    using sextets_less_64 digit_not_padding by auto
  then show ?thesis
    by (auto simp: encode_eq_sextets xs padding_def strip_padding_snoc [simplified])
qed

lemma decode_inverts: "decodeWithoutPadding (encode s add_padding) = Inr s"
proof (cases "s = []")
  case True
  then show ?thesis by (simp add: encode_def encodeLast_def decodeWithoutPadding_def)
next
  case False
  have "map undigit (map digit (sextets s)) = sextets s"
    by (simp add: map_idI undigit_digit sextets_less_64 o_def)
  moreover have "list_all (\<lambda>x. undigit x \<noteq> 64) (map digit (sextets s))"
    using sextets_less_64 by (auto simp: list_all_iff undigit_digit)
  ultimately show ?thesis
    by (simp add: decodeWithoutPadding_eq strip_padding_encode [OF False] unsextets_sextets del: map_map)
qed

text \<open>
  C7: decoding inverts encoding, with and without padding: what \<open>Base64::encode\<close> produces for any
  byte string is accepted by \<open>decodeWithoutPadding\<close>, which gives the string back.
\<close>

theorem decode_encode: "decodeWithoutPadding (encode s add_padding) = Inr s"
  by (rule decode_inverts)

text \<open>
  C27: the decoder is strict: a string it decodes to something non-empty is, once its padding is
  removed, exactly the unpadded encoding of the result. Two different unpadded credentials
  therefore never stand for the same user and password.
\<close>

theorem encode_decode:
  assumes "decodeWithoutPadding s = Inr r" "r \<noteq> ''''"
  shows "encode r False = strip_padding s"
proof -
  from assms have ok: "list_all (\<lambda>x. undigit x \<noteq> 64) (strip_padding s)"
    and r: "unsextets (map undigit (strip_padding s)) = Some r"
    by (auto simp: decodeWithoutPadding_eq split: if_splits option.splits)
  from ok have "sextets r = map undigit (strip_padding s)"
    by (intro sextets_unsextets [OF r]) (auto simp: list_all_iff dest!: digit_undigit)
  with ok show ?thesis
    by (simp add: encode_eq_sextets padding_def map_idI list_all_iff digit_undigit o_def)
qed

theorem encode_decode_witness:
  "decodeWithoutPadding ''YWI='' = Inr ''ab'' \<and> encode ''ab'' False = strip_padding ''YWI=''"
proof -
  have "decodeWithoutPadding ''YWI='' = Inr ''ab''" by code_simp
  with encode_decode [of "''YWI=''" "''ab''"] show ?thesis by simp
qed

end
