(* ===== verification/Proxy_Host.thy ===== *)
theory Proxy_Host
  imports Prelude
begin

text \<open>
  The vocabulary of the Proxy-Wasm host that every extension is written against. The host itself
  is outside the repository: the results of its calls are arguments of the definitions that make
  them, and the calls an extension makes for their effect are returned as a list of
  \<open>host_action\<close>s, in the order of the code.

  The code distinguishes the results \<open>Ok\<close> and \<open>CasMismatch\<close> from all other failures, which
  \<open>Failure\<close> carries by number.
\<close>

datatype WasmResult = Ok | CasMismatch | Failure nat

datatype FilterHeadersStatus = Continue | StopIteration

type_synonym header = "string \<times> string"

datatype host_action =
    SendLocalResponse nat string string "header list" \<comment> \<open>code, body, details, headers\<close>
  | ContinueRequest
  | SetEffectiveContext u32
  | SetTickPeriodMilliseconds u32
  | IncrementMetric u32 int
  | HttpCall string "header list" string "header list" nat \<comment> \<open>cluster, headers, body, trailers, timeout\<close>
  | SetFilterState string string
  | ExprDelete u32
  | ProxyDone

text \<open>
  \<open>getValue(path, &x)\<close> reads a property of the host: it returns false and leaves \<open>x\<close> alone when
  the property is missing.
\<close>

type_synonym 'a properties = "string list \<Rightarrow> 'a option"

definition getValue :: "'a properties \<Rightarrow> string list \<Rightarrow> 'a \<Rightarrow> bool \<times> 'a" where
  "getValue props path x = (case props path of None \<Rightarrow> (False, x) | Some y \<Rightarrow> (True, y))"

lemma getValue_simps [host_simps]:
  "snd (getValue props path x) = (case props path of None \<Rightarrow> x | Some y \<Rightarrow> y)"
  "fst (getValue props path x) \<longleftrightarrow> props path \<noteq> None"
  by (simp_all add: getValue_def split: option.split)

text \<open>The local responses in a list of actions, and whether the request was resumed.\<close>

definition local_responses :: "host_action list \<Rightarrow> nat list" where
  "local_responses as = List.map_filter (\<lambda>a. case a of SendLocalResponse c _ _ _ \<Rightarrow> Some c | _ \<Rightarrow> None) as"

lemma local_responses_simps [host_simps]:
  "local_responses [] = []"
  "local_responses (SendLocalResponse c b d h # as) = c # local_responses as"
  "local_responses (ContinueRequest # as) = local_responses as"
  "local_responses (SetEffectiveContext i # as) = local_responses as"
  "local_responses (IncrementMetric m k # as) = local_responses as"
  "local_responses (HttpCall cl h b t ms # as) = local_responses as"
  "local_responses (as @ bs) = local_responses as @ local_responses bs"
  by (simp_all add: local_responses_def map_filter_simps) (simp add: List.map_filter_def)

end
