(* ===== verification/Json_Util.thy ===== *)
theory Json_Util
  imports Prelude
begin

text \<open>
  The JSON utilities of \<open>extensions/common/wasm/json_util.{h,cc}\<close>. The values are those of
  \<open>nlohmann::json\<close>: an object is a sequence of key/value pairs (the library keeps them in key
  order, without repeated keys), a number is a signed integer, an unsigned integer or a double.

  The JSON library and Abseil's number parser are not part of the repository: \<open>json_lib\<close> collects
  them as arguments. A double converts to an integer by truncation; where the value does not fit
  the conversion is undefined in C++, and \<open>wild_u64\<close> / \<open>wild_i64\<close> stand for what it yields.
\<close>

section \<open>Values\<close>

text \<open>A double is a significand and a binary exponent: \<open>NFloat m e\<close> is \<open>m * 2 ^ e\<close>.\<close>

datatype json_number = NInteger u64 | NUnsigned u64 | NFloat int int

datatype json =
    JNull
  | JBoolean bool
  | JNumber json_number
  | JString string
  | JArray "json list"
  | JObject "(string \<times> json) list"

fun is_object :: "json \<Rightarrow> bool" where
  "is_object (JObject _) = True" | "is_object _ = False"

text \<open>\<open>j.find(key)\<close>: \<open>None\<close> is \<open>j.end()\<close>, which is also what a value that is no object gives.\<close>

fun json_find :: "json \<Rightarrow> string \<Rightarrow> json option" where
  "json_find (JObject kvs) key = map_of kvs key"
| "json_find _ key = None"

record json_lib =
  json_parse :: "string \<Rightarrow> json option" \<comment> \<open>\<open>None\<close> is a discarded value\<close>
  json_dump :: "json \<Rightarrow> string"
  SimpleAtoi_u64 :: "string \<Rightarrow> u64 option"
  SimpleAtoi_i64 :: "string \<Rightarrow> u64 option"
  wild_u64 :: "int \<Rightarrow> int \<Rightarrow> u64"
  wild_i64 :: "int \<Rightarrow> int \<Rightarrow> u64"

text \<open>\<open>static_cast\<close> of a double, and \<open>j.get<uint64_t>()\<close> / \<open>j.get<int64_t>()\<close> of a number. A 64-bit
  value is kept as a word; \<open>sint\<close> reads it as an \<open>int64_t\<close>.\<close>

definition trunc_double :: "int \<Rightarrow> int \<Rightarrow> int" where
  "trunc_double m e =
     (if 0 \<le> e then m * 2 ^ nat e else sgn m * (\<bar>m\<bar> div 2 ^ nat (- e)))"

fun number_u64 :: "json_lib \<Rightarrow> json_number \<Rightarrow> u64" where
  "number_u64 L (NInteger w) = w"
| "number_u64 L (NUnsigned w) = w"
| "number_u64 L (NFloat m e) =
     (if 0 \<le> trunc_double m e \<and> trunc_double m e < 2 ^ 64 then of_int (trunc_double m e)
      else wild_u64 L m e)"

fun number_i64 :: "json_lib \<Rightarrow> json_number \<Rightarrow> u64" where
  "number_i64 L (NInteger w) = w"
| "number_i64 L (NUnsigned w) = w"
| "number_i64 L (NFloat m e) =
     (if - (2 ^ 63) \<le> trunc_double m e \<and> trunc_double m e < 2 ^ 63 then of_int (trunc_double m e)
      else wild_i64 L m e)"

section \<open>Typed access\<close>

datatype JsonParserResultDetail = UNKNOWN | OK | OUT_OF_RANGE | TYPE_ERROR | INVALID_VALUE

definition JsonParse :: "json_lib \<Rightarrow> string \<Rightarrow> json option" where
  "JsonParse L str =
     (case json_parse L str of
        None \<Rightarrow> None
      | Some result \<Rightarrow> if \<not> is_object result then None else Some result)"

definition JsonValueAs_int64 :: "json_lib \<Rightarrow> json \<Rightarrow> u64 option \<times> JsonParserResultDetail" where
  "JsonValueAs_int64 L j =
     (case j of
        JNumber n \<Rightarrow> (Some (number_i64 L n), OK)
      | JString s \<Rightarrow> (case SimpleAtoi_i64 L s of Some r \<Rightarrow> (Some r, OK) | None \<Rightarrow> (None, INVALID_VALUE))
      | _ \<Rightarrow> (None, TYPE_ERROR))"

definition JsonValueAs_uint64 :: "json_lib \<Rightarrow> json \<Rightarrow> u64 option \<times> JsonParserResultDetail" where
  "JsonValueAs_uint64 L j =
     (case j of
        JNumber n \<Rightarrow> (Some (number_u64 L n), OK)
      | JString s \<Rightarrow> (case SimpleAtoi_u64 L s of Some r \<Rightarrow> (Some r, OK) | None \<Rightarrow> (None, INVALID_VALUE))
      | _ \<Rightarrow> (None, TYPE_ERROR))"

text \<open>The instances for \<open>std::string_view\<close> and \<open>std::string\<close> have the same body.\<close>

definition JsonValueAs_string_view :: "json \<Rightarrow> string option \<times> JsonParserResultDetail" where
  "JsonValueAs_string_view j = (case j of JString s \<Rightarrow> (Some s, OK) | _ \<Rightarrow> (None, TYPE_ERROR))"

definition JsonValueAs_string :: "json \<Rightarrow> string option \<times> JsonParserResultDetail" where
  "JsonValueAs_string j = (case j of JString s \<Rightarrow> (Some s, OK) | _ \<Rightarrow> (None, TYPE_ERROR))"

definition JsonValueAs_bool :: "json \<Rightarrow> bool option \<times> JsonParserResultDetail" where
  "JsonValueAs_bool j =
     (case j of
        JBoolean b \<Rightarrow> (Some b, OK)
      | JString v \<Rightarrow>
          if v = ''true'' then (Some True, OK)
          else if v = ''false'' then (Some False, OK)
          else (None, INVALID_VALUE)
      | _ \<Rightarrow> (None, TYPE_ERROR))"

text \<open>The loop over the elements of an array; \<open>values\<close> is the pair being built.\<close>

fun strings_loop :: "json list \<Rightarrow> string list option \<times> JsonParserResultDetail \<Rightarrow>
    string list option \<times> JsonParserResultDetail" where
  "strings_loop [] values = values"
| "strings_loop (elt # elts) values =
     (case elt of
        JString s \<Rightarrow> strings_loop elts (Some (case_option [] id (fst values) @ [s]), snd values)
      | _ \<Rightarrow> (None, TYPE_ERROR))"

definition JsonValueAs_strings :: "json \<Rightarrow> string list option \<times> JsonParserResultDetail" where
  "JsonValueAs_strings j =
     (case j of JArray elts \<Rightarrow> strings_loop elts (None, OK) | _ \<Rightarrow> (None, TYPE_ERROR))"

definition JsonValueAs_object :: "json \<Rightarrow> json option \<times> JsonParserResultDetail" where
  "JsonValueAs_object j = (if is_object j then (Some j, OK) else (None, TYPE_ERROR))"

text \<open>
  \<open>JsonGetField<T>(j, field)\<close>: the detail and the object, \<open>None\<close> where the constructor leaves
  \<open>object_\<close> unset; and its \<open>value_or\<close>.
\<close>

definition JsonGetField ::
  "(json \<Rightarrow> 'a option \<times> JsonParserResultDetail) \<Rightarrow> json \<Rightarrow> string \<Rightarrow>
     JsonParserResultDetail \<times> 'a option" where
  "JsonGetField value_as j field =
     (case json_find j field of
        None \<Rightarrow> (OUT_OF_RANGE, None)
      | Some v \<Rightarrow> (snd (value_as v), fst (value_as v)))"

definition value_or :: "JsonParserResultDetail \<times> 'a option \<Rightarrow> 'a \<Rightarrow> 'a \<Rightarrow> 'a" where
  \<comment> \<open>\<open>unset\<close> is the value of an \<open>object_\<close> that was never assigned\<close>
  "value_or f unset v =
     (if fst f \<noteq> OK then v else case snd f of Some x \<Rightarrow> x | None \<Rightarrow> unset)"

section \<open>Iteration\<close>

text \<open>
  The visitors are closures that update variables they capture: a visitor takes the state of
  those variables and returns it updated, with its verdict.
\<close>

fun visit_all :: "('a \<Rightarrow> 's \<Rightarrow> bool \<times> 's) \<Rightarrow> 'a list \<Rightarrow> 's \<Rightarrow> bool \<times> 's" where
  "visit_all visitor [] s = (True, s)"
| "visit_all visitor (elt # elts) s =
     (case visitor elt s of (ok, s') \<Rightarrow> if \<not> ok then (False, s') else visit_all visitor elts s')"

definition JsonArrayIterate :: "json \<Rightarrow> string \<Rightarrow> (json \<Rightarrow> 's \<Rightarrow> bool \<times> 's) \<Rightarrow> 's \<Rightarrow> bool \<times> 's" where
  "JsonArrayIterate j field visitor s =
     (case json_find j field of
        None \<Rightarrow> (True, s)
      | Some (JArray elts) \<Rightarrow> visit_all visitor elts s
      | Some _ \<Rightarrow> (False, s))"

text \<open>
  A key of an object is turned into a JSON string and read back as a string, as the code does.
\<close>

definition visit_key :: "(string \<Rightarrow> 's \<Rightarrow> bool \<times> 's) \<Rightarrow> string \<times> json \<Rightarrow> 's \<Rightarrow> bool \<times> 's" where
  "visit_key visitor elt s =
     (case JsonValueAs_string (JString (fst elt)) of
        (v, d) \<Rightarrow> if d \<noteq> OK then (False, s) else visitor (the v) s)"

definition JsonObjectIterate :: "json \<Rightarrow> string \<Rightarrow> (string \<Rightarrow> 's \<Rightarrow> bool \<times> 's) \<Rightarrow> 's \<Rightarrow> bool \<times> 's" where
  "JsonObjectIterate j field visitor s =
     (case json_find j field of
        None \<Rightarrow> (True, s)
      | Some (JObject kvs) \<Rightarrow> visit_all (visit_key visitor) kvs s
      | Some _ \<Rightarrow> (False, s))"

text \<open>
  The variant over a value itself. \<open>j.items()\<close> of the JSON library gives the pairs of an object, the
  elements of an array under their positions, and any other value but null under the empty key.
\<close>

definition json_items :: "json \<Rightarrow> (string \<times> json) list" where
  "json_items j = (case j of
      JObject kvs \<Rightarrow> kvs
    | JArray elts \<Rightarrow> map (\<lambda>(i, e). (to_string i, e)) (enumerate 0 elts)
    | JNull \<Rightarrow> []
    | _ \<Rightarrow> [('''', j)])"

definition JsonObjectIterate_items :: "json \<Rightarrow> (string \<Rightarrow> 's \<Rightarrow> bool \<times> 's) \<Rightarrow> 's \<Rightarrow> bool \<times> 's" where
  "JsonObjectIterate_items j visitor s = visit_all (visit_key visitor) (json_items j) s"

lemma JsonObjectIterate_field:
  "json_find j field = Some v \<Longrightarrow> is_object v \<Longrightarrow>
   JsonObjectIterate j field visitor s = JsonObjectIterate_items v visitor s"
  by (cases v) (simp_all add: JsonObjectIterate_def JsonObjectIterate_items_def json_items_def)

section \<open>The contract of typed access\<close>

text \<open>
  The clients test the detail for \<open>OK\<close> and then take the value. That is safe where \<open>OK\<close> is returned
  exactly with a value, which the locale states once for all instances.
\<close>

locale json_value_as =
  fixes value_as :: "json \<Rightarrow> 'a option \<times> JsonParserResultDetail"
  assumes ok_iff_value: "snd (value_as j) = OK \<longleftrightarrow> fst (value_as j) \<noteq> None"
begin

lemma ok_value: "value_as j = (v, OK) \<Longrightarrow> \<exists>x. v = Some x"
  using ok_iff_value [of j] by auto

lemma get_field_ok:
  "fst (JsonGetField value_as j field) = OK \<longleftrightarrow>
     (\<exists>v x. json_find j field = Some v \<and> value_as v = (Some x, OK))"
  using ok_iff_value by (auto simp: JsonGetField_def prod_eq_iff split: option.splits)

text \<open>\<open>value_or\<close> never returns an unset \<open>object_\<close>.\<close>

lemma value_or_set:
  "value_or (JsonGetField value_as j field) unset v = value_or (JsonGetField value_as j field) unset' v"
  using ok_iff_value by (auto simp: value_or_def JsonGetField_def split: option.splits)

end

interpretation as_string: json_value_as JsonValueAs_string
  by unfold_locales (simp add: JsonValueAs_string_def split: json.split)

interpretation as_string_view: json_value_as JsonValueAs_string_view
  by unfold_locales (simp add: JsonValueAs_string_view_def split: json.split)

interpretation as_bool: json_value_as JsonValueAs_bool
  by unfold_locales (auto simp: JsonValueAs_bool_def split: json.split)

interpretation as_uint64: json_value_as "JsonValueAs_uint64 L" for L
  by unfold_locales (simp add: JsonValueAs_uint64_def split: json.split option.split)

interpretation as_int64: json_value_as "JsonValueAs_int64 L" for L
  by unfold_locales (simp add: JsonValueAs_int64_def split: json.split option.split)

interpretation as_object: json_value_as JsonValueAs_object
  by unfold_locales (simp add: JsonValueAs_object_def)

lemma strings_loop_eq:
  "strings_loop elts (v, OK) =
     (if \<forall>e \<in> set elts. \<exists>s. e = JString s
      then (if elts = [] then v else Some (case_option [] id v @ map (\<lambda>e. case e of JString s \<Rightarrow> s) elts), OK)
      else (None, TYPE_ERROR))"
proof (induction elts arbitrary: v)
  case (Cons e elts)
  then show ?case by (cases e) auto
qed simp

section \<open>Lemmas on iteration\<close>

lemma visit_all_True:
  "visit_all visitor (x # xs) s = (True, t) \<longleftrightarrow>
     (\<exists>u. visitor x s = (True, u) \<and> visit_all visitor xs u = (True, t))"
  by (auto split: prod.splits)

lemma visit_all_map:
  assumes "\<And>x s. x \<in> set xs \<Longrightarrow> visitor x s = (True, f x s)"
  shows "visit_all visitor xs s = (True, fold f xs s)"
  using assms by (induction xs arbitrary: s) auto

text \<open>A visitor that parses each element on its own and appends it to a list.\<close>

lemma visit_all_append:
  assumes "\<And>x acc. visitor x acc = (case parse x of None \<Rightarrow> (False, acc) | Some y \<Rightarrow> (True, acc @ [y]))"
  shows "visit_all visitor xs acc = (True, acc') \<longleftrightarrow>
    (list_all (\<lambda>x. parse x \<noteq> None) xs \<and> acc' = acc @ map (the \<circ> parse) xs)"
  by (induction xs arbitrary: acc) (auto simp: assms split: option.splits)

locale json_visitor =
  fixes visitor :: "json \<Rightarrow> 's \<Rightarrow> bool \<times> 's" and inv :: "'s \<Rightarrow> bool"
  assumes visitor_inv: "inv s \<Longrightarrow> visitor j s = (ok, s') \<Longrightarrow> inv s'"
begin

lemma visit_all_inv: "inv s \<Longrightarrow> visit_all visitor elts s = (ok, s') \<Longrightarrow> inv s'"
  by (induction elts arbitrary: s) (auto split: prod.splits if_splits dest: visitor_inv)

lemma JsonArrayIterate_inv: "inv s \<Longrightarrow> JsonArrayIterate j field visitor s = (ok, s') \<Longrightarrow> inv s'"
  by (auto simp: JsonArrayIterate_def split: option.splits json.splits dest: visit_all_inv)

end

text \<open>A string-valued element, as the visitors of the extensions parse it.\<close>

fun string_of_json :: "json \<Rightarrow> string option" where
  "string_of_json (JString s) = Some s"
| "string_of_json _ = None"

lemma JsonValueAs_string_eq:
  "JsonValueAs_string j = (case string_of_json j of Some s \<Rightarrow> (Some s, OK) | None \<Rightarrow> (None, TYPE_ERROR))"
  by (cases j) (auto simp: JsonValueAs_string_def)

text \<open>The elements of an optional array field: \<open>None\<close> when the field is there but is no array.\<close>

definition array_field :: "json \<Rightarrow> string \<Rightarrow> json list option" where
  "array_field j field =
     (case json_find j field of None \<Rightarrow> Some [] | Some (JArray elts) \<Rightarrow> Some elts | Some _ \<Rightarrow> None)"

lemma JsonArrayIterate_eq:
  "JsonArrayIterate j field visitor s =
     (case array_field j field of None \<Rightarrow> (False, s) | Some elts \<Rightarrow> visit_all visitor elts s)"
  by (simp add: JsonArrayIterate_def array_field_def split: option.split json.split)

text \<open>
  Whatever instance of \<open>JsonGetField\<close> the extensions use (string, string view, bool, signed and
  unsigned integer), \<open>value_or\<close> returns a value that was really read from the field, or the
  default: never the unset \<open>object_\<close> member.
\<close>

lemma JsonGetField_value_or_set:
  "value_or (JsonGetField JsonValueAs_string j f) u v = value_or (JsonGetField JsonValueAs_string j f) u' v \<and>
   value_or (JsonGetField JsonValueAs_string_view j f) u v = value_or (JsonGetField JsonValueAs_string_view j f) u' v \<and>
   value_or (JsonGetField JsonValueAs_bool j f) b c = value_or (JsonGetField JsonValueAs_bool j f) b' c \<and>
   value_or (JsonGetField (JsonValueAs_uint64 L) j f) x y = value_or (JsonGetField (JsonValueAs_uint64 L) j f) x' y \<and>
   value_or (JsonGetField (JsonValueAs_int64 L) j f) x y = value_or (JsonGetField (JsonValueAs_int64 L) j f) x' y"
  by (intro conjI as_string.value_or_set as_string_view.value_or_set as_bool.value_or_set
      as_uint64.value_or_set as_int64.value_or_set)

text \<open>
  The list-of-strings instance breaks that contract: for an empty array it reports \<open>OK\<close> without
  a value, so a client that tests the detail and then takes the value would fail.
\<close>

lemma JsonValueAs_strings_empty_array:
  "JsonValueAs_strings (JArray elts) = (None, OK) \<longleftrightarrow> elts = []"
  by (auto simp: JsonValueAs_strings_def strings_loop_eq split: if_splits)

text \<open>
  \<open>JsonValueAs<uint64_t>\<close> accepts negative numbers: the integer \<open>-n\<close> is read as \<open>2 ^ 64 - n\<close>.
\<close>

lemma JsonValueAs_uint64_negative:
  assumes "0 < n" "n \<le> 2 ^ 63"
  shows "JsonValueAs_uint64 L (JNumber (NInteger (- of_nat n))) = (Some (of_nat (2 ^ 64 - n)), OK)"
proof -
  from assms have "(2 :: nat) ^ 64 - n + n = 2 ^ 64" by simp
  then have "(of_nat (2 ^ 64 - n) :: u64) + of_nat n = of_nat (2 ^ 64)"
    by (metis of_nat_add)
  also have "(of_nat (2 ^ 64) :: u64) = 0" by simp
  finally have "(- of_nat n :: u64) = of_nat (2 ^ 64 - n)"
    by (simp add: eq_neg_iff_add_eq_0 [symmetric])
  then show ?thesis by (simp add: JsonValueAs_uint64_def)
qed

end
