(* ===== verification/Response_Flags.thy ===== *)
theory Response_Flags
  imports Prelude
begin

text \<open>
  \<open>parseResponseFlag\<close> of \<open>extensions/common/util.cc\<close>: the response flags of Envoy, one bit each,
  rendered as a comma-separated list of short names.
\<close>

text \<open>The enumerators of \<open>ResponseFlag\<close> with the names the function appends, in its order.\<close>

definition response_flags :: "(u64 \<times> string) list" where
  "response_flags =
    [(0x1, ''LH''),       \<comment> \<open>FailedLocalHealthCheck\<close>
     (0x2, ''UH''),       \<comment> \<open>NoHealthyUpstream\<close>
     (0x4, ''UT''),       \<comment> \<open>UpstreamRequestTimeout\<close>
     (0x8, ''LR''),       \<comment> \<open>LocalReset\<close>
     (0x10, ''UR''),      \<comment> \<open>UpstreamRemoteReset\<close>
     (0x20, ''UF''),      \<comment> \<open>UpstreamConnectionFailure\<close>
     (0x40, ''UC''),      \<comment> \<open>UpstreamConnectionTermination\<close>
     (0x80, ''UO''),      \<comment> \<open>UpstreamOverflow\<close>
     (0x100, ''NR''),     \<comment> \<open>NoRouteFound\<close>
     (0x200, ''DI''),     \<comment> \<open>DelayInjected\<close>
     (0x400, ''FI''),     \<comment> \<open>FaultInjected\<close>
     (0x800, ''RL''),     \<comment> \<open>RateLimited\<close>
     (0x1000, ''UAEX''),  \<comment> \<open>UnauthorizedExternalService\<close>
     (0x2000, ''RLSE''),  \<comment> \<open>RateLimitServiceError\<close>
     (0x4000, ''DC''),    \<comment> \<open>DownstreamConnectionTermination\<close>
     (0x8000, ''URX''),   \<comment> \<open>UpstreamRetryLimitExceeded\<close>
     (0x10000, ''SI''),   \<comment> \<open>StreamIdleTimeout\<close>
     (0x20000, ''IH''),   \<comment> \<open>InvalidEnvoyRequestHeaders\<close>
     (0x40000, ''DPE''),  \<comment> \<open>DownstreamProtocolError\<close>
     (0x80000, ''UMSDR''), \<comment> \<open>UpstreamMaxStreamDurationReached\<close>
     (0x100000, ''RFCF''), \<comment> \<open>ResponseFromCacheFilter\<close>
     (0x200000, ''NFCF''), \<comment> \<open>NoFilterConfigFound\<close>
     (0x400000, ''DT''),  \<comment> \<open>DurationTimeout\<close>
     (0x800000, ''UPE''), \<comment> \<open>UpstreamProtocolError\<close>
     (0x1000000, ''NC''), \<comment> \<open>NoClusterFound\<close>
     (0x2000000, ''OM''), \<comment> \<open>OverloadManager\<close>
     (0x4000000, ''DF'')]" \<comment> \<open>DnsResolutionFailed\<close>

definition LastFlag :: u64 where
  "LastFlag = 0x4000000"

definition appendString :: "string \<Rightarrow> string \<Rightarrow> string" where
  "appendString result piece = (if result = '''' then piece else result @ '','' @ piece)"

definition parseResponseFlag :: "u64 \<Rightarrow> string" where
  "parseResponseFlag response_flag =
     (let result = foldl (\<lambda>result (flag, name).
            if response_flag AND flag \<noteq> 0 then appendString result name else result)
            '''' response_flags;
          result = (if push_bit 1 LastFlag \<le> response_flag
                    then appendString result (to_string (unat response_flag)) else result)
      in if result = '''' then ''-'' else result)"

section \<open>What the string says\<close>

text \<open>The pieces the string is made of: the names of the flags that are set, then the number
  when it has bits beyond the known flags.\<close>

definition flag_pieces :: "u64 \<Rightarrow> string list" where
  "flag_pieces f =
     map snd (filter (\<lambda>(flag, name). f AND flag \<noteq> 0) response_flags) @
     (if push_bit 1 LastFlag \<le> f then [to_string (unat f)] else [])"

lemma appendString_join:
  "[] \<notin> set ps \<Longrightarrow> p \<noteq> [] \<Longrightarrow> appendString (join_with (CHR '','') ps) p = join_with (CHR '','') (ps @ [p])"
  by (auto simp: appendString_def join_with_eq_Nil join_with_snoc)

lemma fold_appendString:
  assumes "[] \<notin> set ps" "[] \<notin> snd ` set fs"
  shows "foldl (\<lambda>r (flag, name). if P flag then appendString r name else r) (join_with (CHR '','') ps) fs =
    join_with (CHR '','') (ps @ map snd (filter (\<lambda>(flag, name). P flag) fs))"
  using assms
proof (induction fs arbitrary: ps)
  case (Cons x fs)
  obtain flag name where x: "x = (flag, name)" by (cases x)
  with Cons.prems have "name \<noteq> []" by auto
  with Cons.prems Cons.IH [of "ps @ [name]"] Cons.IH [of ps] show ?case
    by (auto simp: x appendString_join)
qed simp

lemma response_flags_names: "\<forall>(flag, name) \<in> set response_flags. name \<noteq> [] \<and> CHR '','' \<notin> set name \<and> name \<noteq> ''-''"
  by (simp add: response_flags_def)

lemma flag_pieces_ok: "p \<in> set (flag_pieces f) \<Longrightarrow> p \<noteq> [] \<and> CHR '','' \<notin> set p"
proof -
  have "CHR '','' \<notin> set (to_string n)" for n
    using to_string_digits [of "CHR '',''" n] by auto
  then show "p \<in> set (flag_pieces f) \<Longrightarrow> p \<noteq> [] \<and> CHR '','' \<notin> set p"
    using response_flags_names by (auto simp: flag_pieces_def split: if_splits)
qed

lemma parseResponseFlag_eq:
  "parseResponseFlag f = (if flag_pieces f = [] then ''-'' else join_with (CHR '','') (flag_pieces f))"
proof -
  let ?names = "map snd (filter (\<lambda>(flag, name). f AND flag \<noteq> 0) response_flags)"
  have ne: "[] \<notin> set ?names" "[] \<notin> snd ` set response_flags"
    using response_flags_names by auto
  have 1: "foldl (\<lambda>r (flag, name). if f AND flag \<noteq> 0 then appendString r name else r) '''' response_flags =
    join_with (CHR '','') ?names"
    using fold_appendString [of "[]" response_flags "\<lambda>flag. f AND flag \<noteq> 0"] ne by simp
  have 2: "(if push_bit 1 LastFlag \<le> f then appendString (join_with (CHR '','') ?names) (to_string (unat f))
      else join_with (CHR '','') ?names) = join_with (CHR '','') (flag_pieces f)"
    using ne by (simp add: flag_pieces_def appendString_join)
  have 3: "[] \<notin> set (flag_pieces f)" using flag_pieces_ok by blast
  show ?thesis
    unfolding parseResponseFlag_def Let_def 1 2 by (simp add: join_with_eq_Nil [OF 3])
qed

lemma response_flags_bits: "map fst response_flags = map (\<lambda>k. 2 ^ k) [0..<27]"
  by (simp add: response_flags_def upt_rec)

lemma response_flags_distinct: "distinct (map snd response_flags)"
  by (simp add: response_flags_def)

lemma name_not_number: "(flag, name) \<in> set response_flags \<Longrightarrow> name \<noteq> to_string n"
proof -
  assume "(flag, name) \<in> set response_flags"
  then have "\<exists>c \<in> set name. 58 \<le> (of_char c :: nat)"
    by (auto simp: response_flags_def)
  then show "name \<noteq> to_string n" using to_string_digits by fastforce
qed

lemma response_flags_unique:
  assumes "(flag, name) \<in> set response_flags" "(flag', name) \<in> set response_flags"
  shows "flag' = flag"
proof -
  have "inj_on snd (set response_flags)"
    using response_flags_distinct by (simp add: distinct_map)
  from inj_onD [OF this _ assms(2,1)] show ?thesis by simp
qed

lemma flag_pieces_name:
  assumes "(flag, name) \<in> set response_flags"
  shows "name \<in> set (flag_pieces f) \<longleftrightarrow> f AND flag \<noteq> 0"
proof -
  have "name \<in> set (flag_pieces f) \<longleftrightarrow>
    name \<in> snd ` set (filter (\<lambda>(flag, name). f AND flag \<noteq> 0) response_flags)"
    using name_not_number [OF assms] by (simp add: flag_pieces_def)
  also have "\<dots> \<longleftrightarrow> (\<exists>flag'. (flag', name) \<in> set response_flags \<and> f AND flag' \<noteq> 0)"
    by force
  finally show ?thesis using response_flags_unique [OF assms] assms by blast
qed

lemma flag_pieces_bit:
  assumes "k < 27"
  shows "\<exists>name. \<forall>f. name \<in> set (flag_pieces f) \<longleftrightarrow> bit f k"
proof -
  from assms have "2 ^ k \<in> set (map fst response_flags)"
    by (simp add: response_flags_bits)
  then obtain name where "(2 ^ k, name) \<in> set response_flags" by auto
  from flag_pieces_name [OF this] show ?thesis
    by (auto simp: and_exp_eq_0_iff_not_bit)
qed

lemma flag_pieces_number:
  "to_string n \<in> set (flag_pieces f) \<longleftrightarrow> 2 ^ 27 \<le> f \<and> n = unat f"
  using name_not_number by (fastforce simp: flag_pieces_def LastFlag_def)

lemma flag_pieces_inject:
  assumes eq: "flag_pieces f = flag_pieces g"
  shows "f = g"
proof (cases "2 ^ 27 \<le> f \<or> 2 ^ 27 \<le> g")
  case True
  with eq have "unat f = unat g"
    using flag_pieces_number [of "unat f" f] flag_pieces_number [of "unat f" g]
      flag_pieces_number [of "unat g" f] flag_pieces_number [of "unat g" g] by auto
  then show ?thesis by (rule unsigned_word_eqI)
next
  case False
  have low: "\<not> bit h k" if "h < 2 ^ 27" "27 \<le> k" for h :: u64 and k
  proof -
    from that(1) have "unat h < 2 ^ 27" by (simp add: word_less_nat_alt)
    also have "(2 ^ 27 :: nat) \<le> 2 ^ k" using that(2) by (rule power_increasing) simp
    finally have "unat h div 2 ^ k = 0" by simp
    then have "\<not> bit (unat h) k" by (simp add: bit_iff_odd)
    then show ?thesis by (auto simp: bit_unsigned_iff dest: bit_imp_le_length)
  qed
  show ?thesis
  proof (rule bit_word_eqI)
    fix k
    show "bit f k = bit g k"
    proof (cases "k < 27")
      case True
      then obtain name where "\<forall>h. name \<in> set (flag_pieces h) \<longleftrightarrow> bit h k"
        using flag_pieces_bit by blast
      with eq show ?thesis by metis
    next
      case F: False
      with False show ?thesis using low [of f k] low [of g k] by (simp add: not_le)
    qed
  qed
qed

lemma flag_pieces_not_dash: "flag_pieces f \<noteq> [''-'']"
proof
  assume "flag_pieces f = [''-'']"
  then have "''-'' \<in> set (flag_pieces f)" by simp
  moreover have "''-'' \<noteq> to_string n" for n
  proof
    assume "''-'' = to_string n"
    then have "CHR ''-'' \<in> set (to_string n)" by (simp flip: \<open>''-'' = to_string n\<close>)
    with to_string_digits [OF this] show False by simp
  qed
  ultimately show False
    using response_flags_names by (auto simp: flag_pieces_def split: if_splits)
qed

text \<open>
  C36: \<open>parseResponseFlag\<close> loses no information: different flag words, also those with bits beyond
  the known flags, have different strings.
\<close>

theorem parseResponseFlag_inj: "inj parseResponseFlag"
proof (rule injI)
  fix f g :: u64
  assume eq: "parseResponseFlag f = parseResponseFlag g"
  have split: "StrSplit (parseResponseFlag h) (CHR '','') = (if flag_pieces h = [] then [''-''] else flag_pieces h)"
    for h using flag_pieces_ok [of _ h] by (auto simp: parseResponseFlag_eq intro!: StrSplit_join_with)
  from split [of f] split [of g] eq have "flag_pieces f = flag_pieces g"
    using flag_pieces_not_dash by (metis list.discI)
  then show "f = g" by (rule flag_pieces_inject)
qed

text \<open>
  Splitting the string at its commas gives exactly the short names of the flags that are set,
  in the order of the flag bits, then the decimal number when it has unknown bits; with no flag set
  the string is a dash.
\<close>

lemma parseResponseFlag_split:
  "StrSplit (parseResponseFlag f) (CHR '','') =
     (let names = map snd (filter (\<lambda>(flag, name). f AND flag \<noteq> 0) response_flags)
      in if f = 0 then [''-'']
         else if f < 2 ^ 27 then names else names @ [to_string (unat f)])"
proof -
  have "flag_pieces f = [] \<longleftrightarrow> f = 0"
    using flag_pieces_inject [of f 0] by (auto simp: flag_pieces_def LastFlag_def)
  then have "StrSplit (parseResponseFlag f) (CHR '','') = (if f = 0 then [''-''] else flag_pieces f)"
    using flag_pieces_ok [of _ f] by (auto simp: parseResponseFlag_eq intro!: StrSplit_join_with)
  then show ?thesis by (simp add: flag_pieces_def LastFlag_def not_le Let_def)
qed

end
