(* ===== verification/Basic_Auth.thy ===== *)
theory Basic_Auth
  imports Base64 Json_Util Proxy_Host
begin

text \<open>
  The basic-auth extension (\<open>extensions/basic_auth/plugin.{h,cc}\<close>): the rules a configuration is
  parsed into, and the check of a request against them.

  A rule is default-initialised before its fields are filled in, which leaves \<open>path_pattern\<close>
  indeterminate; when the single path field of the configuration is an empty string, the code
  never assigns it. The argument \<open>garbage\<close> is the value such a field happens to hold: one of the
  enumerators, or \<open>None\<close> for any other bit pattern.
\<close>

section \<open>Rules and configuration\<close>

datatype MATCH_TYPE = Prefix | Exact | Suffix

record BasicAuthConfigRule =
  request_path :: string
  path_pattern :: "MATCH_TYPE option"
  hosts :: "(MATCH_TYPE \<times> string) list"
  encoded_credentials :: "string set"

type_synonym rule_table = "string \<rightharpoonup> BasicAuthConfigRule list"

record basic_auth_root =
  basic_auth_configuration :: rule_table
  realm :: string

definition initial_root :: basic_auth_root where
  "initial_root = \<lparr>basic_auth_configuration = Map.empty, realm = ''istio''\<rparr>"

text \<open>One of the fields \<open>prefix\<close>, \<open>exact\<close> and \<open>suffix\<close>: what it adds to \<open>count\<close> and its value;
  \<open>None\<close> when it is present and no string.\<close>

definition path_field :: "json \<Rightarrow> string \<Rightarrow> (nat \<times> string) option" where
  "path_field configuration field =
     (case json_find configuration field of
        None \<Rightarrow> Some (0, '''')
      | Some v \<Rightarrow>
          (case JsonValueAs_string v of (r, d) \<Rightarrow>
             if d \<noteq> OK \<or> r = None then None else Some (1, the r)))"

definition host_pattern :: "string \<Rightarrow> MATCH_TYPE \<times> string" where
  "host_pattern host_str =
     (if StartsWith host_str ''*'' then (Suffix, drop 1 host_str)
      else if EndsWith host_str ''*'' then (Prefix, take (length host_str - 1) host_str)
      else (Exact, host_str))"

definition host_visitor :: "json \<Rightarrow> (MATCH_TYPE \<times> string) list \<Rightarrow> bool \<times> (MATCH_TYPE \<times> string) list" where
  "host_visitor host hs =
     (case JsonValueAs_string host of (r, d) \<Rightarrow>
        if d \<noteq> OK \<or> r = None then (False, hs) else (True, hs @ [host_pattern (the r)]))"

definition method_visitor :: "json \<Rightarrow> string list \<Rightarrow> bool \<times> string list" where
  "method_visitor method request_methods =
     (case JsonValueAs_string method of (r, d) \<Rightarrow>
        if d \<noteq> OK then (False, request_methods) else (True, request_methods @ [the r]))"

text \<open>\<open>Base64::decodeWithoutPadding(s).empty()\<close>; the decoder has no undefined outcome
  (\<open>decodeWithoutPadding_defined\<close>).\<close>

definition decoded_empty :: "string \<Rightarrow> bool" where
  "decoded_empty s = (case decodeWithoutPadding s of Inr r \<Rightarrow> r = '''' | Inl _ \<Rightarrow> True)"

definition credential_visitor :: "json \<Rightarrow> string set \<Rightarrow> bool \<times> string set" where
  "credential_visitor credentials creds =
     (case JsonValueAs_string credentials of (r, d) \<Rightarrow>
        if d \<noteq> OK then (False, creds)
        else if StrContains (the r) '':'' then (True, insert (encode (the r) True) creds)
        else if \<not> decoded_empty (the r) then (True, insert (the r) creds)
        else (False, creds))"

text \<open>\<open>(*rules)[method].push_back(rule)\<close>\<close>

definition push_rule :: "BasicAuthConfigRule \<Rightarrow> string \<Rightarrow> rule_table \<Rightarrow> rule_table" where
  "push_rule rule method rules =
     rules(method \<mapsto> (case rules method of None \<Rightarrow> [] | Some rs \<Rightarrow> rs) @ [rule])"

definition select_pattern :: "MATCH_TYPE option \<Rightarrow> string \<Rightarrow> string \<Rightarrow> string \<Rightarrow> MATCH_TYPE option \<times> string" where
  "select_pattern garbage prefix_str exact_str suffix_str =
     (if prefix_str \<noteq> '''' then (Some Prefix, prefix_str)
      else if exact_str \<noteq> '''' then (Some Exact, exact_str)
      else if suffix_str \<noteq> '''' then (Some Suffix, suffix_str)
      else (garbage, ''''))"

text \<open>The three path fields and the test that exactly one of them is present.\<close>

definition path_strings :: "json \<Rightarrow> (string \<times> string \<times> string) option" where
  "path_strings configuration =
     (case path_field configuration ''prefix'' of None \<Rightarrow> None | Some (n1, prefix_str) \<Rightarrow>
      case path_field configuration ''exact'' of None \<Rightarrow> None | Some (n2, exact_str) \<Rightarrow>
      case path_field configuration ''suffix'' of None \<Rightarrow> None | Some (n3, suffix_str) \<Rightarrow>
      if n1 + n2 + n3 \<noteq> 1 then None else Some (prefix_str, exact_str, suffix_str))"

definition extractBasicAuthRule ::
  "MATCH_TYPE option \<Rightarrow> json \<Rightarrow> rule_table \<Rightarrow> bool \<times> rule_table" where
  "extractBasicAuthRule garbage configuration rules =
     (case path_strings configuration of None \<Rightarrow> (False, rules)
      | Some (prefix_str, exact_str, suffix_str) \<Rightarrow>
      case JsonArrayIterate configuration ''hosts'' host_visitor [] of (ok, hs) \<Rightarrow>
      if \<not> ok then (False, rules)
      else case JsonArrayIterate configuration ''request_methods'' method_visitor [] of (ok, ms) \<Rightarrow>
      if \<not> ok then (False, rules)
      else if ms = [] then (False, rules)
      else case JsonArrayIterate configuration ''credentials'' credential_visitor {} of (ok, creds) \<Rightarrow>
      if \<not> ok then (False, rules)
      else if creds = {} then (False, rules)
      else let (pattern, path) = select_pattern garbage prefix_str exact_str suffix_str;
               rule = \<lparr>request_path = path, path_pattern = pattern, hosts = hs,
                       encoded_credentials = creds\<rparr>
           in (True, fold (push_rule rule) ms rules))"

section \<open>Checking a request\<close>

text \<open>The host of a request without its port, as \<open>hostMatch\<close> computes it.\<close>

definition strip_port :: "string \<Rightarrow> string" where
  "strip_port request_host =
     (case rfind request_host (CHR '':'') of
        None \<Rightarrow> request_host
      | Some port_start \<Rightarrow>
          (case rfind request_host (CHR '']'') of
             None \<Rightarrow>
               if port_start + 1 \<le> length request_host then take port_start request_host else request_host
           | Some v6_end_index \<Rightarrow>
               if v6_end_index < port_start \<and> port_start + 1 \<le> length request_host
               then take port_start request_host else request_host))"

fun match_host :: "string \<Rightarrow> MATCH_TYPE \<times> string \<Rightarrow> bool" where
  "match_host request_host (Suffix, h) = EndsWith request_host h"
| "match_host request_host (Prefix, h) = StartsWith request_host h"
| "match_host request_host (Exact, h) = (request_host = h)"

definition hostMatch :: "BasicAuthConfigRule \<Rightarrow> string \<Rightarrow> bool" where
  "hostMatch rule request_host =
     (if hosts rule = [] then True
      else list_ex (match_host (strip_port request_host)) (hosts rule))"

definition deniedNoBasicAuthData :: "string \<Rightarrow> host_action" where
  "deniedNoBasicAuthData rlm =
     SendLocalResponse 401
       ''Request denied by Basic Auth check. No Basic Authentication information found.'' ''''
       [(''WWW-Authenticate'', ''Basic realm='' @ rlm)]"

definition deniedInvalidCredentials :: "string \<Rightarrow> host_action" where
  "deniedInvalidCredentials rlm =
     SendLocalResponse 401
       ''Request denied by Basic Auth check. Invalid username and/or password'' ''''
       [(''WWW-Authenticate'', ''Basic realm='' @ rlm)]"

definition credentialsCheck ::
  "string \<Rightarrow> BasicAuthConfigRule \<Rightarrow> string \<Rightarrow> FilterHeadersStatus \<times> host_action list" where
  "credentialsCheck rlm rule authorization_header =
     (if \<not> StartsWith authorization_header ''Basic '' then
        (StopIteration, [deniedNoBasicAuthData rlm])
      else if StripPrefix authorization_header ''Basic '' \<notin> encoded_credentials rule then
        (StopIteration, [deniedInvalidCredentials rlm])
      else (Continue, []))"

definition path_matches :: "BasicAuthConfigRule \<Rightarrow> string \<Rightarrow> bool" where
  "path_matches rule path =
     (case path_pattern rule of
        Some Prefix \<Rightarrow> StartsWith path (request_path rule)
      | Some Exact \<Rightarrow> request_path rule = path
      | Some Suffix \<Rightarrow> EndsWith path (request_path rule)
      | None \<Rightarrow> False)"

text \<open>The loop of \<open>check\<close> over the rules of the method.\<close>

fun check_rules ::
  "string \<Rightarrow> string \<Rightarrow> string \<Rightarrow> string \<Rightarrow> BasicAuthConfigRule list \<Rightarrow> FilterHeadersStatus \<Rightarrow>
     FilterHeadersStatus \<times> host_action list" where
  "check_rules rlm request_host path authorization [] header_status = (Continue, [])"
| "check_rules rlm request_host path authorization (rule # rules) header_status =
     (if \<not> hostMatch rule request_host
      then check_rules rlm request_host path authorization rules header_status
      else let (header_status, acts) =
                 (if path_matches rule path then credentialsCheck rlm rule authorization
                  else (header_status, []))
           in if header_status = StopIteration then (StopIteration, acts)
              else let (result, acts') =
                         check_rules rlm request_host path authorization rules header_status
                   in (result, acts @ acts'))"

text \<open>\<open>header\<close> gives the value of a request header, empty when it is missing.\<close>

definition check :: "basic_auth_root \<Rightarrow> (string \<Rightarrow> string) \<Rightarrow> FilterHeadersStatus \<times> host_action list" where
  "check root header =
     (case basic_auth_configuration root (header '':method'') of
        None \<Rightarrow> (Continue, [])
      | Some rules \<Rightarrow>
          check_rules (realm root) (header '':authority'') (header '':path'') (header ''authorization'')
            rules Continue)"

definition onRequestHeaders :: "basic_auth_root \<Rightarrow> (string \<Rightarrow> string) \<Rightarrow> FilterHeadersStatus \<times> host_action list" where
  "onRequestHeaders root header = check root header"

section \<open>Configuring\<close>

definition configure :: "json_lib \<Rightarrow> MATCH_TYPE option \<Rightarrow> string \<Rightarrow> basic_auth_root \<Rightarrow> bool \<times> basic_auth_root" where
  "configure L garbage configuration_data root =
     (case JsonParse L configuration_data of
        None \<Rightarrow> (False, root)
      | Some j \<Rightarrow>
          (case JsonArrayIterate j ''basic_auth_rules'' (extractBasicAuthRule garbage)
                  (basic_auth_configuration root) of
             (ok, rules) \<Rightarrow>
               let root = root\<lparr>basic_auth_configuration := rules\<rparr> in
               if \<not> ok then (False, root)
               else case json_find j ''realm'' of
                      None \<Rightarrow> (True, root)
                    | Some v \<Rightarrow>
                        (case JsonValueAs_string v of (r, d) \<Rightarrow>
                           if d \<noteq> OK then (False, root) else (True, root\<lparr>realm := the r\<rparr>))))"

definition onConfigure :: "json_lib \<Rightarrow> MATCH_TYPE option \<Rightarrow> string \<Rightarrow> basic_auth_root \<Rightarrow> bool \<times> basic_auth_root" where
  "onConfigure L garbage configuration_data root =
     (if length configuration_data > 0 then configure L garbage configuration_data root
      else (True, root))"

section \<open>What a configuration must look like\<close>

text \<open>How a configured credential is stored: \<open>None\<close> when it is rejected.\<close>

definition credential_key :: "string \<Rightarrow> string option" where
  "credential_key s =
     (if CHR '':'' \<in> set s then Some (encode s True)
      else if decodeWithoutPadding s = Inr '''' then None else Some s)"

lemma decoded_empty_iff: "decoded_empty s \<longleftrightarrow> decodeWithoutPadding s = Inr ''''"
  using decodeWithoutPadding_defined [of s] by (auto simp: decoded_empty_def)

lemma credential_visitor_eq:
  "credential_visitor j creds =
     (case Option.bind (string_of_json j) credential_key of
        None \<Rightarrow> (False, creds) | Some k \<Rightarrow> (True, insert k creds))"
  by (cases j) (auto simp: credential_visitor_def credential_key_def JsonValueAs_string_def
      decoded_empty_iff string_simps)

lemma visit_credentials:
  "visit_all credential_visitor js creds = (True, creds') \<longleftrightarrow>
     (list_all (\<lambda>j. string_of_json j \<noteq> None) js \<and>
      (\<forall>c \<in> set (map (the \<circ> string_of_json) js). credential_key c \<noteq> None) \<and>
      creds' = creds \<union> (the \<circ> credential_key) ` set (map (the \<circ> string_of_json) js))"
proof (induction js arbitrary: creds)
  case (Cons j js)
  show ?case
  proof (cases "string_of_json j")
    case (Some c)
    then show ?thesis
      by (cases "credential_key c") (auto simp: Cons.IH credential_visitor_eq [of j])
  qed (simp add: credential_visitor_eq)
qed auto

lemma visit_hosts:
  "visit_all host_visitor js hs = (True, hs') \<longleftrightarrow>
     (list_all (\<lambda>j. string_of_json j \<noteq> None) js \<and> hs' = hs @ map (host_pattern \<circ> the \<circ> string_of_json) js)"
proof -
  have "host_visitor j acc =
      (case map_option host_pattern (string_of_json j) of None \<Rightarrow> (False, acc) | Some y \<Rightarrow> (True, acc @ [y]))"
    for j acc by (cases j) (simp_all add: host_visitor_def JsonValueAs_string_def)
  from visit_all_append [OF this, where xs = js and acc = hs and acc' = hs'] show ?thesis
    by (auto simp: list_all_iff option.map_sel)
qed

lemma visit_methods:
  "visit_all method_visitor js ms = (True, ms') \<longleftrightarrow>
     (list_all (\<lambda>j. string_of_json j \<noteq> None) js \<and> ms' = ms @ map (the \<circ> string_of_json) js)"
proof -
  have "method_visitor j acc =
      (case string_of_json j of None \<Rightarrow> (False, acc) | Some y \<Rightarrow> (True, acc @ [y]))"
    for j acc by (cases j) (simp_all add: method_visitor_def JsonValueAs_string_def)
  from visit_all_append [OF this] show ?thesis .
qed

text \<open>The strings of an optional array field.\<close>

definition string_array :: "json \<Rightarrow> string \<Rightarrow> string list option" where
  "string_array j field =
     (case array_field j field of
        None \<Rightarrow> None
      | Some js \<Rightarrow> if list_all (\<lambda>j. string_of_json j \<noteq> None) js
                  then Some (map (the \<circ> string_of_json) js) else None)"

text \<open>The reference reading of a rule: \<open>None\<close> when it is invalid.\<close>

definition path_fields :: "json \<Rightarrow> (MATCH_TYPE \<times> json) list" where
  "path_fields j =
     List.map_filter (\<lambda>(t, f). map_option (Pair t) (json_find j f))
       [(Prefix, ''prefix''), (Exact, ''exact''), (Suffix, ''suffix'')]"

definition read_rule :: "MATCH_TYPE option \<Rightarrow> json \<Rightarrow> (string list \<times> BasicAuthConfigRule) option" where
  "read_rule garbage j =
     (case (path_fields j, string_array j ''hosts'', string_array j ''request_methods'',
            string_array j ''credentials'') of
        ([(t, JString p)], Some hs, Some ms, Some cs) \<Rightarrow>
          if ms \<noteq> [] \<and> cs \<noteq> [] \<and> (\<forall>c \<in> set cs. credential_key c \<noteq> None)
          then Some (ms, \<lparr>request_path = p, path_pattern = (if p = '''' then garbage else Some t),
                          hosts = map host_pattern hs,
                          encoded_credentials = (the \<circ> credential_key) ` set cs\<rparr>)
          else None
      | _ \<Rightarrow> None)"

lemma iterate_hosts:
  "JsonArrayIterate j ''hosts'' host_visitor [] = (True, hs) \<longleftrightarrow>
     (\<exists>ss. string_array j ''hosts'' = Some ss \<and> hs = map host_pattern ss)"
  by (auto simp: JsonArrayIterate_eq string_array_def visit_hosts split: option.splits if_splits)

lemma iterate_methods:
  "JsonArrayIterate j ''request_methods'' method_visitor [] = (True, ms) \<longleftrightarrow>
     string_array j ''request_methods'' = Some ms"
  by (auto simp: JsonArrayIterate_eq string_array_def visit_methods split: option.splits)

lemma iterate_credentials:
  "JsonArrayIterate j ''credentials'' credential_visitor {} = (True, creds) \<longleftrightarrow>
     (\<exists>cs. string_array j ''credentials'' = Some cs \<and> (\<forall>c \<in> set cs. credential_key c \<noteq> None) \<and>
           creds = (the \<circ> credential_key) ` set cs)"
  by (auto simp: JsonArrayIterate_eq string_array_def visit_credentials split: option.splits)

lemma iterate_hosts_cases:
  obtains (rejected) hs where "string_array j ''hosts'' = None"
      "JsonArrayIterate j ''hosts'' host_visitor [] = (False, hs)"
    | (accepted) ss where "string_array j ''hosts'' = Some ss"
      "JsonArrayIterate j ''hosts'' host_visitor [] = (True, map host_pattern ss)"
  using iterate_hosts [of j] by (cases "JsonArrayIterate j ''hosts'' host_visitor []"; cases "string_array j ''hosts''") auto

lemma iterate_methods_cases:
  obtains (rejected) ms where "string_array j ''request_methods'' = None"
      "JsonArrayIterate j ''request_methods'' method_visitor [] = (False, ms)"
    | (accepted) ms where "string_array j ''request_methods'' = Some ms"
      "JsonArrayIterate j ''request_methods'' method_visitor [] = (True, ms)"
  using iterate_methods [of j]
  by (cases "JsonArrayIterate j ''request_methods'' method_visitor []"; cases "string_array j ''request_methods''") auto

lemma iterate_credentials_cases:
  obtains (rejected) creds where
      "\<And>cs. string_array j ''credentials'' = Some cs \<Longrightarrow> \<not> (\<forall>c \<in> set cs. credential_key c \<noteq> None)"
      "JsonArrayIterate j ''credentials'' credential_visitor {} = (False, creds)"
    | (accepted) cs where "string_array j ''credentials'' = Some cs" "\<forall>c \<in> set cs. credential_key c \<noteq> None"
      "JsonArrayIterate j ''credentials'' credential_visitor {} = (True, (the \<circ> credential_key) ` set cs)"
proof (cases "\<exists>cs. string_array j ''credentials'' = Some cs \<and> (\<forall>c \<in> set cs. credential_key c \<noteq> None)")
  case True
  then obtain cs where cs: "string_array j ''credentials'' = Some cs" "\<forall>c \<in> set cs. credential_key c \<noteq> None"
    by blast
  then have "JsonArrayIterate j ''credentials'' credential_visitor {} = (True, (the \<circ> credential_key) ` set cs)"
    by (subst iterate_credentials) blast
  with cs show ?thesis by (rule accepted)
next
  case False
  obtain ok creds where it: "JsonArrayIterate j ''credentials'' credential_visitor {} = (ok, creds)"
    by (meson surj_pair)
  have "\<not> ok"
  proof
    assume ok
    with it have "JsonArrayIterate j ''credentials'' credential_visitor {} = (True, creds)" by simp
    with False show False unfolding iterate_credentials by blast
  qed
  with it have "JsonArrayIterate j ''credentials'' credential_visitor {} = (False, creds)" by simp
  with _ show ?thesis by (rule rejected) (use False in blast)
qed

lemma path_field_eq:
  "path_field j f =
     (case json_find j f of None \<Rightarrow> Some (0, '''') | Some v \<Rightarrow> map_option (Pair 1) (string_of_json v))"
  by (auto simp: path_field_def JsonValueAs_string_eq split: option.split)

lemma path_strings_eq:
  "map_option (\<lambda>(p, e, s). select_pattern garbage p e s) (path_strings j) =
     (case path_fields j of
        [(t, JString p)] \<Rightarrow> Some (if p = '''' then garbage else Some t, p)
      | _ \<Rightarrow> None)"
  by (cases "json_find j ''prefix''"; cases "json_find j ''exact''"; cases "json_find j ''suffix''")
    (auto simp: path_strings_def path_field_eq path_fields_def map_filter_simps select_pattern_def
      split: option.split json.split)

lemma extract_eq:
  "extractBasicAuthRule garbage j rules =
     (case read_rule garbage j of
        None \<Rightarrow> (False, rules)
      | Some (ms, rule) \<Rightarrow> (True, fold (push_rule rule) ms rules))"
proof (cases "path_strings j")
  case None
  with path_strings_eq [of garbage j] show ?thesis
    by (auto simp: extractBasicAuthRule_def read_rule_def split: list.splits prod.splits json.splits)
next
  case (Some x)
  then obtain p e s t q where x: "x = (p, e, s)" and pf: "path_fields j = [(t, JString q)]"
    and sel: "select_pattern garbage p e s = (if q = '''' then garbage else Some t, q)"
    using path_strings_eq [of garbage j]
    by (cases x) (auto split: list.splits prod.splits json.splits)
  note unfold = extractBasicAuthRule_def read_rule_def Some x pf sel
  show ?thesis
    by (rule iterate_hosts_cases [of j]; rule iterate_methods_cases [of j];
        rule iterate_credentials_cases [of j]) (auto simp: unfold simp del: not_None_eq split: option.split)
qed

text \<open>
  C32: \<open>extractBasicAuthRule\<close> accepts a rule exactly when it has one of the fields \<open>prefix\<close>, \<open>exact\<close>,
  \<open>suffix\<close> and that is a string, its hosts (if any) are strings, and it lists at least one method
  and at least one usable credential; it then appends the rule it has read to every listed method,
  and leaves the table alone otherwise.
\<close>

theorem extractBasicAuthRule_correct:
  "extractBasicAuthRule garbage j rules =
     (case read_rule garbage j of
        None \<Rightarrow> (False, rules)
      | Some (ms, rule) \<Rightarrow> (True, fold (push_rule rule) ms rules))"
  by (rule extract_eq)

section \<open>What the check guarantees\<close>

definition applies :: "BasicAuthConfigRule \<Rightarrow> (string \<Rightarrow> string) \<Rightarrow> bool" where
  "applies rule header \<longleftrightarrow> hostMatch rule (header '':authority'') \<and> path_matches rule (header '':path'')"

definition authorized :: "BasicAuthConfigRule \<Rightarrow> string \<Rightarrow> bool" where
  "authorized rule authorization \<longleftrightarrow> (\<exists>c \<in> encoded_credentials rule. authorization = ''Basic '' @ c)"

definition rules_for :: "basic_auth_root \<Rightarrow> string \<Rightarrow> BasicAuthConfigRule list" where
  "rules_for st method = (case basic_auth_configuration st method of None \<Rightarrow> [] | Some rs \<Rightarrow> rs)"

definition denial :: "string \<Rightarrow> string \<Rightarrow> host_action" where
  "denial rlm authorization =
     (if StartsWith authorization ''Basic '' then deniedInvalidCredentials rlm else deniedNoBasicAuthData rlm)"

lemma credentialsCheck_eq:
  "credentialsCheck rlm rule authorization =
     (if authorized rule authorization then (Continue, []) else (StopIteration, [denial rlm authorization]))"
proof (cases "StartsWith authorization ''Basic ''")
  case True
  then obtain c where "authorization = ''Basic '' @ c" by (auto simp: string_simps prefix_def)
  then show ?thesis
    using True StripPrefix_append [of "''Basic ''" c] by (auto simp: credentialsCheck_def authorized_def denial_def)
next
  case False
  then show ?thesis
    by (auto simp: credentialsCheck_def authorized_def denial_def StartsWith_def)
qed

lemma check_rules_eq:
  "check_rules rlm (header '':authority'') (header '':path'') authorization rules Continue =
     (if \<exists>rule \<in> set rules. applies rule header \<and> \<not> authorized rule authorization
      then (StopIteration, [denial rlm authorization]) else (Continue, []))"
proof (induction rules)
  case (Cons rule rules)
  then show ?case by (auto simp: applies_def credentialsCheck_eq)
qed simp

lemma onRequestHeaders_eq:
  "onRequestHeaders st header =
     (if \<exists>rule \<in> set (rules_for st (header '':method'')). applies rule header \<and>
           \<not> authorized rule (header ''authorization'')
      then (StopIteration, [denial (realm st) (header ''authorization'')]) else (Continue, []))"
  by (auto simp: onRequestHeaders_def check_def rules_for_def check_rules_eq split: option.split)

text \<open>
  C1: a request is let through exactly when every rule of its method whose host and path patterns
  match it lists the credential that the request presents after \<open>Basic\<close> in its authorization header.
\<close>

theorem request_allowed_iff_authorized:
  "fst (onRequestHeaders st header) = Continue \<longleftrightarrow>
     (\<forall>rule \<in> set (rules_for st (header '':method'')).
        applies rule header \<longrightarrow> authorized rule (header ''authorization''))"
  by (auto simp: onRequestHeaders_eq)

theorem request_allowed_iff_authorized_witness:
  "let st = initial_root\<lparr>basic_auth_configuration := [''GET'' \<mapsto>
         [\<lparr>request_path = ''/api'', path_pattern = Some Prefix, hosts = [],
           encoded_credentials = {''b2s6dGVzdA==''}\<rparr>]]\<rparr>;
       header = (\<lambda>h. if h = '':method'' then ''GET'' else if h = '':path'' then ''/api/x''
                     else if h = ''authorization'' then ''Basic b2s6dGVzdA=='' else '''')
   in fst (onRequestHeaders st header) = Continue"
  using request_allowed_iff_authorized
    [of "initial_root\<lparr>basic_auth_configuration := [''GET'' \<mapsto>
         [\<lparr>request_path = ''/api'', path_pattern = Some Prefix, hosts = [],
           encoded_credentials = {''b2s6dGVzdA==''}\<rparr>]]\<rparr>"
      "\<lambda>h. if h = '':method'' then ''GET'' else if h = '':path'' then ''/api/x''
           else if h = ''authorization'' then ''Basic b2s6dGVzdA=='' else ''''"]
  by (simp add: rules_for_def applies_def authorized_def)

text \<open>
  A request that is stopped gets exactly one local response, a 401 that names the configured
  realm; a request that is let through gets none. The message says whether the authorization
  header was no basic-auth header at all or named an unknown credential.
\<close>

lemma denied_request_response:
  "snd (onRequestHeaders st header) =
     (if fst (onRequestHeaders st header) = StopIteration then
        [SendLocalResponse 401
           (if prefix ''Basic '' (header ''authorization'')
            then ''Request denied by Basic Auth check. Invalid username and/or password''
            else ''Request denied by Basic Auth check. No Basic Authentication information found.'')
           '''' [(''WWW-Authenticate'', ''Basic realm='' @ realm st)]]
      else [])"
  by (simp add: onRequestHeaders_eq denial_def deniedInvalidCredentials_def deniedNoBasicAuthData_def
      StartsWith_iff)

subsection \<open>Hosts\<close>

text \<open>
  The port of the request host is ignored: a port after the last colon is removed (also after a
  bracketed IPv6 address), while a host without a port and a bracketed IPv6 address without one
  are left alone.
\<close>

lemma strip_port_correct:
  "(\<forall>h port. CHR '':'' \<notin> set port \<and> CHR '']'' \<notin> set port \<longrightarrow> strip_port (h @ '':'' @ port) = h) \<and>
   (\<forall>h. CHR '':'' \<notin> set h \<longrightarrow> strip_port h = h) \<and>
   (\<forall>v6. strip_port (v6 @ '']'') = v6 @ '']'')"
proof (intro conjI allI impI)
  fix h port :: string
  assume "CHR '':'' \<notin> set port \<and> CHR '']'' \<notin> set port"
  then have "rfind ('':'' @ port) (CHR '':'') = Some 0" "CHR '']'' \<notin> set ('':'' @ port)"
    by (auto simp: string_simps split: option.splits)
  then have c: "rfind (h @ '':'' @ port) (CHR '':'') = Some (length h)"
    and b: "rfind (h @ '':'' @ port) (CHR '']'') = rfind h (CHR '']'')"
    using rfind_append_in [of "'':'' @ port" _ 0 h] rfind_append_not_in [of _ "'':'' @ port" h] by simp_all
  have "rfind h (CHR '']'') = Some i \<Longrightarrow> i < length h" for i
    by (rule rfind_less)
  with b c show "strip_port (h @ '':'' @ port) = h"
    by (auto simp: strip_port_def split: option.splits)
next
  fix h :: string
  assume "CHR '':'' \<notin> set h"
  then show "strip_port h = h" by (simp add: strip_port_def rfind_None [THEN iffD2])
next
  fix v6 :: string
  have b: "rfind (v6 @ '']'') (CHR '']'') = Some (length v6)"
    using rfind_append_in [of "'']''" "CHR '']''" 0 v6] by simp
  have "rfind (v6 @ '']'') (CHR '':'') = rfind v6 (CHR '':'')"
    by (rule rfind_append_not_in) simp
  moreover have "rfind v6 (CHR '':'') = Some i \<Longrightarrow> i < length v6" for i
    by (rule rfind_less)
  ultimately show "strip_port (v6 @ '']'') = v6 @ '']''"
    using b by (auto simp: strip_port_def split: option.splits)
qed

lemma strip_port_correct_example:
  "strip_port ''[::1]:8080'' = ''[::1]'' \<and> strip_port ''foo.com'' = ''foo.com''"
  using strip_port_correct by (auto dest: spec [of _ "''[::1]''"])

subsection \<open>Credentials\<close>

lemma colon_not_digit: "x < 64 \<Longrightarrow> digit x \<noteq> CHR '':''"
  using undigit_digit [of x] by (auto simp: undigit_def REVERSE_LOOKUP_TABLE_def byte_of_char_def)

lemma encode_no_colon: "CHR '':'' \<notin> set (encode s b)"
proof -
  have "CHR '':'' \<notin> digit ` set (sextets s)"
    using colon_not_digit sextets_less_64 by (metis imageE)
  then show ?thesis by (auto simp: encode_eq_sextets padding_def)
qed

lemma credential_key_encoded: "s \<noteq> [] \<Longrightarrow> credential_key (encode s True) = Some (encode s True)"
  by (simp add: credential_key_def encode_no_colon decode_inverts)

text \<open>
  A credential can be configured in the clear or Base64-encoded, with the same effect: for a
  credential with a colon, visiting its encoding stores what visiting it in the clear stores.
\<close>

lemma credential_plain_or_encoded:
  "CHR '':'' \<in> set s \<Longrightarrow>
   credential_visitor (JString (encode s True)) creds = credential_visitor (JString s) creds"
proof -
  assume colon: "CHR '':'' \<in> set s"
  then have "s \<noteq> []" by auto
  with colon show ?thesis
    by (simp add: credential_visitor_eq credential_key_encoded) (simp add: credential_key_def)
qed

lemma credential_plain_or_encoded_example:
  "credential_visitor (JString (encode ''ok:test'' True)) {} = credential_visitor (JString ''ok:test'') {}"
  by (rule credential_plain_or_encoded) simp

subsection \<open>The stored rules\<close>

text \<open>Every stored credential decodes to something, and no list of rules or credentials is empty.\<close>

definition rule_ok :: "BasicAuthConfigRule \<Rightarrow> bool" where
  "rule_ok rule \<longleftrightarrow> encoded_credentials rule \<noteq> {} \<and>
     (\<forall>c \<in> encoded_credentials rule. \<exists>r. r \<noteq> '''' \<and> decodeWithoutPadding c = Inr r)"

definition table_ok :: "rule_table \<Rightarrow> bool" where
  "table_ok rules \<longleftrightarrow> (\<forall>rs \<in> ran rules. rs \<noteq> [] \<and> (\<forall>rule \<in> set rs. rule_ok rule))"

lemma credential_key_decodes:
  assumes "credential_key s = Some c"
  shows "\<exists>r. r \<noteq> '''' \<and> decodeWithoutPadding c = Inr r"
proof (cases "CHR '':'' \<in> set s")
  case True
  with assms have "c = encode s True" "s \<noteq> []" by (auto simp: credential_key_def)
  then show ?thesis by (auto simp: decode_inverts)
next
  case False
  with assms show ?thesis
    using decodeWithoutPadding_defined [of s] by (auto simp: credential_key_def split: if_splits)
qed

lemma read_rule_ok: "read_rule garbage j = Some (ms, rule) \<Longrightarrow> rule_ok rule"
  using credential_key_decodes
  by (fastforce simp: read_rule_def rule_ok_def split: list.splits prod.splits json.splits option.splits if_splits)

lemma push_rule_ok: "rule_ok rule \<Longrightarrow> table_ok rules \<Longrightarrow> table_ok (push_rule rule m rules)"
  by (fastforce simp: table_ok_def push_rule_def ran_def split: option.splits if_splits)

lemma fold_push_rule_ok: "rule_ok rule \<Longrightarrow> table_ok rules \<Longrightarrow> table_ok (fold (push_rule rule) ms rules)"
  by (induction ms arbitrary: rules) (auto simp: push_rule_ok)

interpretation rule_visitor: json_visitor "extractBasicAuthRule garbage" table_ok for garbage
proof
  fix s s' j ok
  assume "table_ok s" "extractBasicAuthRule garbage j s = (ok, s')"
  then show "table_ok s'"
    using read_rule_ok fold_push_rule_ok
    by (auto simp: extract_eq split: option.splits prod.splits)
qed

lemma configure_table_ok:
  assumes "table_ok (basic_auth_configuration st)" "configure L garbage data st = (ok, st')"
  shows "table_ok (basic_auth_configuration st')"
  using assms rule_visitor.JsonArrayIterate_inv [OF assms(1)]
  by (auto simp: configure_def Let_def split: option.splits prod.splits if_splits)

text \<open>
  Whatever configurations are loaded, valid or not, every list of rules in the table is non-empty,
  every rule has a credential and every stored credential decodes to a non-empty string.
\<close>

lemma stored_rules_ok:
  "table_ok (basic_auth_configuration
     (fold (\<lambda>data st. snd (onConfigure L garbage data st)) configurations initial_root))"
proof -
  have "table_ok (basic_auth_configuration (fold (\<lambda>data st. snd (onConfigure L garbage data st)) configurations st))"
    if "table_ok (basic_auth_configuration st)" for st
    using that
  proof (induction configurations arbitrary: st)
    case (Cons data configurations)
    then have "table_ok (basic_auth_configuration (snd (onConfigure L garbage data st)))"
      using configure_table_ok [of st L garbage data "fst (configure L garbage data st)"]
      by (simp add: onConfigure_def)
    with Cons.IH show ?case by simp
  qed simp
  moreover have "table_ok (basic_auth_configuration initial_root)"
    by (simp add: initial_root_def table_ok_def)
  ultimately show ?thesis .
qed

subsection \<open>From a configuration to a decision\<close>

definition prefix_rule :: "string \<Rightarrow> string list \<Rightarrow> string list \<Rightarrow> json" where
  "prefix_rule p ms cs =
     JObject [(''credentials'', JArray (map JString cs)), (''prefix'', JString p),
              (''request_methods'', JArray (map JString ms))]"

lemma read_prefix_rule:
  assumes "p \<noteq> ''''" "ms \<noteq> []" "cs \<noteq> []" "\<forall>c \<in> set cs. CHR '':'' \<in> set c"
  shows "read_rule garbage (prefix_rule p ms cs) =
    Some (ms, \<lparr>request_path = p, path_pattern = Some Prefix, hosts = [],
               encoded_credentials = (\<lambda>c. encode c True) ` set cs\<rparr>)"
proof -
  have "credential_key c = Some (encode c True)" if "c \<in> set cs" for c
    using that assms(4) by (simp add: credential_key_def)
  with assms show ?thesis
    by (simp add: read_rule_def prefix_rule_def path_fields_def string_array_def array_field_def
        map_filter_simps list_all_iff o_def cong: image_cong_simp)
qed

lemma rules_for_push:
  "set (case fold (push_rule rule) ms rules m of None \<Rightarrow> [] | Some rs \<Rightarrow> rs) =
     (if m \<in> set ms then {rule} else {}) \<union> set (case rules m of None \<Rightarrow> [] | Some rs \<Rightarrow> rs)"
  by (induction ms arbitrary: rules) (auto simp: push_rule_def split: option.splits)

text \<open>
  C14: a configuration with one prefix rule is enforced: it is accepted, and afterwards exactly those
  requests are stopped whose method is listed, whose path starts with the prefix, and whose
  authorization header is not \<open>Basic\<close> followed by the Base64 encoding of a listed credential.
\<close>

theorem prefix_rule_enforced:
  assumes "json_parse L data = Some (JObject [(''basic_auth_rules'', JArray [prefix_rule p ms cs])])"
    and "data \<noteq> ''''" "p \<noteq> ''''" "ms \<noteq> []" "cs \<noteq> []" "\<forall>c \<in> set cs. CHR '':'' \<in> set c"
  shows "\<exists>st. onConfigure L garbage data initial_root = (True, st) \<and>
    (\<forall>header. fst (onRequestHeaders st header) = StopIteration \<longleftrightarrow>
       header '':method'' \<in> set ms \<and> prefix p (header '':path'') \<and>
       \<not> (\<exists>c \<in> set cs. header ''authorization'' = ''Basic '' @ encode c True))"
proof -
  let ?rule = "\<lparr>request_path = p, path_pattern = Some Prefix, hosts = [],
    encoded_credentials = (\<lambda>c. encode c True) ` set cs\<rparr>"
  let ?st = "initial_root\<lparr>basic_auth_configuration := fold (push_rule ?rule) ms Map.empty\<rparr>"
  have "onConfigure L garbage data initial_root = (True, ?st)"
    using assms by (simp add: onConfigure_def configure_def JsonParse_def JsonArrayIterate_def
        extract_eq read_prefix_rule initial_root_def)
  moreover have "set (rules_for ?st m) = (if m \<in> set ms then {?rule} else {})" for m
    using rules_for_push [of ?rule ms Map.empty m] by (simp add: rules_for_def)
  ultimately show ?thesis
    by (intro exI [of _ ?st])
      (auto simp: onRequestHeaders_eq applies_def authorized_def hostMatch_def path_matches_def StartsWith_iff)
qed

text \<open>The rules of a method after a configuration: those of before, and those it lists for the method.\<close>

lemma visit_rules:
  "visit_all (extractBasicAuthRule garbage) js rules = (True, rules') \<Longrightarrow>
   set (case rules' m of None \<Rightarrow> [] | Some rs \<Rightarrow> rs) =
     {rule. \<exists>e \<in> set js. \<exists>ms. read_rule garbage e = Some (ms, rule) \<and> m \<in> set ms} \<union>
     set (case rules m of None \<Rightarrow> [] | Some rs \<Rightarrow> rs)"
proof (induction js arbitrary: rules)
  case (Cons e js)
  obtain ms rule where r: "read_rule garbage e = Some (ms, rule)"
    "visit_all (extractBasicAuthRule garbage) js (fold (push_rule rule) ms rules) = (True, rules')"
    using Cons.prems by (auto simp: extract_eq [of garbage e] split: option.splits prod.splits if_splits)
  have "{rule'. \<exists>ms'. Some (ms, rule) = Some (ms', rule') \<and> m \<in> set ms'} = (if m \<in> set ms then {rule} else {})"
    by auto
  with Cons.IH [OF r(2)] rules_for_push [of rule ms rules m] r(1) show ?case by auto
qed simp

lemma configured_rules:
  assumes "JsonParse L data = Some j" "data \<noteq> ''''" "array_field j ''basic_auth_rules'' = Some js"
    and "onConfigure L garbage data initial_root = (True, st)"
  shows "set (rules_for st m) = {rule. \<exists>e \<in> set js. \<exists>ms. read_rule garbage e = Some (ms, rule) \<and> m \<in> set ms}"
proof -
  have "visit_all (extractBasicAuthRule garbage) js Map.empty = (True, basic_auth_configuration st)"
    using assms by (auto simp: onConfigure_def configure_def initial_root_def JsonArrayIterate_eq Let_def
        split: prod.splits option.splits if_splits)
  from visit_rules [OF this, of m] show ?thesis by (simp add: rules_for_def)
qed

lemma encode_inject: "encode s b = encode t b \<Longrightarrow> s = t"
  using decode_inverts by (metis Inr_inject)

text \<open>Which configured credentials a login with a colon is accepted for: itself, or its encoding.\<close>

lemma credential_key_login:
  assumes "CHR '':'' \<in> set login"
  shows "credential_key c = Some (encode login True) \<longleftrightarrow> c = login \<or> c = encode login True"
proof -
  have "login \<noteq> []" using assms by auto
  then show ?thesis
    using assms encode_inject [of c True login] credential_key_encoded [of login] by (auto simp: credential_key_def split: if_splits)
qed

lemma read_rule_credentials:
  assumes "read_rule garbage e = Some (ms, rule)"
  obtains cs where "string_array e ''credentials'' = Some cs" "\<forall>c \<in> set cs. credential_key c \<noteq> None"
    "encoded_credentials rule = (the \<circ> credential_key) ` set cs"
  using assms that by (auto simp: read_rule_def split: list.splits prod.splits json.splits option.splits if_splits)

lemma authorized_login:
  assumes "read_rule garbage e = Some (ms, rule)" "string_array e ''credentials'' = Some cs" "CHR '':'' \<in> set login"
  shows "authorized rule (''Basic '' @ encode login True) \<longleftrightarrow> login \<in> set cs \<or> encode login True \<in> set cs"
proof -
  have cs: "\<forall>c \<in> set cs. credential_key c \<noteq> None" "encoded_credentials rule = (the \<circ> credential_key) ` set cs"
    using read_rule_credentials [OF assms(1)] assms(2) by auto
  then have "authorized rule (''Basic '' @ encode login True) \<longleftrightarrow> (\<exists>c \<in> set cs. credential_key c = Some (encode login True))"
    by (force simp: authorized_def)
  then show ?thesis using credential_key_login [OF assms(3)] by auto
qed

definition example_lib :: json_lib where
  "example_lib = \<lparr>json_parse = (\<lambda>s. Some (JObject [(''basic_auth_rules'',
       JArray [prefix_rule ''/api'' [''GET''] [''ok:test'']])])),
     json_dump = (\<lambda>_. ''''), SimpleAtoi_u64 = (\<lambda>_. None), SimpleAtoi_i64 = (\<lambda>_. None),
     wild_u64 = (\<lambda>_ _. 0), wild_i64 = (\<lambda>_ _. 0)\<rparr>"

theorem prefix_rule_enforced_witness:
  "\<exists>st. onConfigure example_lib None ''{}'' initial_root = (True, st) \<and>
    (\<forall>header. fst (onRequestHeaders st header) = StopIteration \<longleftrightarrow>
       header '':method'' \<in> set [''GET''] \<and> prefix ''/api'' (header '':path'') \<and>
       \<not> (\<exists>c \<in> set [''ok:test'']. header ''authorization'' = ''Basic '' @ encode c True))"
  by (rule prefix_rule_enforced) (simp_all add: example_lib_def)

subsection \<open>The uninitialised path pattern\<close>

text \<open>
  A rule whose only path field is an empty string is accepted, and whether it protects anything
  is then decided by an uninitialised member: with one indeterminate value an unauthenticated
  request is stopped, with another it passes.
\<close>

lemma empty_prefix_indeterminate:
  "let rule = prefix_rule '''' [''GET''] [''ok:test''];
       configured = (\<lambda>garbage. initial_root\<lparr>basic_auth_configuration :=
                       snd (extractBasicAuthRule garbage rule Map.empty)\<rparr>);
       header = (\<lambda>h. if h = '':method'' then ''GET'' else if h = '':path'' then ''/secret'' else '''')
   in (\<forall>garbage. fst (extractBasicAuthRule garbage rule Map.empty)) \<and>
      fst (onRequestHeaders (configured (Some Prefix)) header) = StopIteration \<and>
      fst (onRequestHeaders (configured (Some Exact)) header) = Continue \<and>
      fst (onRequestHeaders (configured None) header) = Continue"
proof -
  have r: "read_rule garbage (prefix_rule '''' [''GET''] [''ok:test'']) =
    Some ([''GET''], \<lparr>request_path = '''', path_pattern = garbage, hosts = [],
      encoded_credentials = {encode ''ok:test'' True}\<rparr>)" for garbage
    by (simp add: read_rule_def prefix_rule_def path_fields_def string_array_def array_field_def
        map_filter_simps credential_key_def)
  show ?thesis
    by (simp add: extract_eq r push_rule_def onRequestHeaders_eq rules_for_def applies_def
        hostMatch_def path_matches_def authorized_def StartsWith_def)
qed

end
