(* ===== verification/Shared_Data.thy ===== *)
theory Shared_Data
  imports Proxy_Host
begin

text \<open>
  Programs over the host's shared data. The rate limiter runs in several VMs (one per worker
  thread) that share a key/value store of the host, accessed with compare-and-swap. Its code is
  modelled as a tree of host calls with the continuation of each call, so that one definition is
  both run alone (\<open>run\<close>) and interleaved with the other VMs.

  The store is outside the repository. Its documented behaviour is the locale \<open>shared_data\<close>:
  \<open>sd_get\<close> returns the value of a key and its current cas, \<open>sd_set\<close> with a non-zero cas succeeds
  only while that cas is current, and a cas is not handed out twice for different versions of a
  key. \<open>stamp\<close> counts the versions of a key.
\<close>

section \<open>Programs\<close>

datatype 'a prog =
    Return 'a
  | Undefined ub
  | OutOfFuel
  | GetSharedData string "WasmResult \<times> bytes \<times> u32 \<Rightarrow> 'a prog"
  | SetSharedData string bytes u32 "WasmResult \<Rightarrow> 'a prog"
  | GetCurrentTimeNanoseconds "u64 \<Rightarrow> 'a prog"
  | Act host_action "'a prog"

primrec bind_prog :: "'a prog \<Rightarrow> ('a \<Rightarrow> 'b prog) \<Rightarrow> 'b prog" where
  "bind_prog (Return x) f = f x"
| "bind_prog (Undefined e) f = Undefined e"
| "bind_prog OutOfFuel f = OutOfFuel"
| "bind_prog (GetSharedData k c) f = GetSharedData k (\<lambda>r. bind_prog (c r) f)"
| "bind_prog (SetSharedData k d cas c) f = SetSharedData k d cas (\<lambda>r. bind_prog (c r) f)"
| "bind_prog (GetCurrentTimeNanoseconds c) f = GetCurrentTimeNanoseconds (\<lambda>t. bind_prog (c t) f)"
| "bind_prog (Act a p) f = Act a (bind_prog p f)"

text \<open>\<open>*reinterpret_cast<const uint64_t *>(data)\<close>: undefined when fewer than eight bytes are there.\<close>

definition with_u64 :: "bytes \<Rightarrow> (u64 \<Rightarrow> 'a prog) \<Rightarrow> 'a prog" where
  "with_u64 data f = (case read_u64 data of Inl e \<Rightarrow> Undefined e | Inr v \<Rightarrow> f v)"

lemma with_u64_bytes [simp]: "with_u64 (u64_bytes v) f = f v"
  by (simp add: with_u64_def)

section \<open>Running a program alone\<close>

datatype 'a outcome = Finished 'a | Aborted ub | Exhausted

primrec run ::
  "('w \<Rightarrow> string \<Rightarrow> WasmResult \<times> bytes \<times> u32) \<Rightarrow> ('w \<Rightarrow> string \<Rightarrow> bytes \<Rightarrow> u32 \<Rightarrow> WasmResult \<times> 'w) \<Rightarrow>
     u64 \<Rightarrow> 'a prog \<Rightarrow> 'w \<Rightarrow> 'a outcome \<times> 'w \<times> host_action list" where
  "run sd_get sd_set now (Return x) w = (Finished x, w, [])"
| "run sd_get sd_set now (Undefined e) w = (Aborted e, w, [])"
| "run sd_get sd_set now OutOfFuel w = (Exhausted, w, [])"
| "run sd_get sd_set now (GetSharedData k c) w = run sd_get sd_set now (c (sd_get w k)) w"
| "run sd_get sd_set now (SetSharedData k d cas c) w =
     (case sd_set w k d cas of (r, w') \<Rightarrow> run sd_get sd_set now (c r) w')"
| "run sd_get sd_set now (GetCurrentTimeNanoseconds c) w = run sd_get sd_set now (c now) w"
| "run sd_get sd_set now (Act a p) w =
     (case run sd_get sd_set now p w of (x, w', as) \<Rightarrow> (x, w', a # as))"

section \<open>The contract of the store\<close>

locale shared_data =
  fixes sd_get :: "'w \<Rightarrow> string \<Rightarrow> WasmResult \<times> bytes \<times> u32"
    and sd_set :: "'w \<Rightarrow> string \<Rightarrow> bytes \<Rightarrow> u32 \<Rightarrow> WasmResult \<times> 'w"
    and stamp :: "'w \<Rightarrow> string \<Rightarrow> nat"
  assumes cas_nonzero: "sd_get w k = (Ok, d, c) \<Longrightarrow> c \<noteq> 0"
    and cas_version:
      "sd_get w k = (Ok, d, c) \<Longrightarrow> sd_get w' k = (Ok, d', c) \<Longrightarrow> stamp w k = stamp w' k"
    and set_ok_get: "sd_set w k d c = (Ok, w') \<Longrightarrow> \<exists>c'. sd_get w' k = (Ok, d, c')"
    and set_ok_stamp: "sd_set w k d c = (Ok, w') \<Longrightarrow> stamp w k < stamp w' k"
    and set_ok_cas: "sd_set w k d c = (Ok, w') \<Longrightarrow> c \<noteq> 0 \<Longrightarrow> sd_get w k = (Ok, d', c') \<Longrightarrow> c' = c"
    and set_other: "sd_set w k d c = (r, w') \<Longrightarrow> k' \<noteq> k \<Longrightarrow> sd_get w' k' = sd_get w k' \<and> stamp w' k' = stamp w k'"
    and set_failed: "sd_set w k d c = (r, w') \<Longrightarrow> r \<noteq> Ok \<Longrightarrow> sd_get w' = sd_get w \<and> stamp w' = stamp w"
    and mismatch: "sd_get w k = (Ok, d', c) \<Longrightarrow> fst (sd_set w k d c) \<noteq> CasMismatch"
begin

text \<open>
  \<open>snapshot w k d c b\<close>: some earlier version of \<open>k\<close>, not before version \<open>b\<close>, had the value \<open>d\<close> and
  the cas \<open>c\<close>, and if it is still the current version, the value is still there.
\<close>

definition snapshot :: "'w \<Rightarrow> string \<Rightarrow> bytes \<Rightarrow> u32 \<Rightarrow> nat \<Rightarrow> bool" where
  "snapshot w k d c b \<longleftrightarrow>
     (\<exists>w0. sd_get w0 k = (Ok, d, c) \<and> b \<le> stamp w0 k \<and> stamp w0 k \<le> stamp w k \<and>
       (stamp w0 k = stamp w k \<longrightarrow> sd_get w k = (Ok, d, c)))"

lemma snapshot_get: "sd_get w k = (Ok, d, c) \<Longrightarrow> b \<le> stamp w k \<Longrightarrow> snapshot w k d c b"
  by (auto simp: snapshot_def)

lemma stamp_mono: "sd_set w k' d c = (r, w') \<Longrightarrow> stamp w k \<le> stamp w' k"
  using set_ok_stamp [of w k' d c w'] set_other [of w k' d c r w' k] set_failed [of w k' d c r w']
  by (cases "k = k'"; cases "r = Ok") auto

lemma snapshot_set:
  assumes "snapshot w k d c b" "sd_set w k' d' c' = (r, w')"
  shows "snapshot w' k d c b"
proof (cases "r = Ok \<and> k' = k")
  case True
  with assms show ?thesis
    unfolding snapshot_def using set_ok_stamp [of w k d' c' w'] by fastforce
next
  case False
  then have "sd_get w' k = sd_get w k \<and> stamp w' k = stamp w k"
    using assms(2) set_other [of w k' d' c' r w' k] set_failed [of w k' d' c' r w'] by auto
  with assms(1) show ?thesis by (simp add: snapshot_def)
qed

text \<open>A value that was read once stays readable, whatever is written.\<close>

lemma get_set_same_or_written:
  assumes "sd_set w k' d' c' = (r, w')"
  shows "sd_get w' k = sd_get w k \<or> (k' = k \<and> r = Ok \<and> (\<exists>c. sd_get w' k = (Ok, d', c)))"
  using assms set_other [of w k' d' c' r w' k] set_failed [of w k' d' c' r w']
    set_ok_get [of w k' d' c' w'] by (cases "k = k'"; cases "r = Ok") auto

text \<open>The law the clients rely on: a successful compare-and-swap replaces exactly the value it read.\<close>

lemma set_ok_snapshot:
  assumes "snapshot w k d c b" "sd_set w k d' c = (Ok, w')" "sd_get w k = (Ok, d0, c0)"
  shows "d0 = d"
proof -
  from assms(1) obtain w0 where w0: "sd_get w0 k = (Ok, d, c)"
    "stamp w0 k = stamp w k \<longrightarrow> sd_get w k = (Ok, d, c)" by (auto simp: snapshot_def)
  have "c0 = c"
    using set_ok_cas [OF assms(2) _ assms(3)] cas_nonzero [OF w0(1)] by simp
  with assms(3) have "stamp w0 k = stamp w k"
    using cas_version [OF w0(1)] by blast
  with w0(2) assms(3) show ?thesis by simp
qed

text \<open>A compare-and-swap that fails for a mismatch was overtaken by another write.\<close>

lemma mismatch_overtaken:
  assumes "snapshot w k d c b" "sd_set w k d' c = (CasMismatch, w')"
  shows "Suc b \<le> stamp w k"
proof -
  have "sd_get w k \<noteq> (Ok, d, c)"
    using mismatch [of w k d c d'] assms(2) by auto
  with assms(1) show ?thesis by (auto simp: snapshot_def)
qed

end

section \<open>A versioned store\<close>

text \<open>
  A store with the documented behaviour: each key has its value and a version number, which is its
  cas; a write at the last 32-bit version is refused.
\<close>

type_synonym store = "string \<rightharpoonup> bytes \<times> nat"

definition store_get :: "store \<Rightarrow> string \<Rightarrow> WasmResult \<times> bytes \<times> u32" where
  "store_get s k = (case s k of
     None \<Rightarrow> (Failure 1, [], 0)
   | Some (d, v) \<Rightarrow> if 0 < v \<and> v < 2 ^ 32 then (Ok, d, of_nat v) else (Failure 10, [], 0))"

definition store_stamp :: "store \<Rightarrow> string \<Rightarrow> nat" where
  "store_stamp s k = (case s k of None \<Rightarrow> 0 | Some (d, v) \<Rightarrow> v)"

definition store_set :: "store \<Rightarrow> string \<Rightarrow> bytes \<Rightarrow> u32 \<Rightarrow> WasmResult \<times> store" where
  "store_set s k d c = (case s k of
     None \<Rightarrow> (Ok, s(k \<mapsto> (d, 1)))
   | Some (_, v) \<Rightarrow>
       if c \<noteq> 0 \<and> c \<noteq> of_nat v then (CasMismatch, s)
       else if v + 1 < 2 ^ 32 then (Ok, s(k \<mapsto> (d, v + 1))) else (Failure 10, s))"

interpretation versioned: shared_data store_get store_set store_stamp
proof
  fix w w' :: store and k k' d d' c c' r
  show "store_get w k = (Ok, d, c) \<Longrightarrow> c \<noteq> 0"
    by (auto simp: store_get_def word_of_nat_eq_0_iff split: option.splits if_splits dest!: dvd_imp_le)
  show "store_get w k = (Ok, d, c) \<Longrightarrow> store_get w' k = (Ok, d', c) \<Longrightarrow> store_stamp w k = store_stamp w' k"
    by (auto simp: store_get_def store_stamp_def of_nat_eq_iff take_bit_nat_eq_self word_of_nat_eq_iff
        split: option.splits if_splits)
  show "store_set w k d c = (Ok, w') \<Longrightarrow> \<exists>c'. store_get w' k = (Ok, d, c')"
    by (auto simp: store_get_def store_set_def split: option.splits if_splits)
  show "store_set w k d c = (Ok, w') \<Longrightarrow> store_stamp w k < store_stamp w' k"
    by (auto simp: store_stamp_def store_set_def split: option.splits if_splits)
  show "store_set w k d c = (Ok, w') \<Longrightarrow> c \<noteq> 0 \<Longrightarrow> store_get w k = (Ok, d', c') \<Longrightarrow> c' = c"
    by (auto simp: store_get_def store_set_def split: option.splits if_splits)
  show "store_set w k d c = (r, w') \<Longrightarrow> k' \<noteq> k \<Longrightarrow>
      store_get w' k' = store_get w k' \<and> store_stamp w' k' = store_stamp w k'"
    by (auto simp: store_get_def store_stamp_def store_set_def split: option.splits if_splits)
  show "store_set w k d c = (r, w') \<Longrightarrow> r \<noteq> Ok \<Longrightarrow> store_get w' = store_get w \<and> store_stamp w' = store_stamp w"
    by (auto simp: store_set_def split: option.splits if_splits)
  show "store_get w k = (Ok, d', c) \<Longrightarrow> fst (store_set w k d c) \<noteq> CasMismatch"
    by (auto simp: store_get_def store_set_def split: option.splits if_splits)
qed

end
