(* ===== verification/Token_Bucket.thy ===== *)
theory Token_Bucket
  imports Shared_Data
begin

text \<open>
  The token bucket of the local rate limiter (\<open>extensions/local_rate_limit/bucket.{h,cc}\<close>): two
  64-bit values in the host's shared data, updated with compare-and-swap by every VM. The loop of
  \<open>refillToken\<close> has no bound in the code; \<open>fuel\<close> bounds it here, and \<open>OutOfFuel\<close> is the result
  of a run that would go on.
\<close>

section \<open>The code\<close>

definition maxGetTokenRetry :: nat where
  "maxGetTokenRetry = 20"

definition localRateLimitTokenBucket :: string where
  "localRateLimitTokenBucket = ''wasm_local_rate_limit.token_bucket''"

definition localRateLimitLastRefilled :: string where
  "localRateLimitLastRefilled = ''wasm_local_rate_limit.last_refilled''"

text \<open>The loop of \<open>getToken\<close>, with the number of attempts left.\<close>

primrec getToken_loop :: "nat \<Rightarrow> bool prog" where
  "getToken_loop 0 = Return True"
| "getToken_loop (Suc n) =
     GetSharedData localRateLimitTokenBucket (\<lambda>(result, token_bucket_data, cas).
       if result \<noteq> Ok then Return False
       else with_u64 token_bucket_data (\<lambda>token_left.
         if token_left = 0 then Return False
         else SetSharedData localRateLimitTokenBucket (u64_bytes (token_left - 1)) cas (\<lambda>res.
           case res of
             Ok \<Rightarrow> Return True
           | CasMismatch \<Rightarrow> getToken_loop n
           | Failure _ \<Rightarrow> Return False)))"

definition getToken :: "bool prog" where
  "getToken = getToken_loop maxGetTokenRetry"

primrec refill_loop :: "nat \<Rightarrow> u64 \<Rightarrow> u64 \<Rightarrow> unit prog" where
  "refill_loop 0 tokens_per_refill max_tokens = OutOfFuel"
| "refill_loop (Suc fuel) tokens_per_refill max_tokens =
     GetSharedData localRateLimitTokenBucket (\<lambda>(result, token_bucket_data, cas).
       if result \<noteq> Ok then Return ()
       else with_u64 token_bucket_data (\<lambda>token_left.
         let token_left = token_left + tokens_per_refill;
             token_left = (if token_left > max_tokens then max_tokens else token_left)
         in SetSharedData localRateLimitTokenBucket (u64_bytes token_left) cas (\<lambda>res.
              case res of
                CasMismatch \<Rightarrow> refill_loop fuel tokens_per_refill max_tokens
              | Ok \<Rightarrow> Return ()
              | Failure _ \<Rightarrow> Return ())))"

definition refillToken :: "nat \<Rightarrow> u64 \<Rightarrow> u64 \<Rightarrow> u64 \<Rightarrow> unit prog" where
  "refillToken fuel tokens_per_refill refill_interval_nanosec max_tokens =
     GetSharedData localRateLimitLastRefilled (\<lambda>(result, last_update_data, last_update_cas).
       if result \<noteq> Ok then Return ()
       else with_u64 last_update_data (\<lambda>last_update.
         GetCurrentTimeNanoseconds (\<lambda>now.
           if now - last_update < refill_interval_nanosec then Return ()
           else SetSharedData localRateLimitLastRefilled (u64_bytes now) last_update_cas (\<lambda>res.
             case res of
               CasMismatch \<Rightarrow> Return ()
             | Ok \<Rightarrow> refill_loop fuel tokens_per_refill max_tokens
             | Failure _ \<Rightarrow> Return ()))))"

text \<open>The two writes pass no cas, which is the value 0: they are unconditional.\<close>

definition initializeTokenBucket :: "u64 \<Rightarrow> bool prog" where
  "initializeTokenBucket initial_tokens =
     GetSharedData localRateLimitLastRefilled (\<lambda>(result, last_update_data, cas).
       if result = Ok then Return True
       else SetSharedData localRateLimitLastRefilled (u64_bytes 0) 0 (\<lambda>res.
         case res of
           CasMismatch \<Rightarrow> Return True
         | Failure _ \<Rightarrow> Return False
         | Ok \<Rightarrow>
             SetSharedData localRateLimitTokenBucket (u64_bytes initial_tokens) 0 (\<lambda>res.
               if res \<noteq> Ok then Return False else Return True)))"

lemma keys_differ [simp]:
  "localRateLimitTokenBucket \<noteq> localRateLimitLastRefilled"
  "localRateLimitLastRefilled \<noteq> localRateLimitTokenBucket"
  by (simp_all add: localRateLimitTokenBucket_def localRateLimitLastRefilled_def)

section \<open>One VM alone\<close>

text \<open>What a refill does to the number of tokens.\<close>

definition refilled :: "u64 \<Rightarrow> u64 \<Rightarrow> u64 \<Rightarrow> u64" where
  "refilled tokens_per_refill max_tokens t = min (t + tokens_per_refill) max_tokens"

lemma refilled_eq: "(if t + n > m then m else t + n) = refilled n m t"
  by (auto simp: refilled_def min_def)

lemma unat_refilled:
  assumes "unat t + unat n < 2 ^ 64"
  shows "unat (refilled n m t) = min (unat t + unat n) (unat m)"
proof -
  from assms have "unat (t + n) = unat t + unat n"
    by (simp add: unat_word_ariths)
  then show ?thesis by (simp add: refilled_def min_def word_le_nat_alt)
qed

lemma refilled_le: "unat (refilled n m t) \<le> unat t + unat n" "refilled n m t \<le> m"
proof -
  have "unat (t + n) \<le> unat t + unat n" by (simp add: unat_word_ariths)
  then show "unat (refilled n m t) \<le> unat t + unat n"
    by (auto simp: refilled_def min_def word_le_nat_alt)
qed (simp add: refilled_def)

context shared_data
begin

text \<open>The value of one of the two keys, as a number.\<close>

definition holds :: "'w \<Rightarrow> string \<Rightarrow> u64 \<Rightarrow> bool" where
  "holds w k v \<longleftrightarrow> (\<exists>c. sd_get w k = (Ok, u64_bytes v, c))"

lemma holds_unique: "holds w k v \<Longrightarrow> holds w k v' \<Longrightarrow> v = v'"
  by (auto simp: holds_def u64_bytes_inject)

lemma holds_set_ok: "sd_set w k (u64_bytes v) c = (Ok, w') \<Longrightarrow> holds w' k v"
  using set_ok_get by (auto simp: holds_def)

lemma holds_set_other: "sd_set w k d c = (r, w') \<Longrightarrow> k' \<noteq> k \<or> r \<noteq> Ok \<Longrightarrow> holds w' k' = holds w k'"
  using set_other [of w k d c r w' k'] set_failed [of w k d c r w'] by (auto simp: holds_def)

lemma run_getToken:
  assumes "sd_get w localRateLimitTokenBucket = (Ok, u64_bytes t, c)"
  shows "run sd_get sd_set now getToken w =
    (if t = 0 then (Finished False, w, [])
     else case sd_set w localRateLimitTokenBucket (u64_bytes (t - 1)) c of
            (r, w') \<Rightarrow> (Finished (r = Ok), w', []))"
proof (cases "sd_set w localRateLimitTokenBucket (u64_bytes (t - 1)) c")
  case (Pair r w')
  then have "r \<noteq> CasMismatch"
    using mismatch [OF assms, of "u64_bytes (t - 1)"] by auto
  with assms Pair show ?thesis
    by (cases r) (simp_all add: getToken_def maxGetTokenRetry_def eval_nat_numeral)
qed

lemma run_refill_loop:
  assumes "sd_get w localRateLimitTokenBucket = (Ok, u64_bytes t, c)"
  shows "run sd_get sd_set now (refill_loop (Suc fuel) n m) w =
    (Finished (), snd (sd_set w localRateLimitTokenBucket (u64_bytes (refilled n m t)) c), [])"
proof (cases "sd_set w localRateLimitTokenBucket (u64_bytes (refilled n m t)) c")
  case (Pair r w')
  then have "r \<noteq> CasMismatch"
    using mismatch [OF assms, of "u64_bytes (refilled n m t)"] by auto
  with assms Pair show ?thesis
    by (cases r) (simp_all add: Let_def refilled_eq)
qed

text \<open>Without interference one round of the refill loop is enough: it always returns.\<close>

lemma run_refillToken_due:
  assumes "sd_get w localRateLimitLastRefilled = (Ok, u64_bytes l, cl)"
    and "sd_get w localRateLimitTokenBucket = (Ok, u64_bytes t, c)"
    and "\<not> now - l < interval"
    and "sd_set w localRateLimitLastRefilled (u64_bytes now) cl = (Ok, w')"
  shows "run sd_get sd_set now (refillToken (Suc fuel) n interval m) w =
    (Finished (), snd (sd_set w' localRateLimitTokenBucket (u64_bytes (refilled n m t)) c), [])"
  using assms set_other [OF assms(4), of localRateLimitTokenBucket]
  by (simp add: refillToken_def run_refill_loop del: refill_loop.simps)

lemma run_refillToken_not_due:
  assumes "sd_get w localRateLimitLastRefilled = (Ok, u64_bytes l, cl)" "now - l < interval"
  shows "run sd_get sd_set now (refillToken fuel n interval m) w = (Finished (), w, [])"
  using assms by (simp add: refillToken_def)

lemma run_initializeTokenBucket:
  assumes "fst (sd_get w localRateLimitLastRefilled) \<noteq> Ok"
    and "sd_set w localRateLimitLastRefilled (u64_bytes 0) 0 = (Ok, w')"
    and "sd_set w' localRateLimitTokenBucket (u64_bytes n) 0 = (Ok, w'')"
  shows "run sd_get sd_set now (initializeTokenBucket n) w = (Finished True, w'', [])"
    and "holds w'' localRateLimitTokenBucket n" and "holds w'' localRateLimitLastRefilled 0"
proof -
  show "run sd_get sd_set now (initializeTokenBucket n) w = (Finished True, w'', [])"
    using assms by (auto simp: initializeTokenBucket_def split: prod.split)
  show "holds w'' localRateLimitTokenBucket n" using assms(3) by (rule holds_set_ok)
  show "holds w'' localRateLimitLastRefilled 0"
    using holds_set_ok [OF assms(2)] holds_set_other [OF assms(3)] by simp
qed

end

section \<open>Properties\<close>

text \<open>
  Run without interference on a store with the documented behaviour, \<open>getToken\<close> grants the
  request exactly when the bucket is not empty and the host accepts the write; it then takes one
  token, and in every case leaves the time of the last refill alone. It never reads past the end of
  the stored value.
\<close>

lemma getToken_alone:
  assumes "shared_data sd_get sd_set stamp"
    and "sd_get w localRateLimitTokenBucket = (Ok, u64_bytes t, c)"
  shows "\<exists>granted w'. run sd_get sd_set now getToken w = (Finished granted, w', []) \<and>
    (granted \<longleftrightarrow> t \<noteq> 0 \<and> fst (sd_set w localRateLimitTokenBucket (u64_bytes (t - 1)) c) = Ok) \<and>
    (\<exists>c'. sd_get w' localRateLimitTokenBucket = (Ok, u64_bytes (if granted then t - 1 else t), c')) \<and>
    sd_get w' localRateLimitLastRefilled = sd_get w localRateLimitLastRefilled"
proof (cases "sd_set w localRateLimitTokenBucket (u64_bytes (t - 1)) c")
  case (Pair r w')
  then show ?thesis
    using shared_data.run_getToken [OF assms, of now] assms(2)
      shared_data.set_ok_get [OF assms(1), of w localRateLimitTokenBucket "u64_bytes (t - 1)" c w']
      shared_data.set_other [OF assms(1) Pair, of localRateLimitLastRefilled]
      shared_data.set_failed [OF assms(1) Pair]
    by (cases "t = 0"; cases "r = Ok") auto
qed

lemma getToken_alone_example:
  "\<exists>w'. run store_get store_set 0 getToken [localRateLimitTokenBucket \<mapsto> (u64_bytes 3, 7)] =
     (Finished True, w', []) \<and> (\<exists>c'. store_get w' localRateLimitTokenBucket = (Ok, u64_bytes 2, c'))"
  using getToken_alone [OF versioned.shared_data_axioms, of "[localRateLimitTokenBucket \<mapsto> (u64_bytes 3, 7)]" 3 7 0]
  by (auto simp: store_get_def store_set_def)

text \<open>
  C35: run without interference, \<open>refillToken\<close> changes nothing before the interval has passed. Once
  it has passed, one round of its loop is enough, and it records the time and adds the tokens, cut
  at the maximum: exactly \<open>min (t + n) m\<close>, wherever \<open>t + n\<close> fits in 64 bits.
\<close>

theorem refillToken_alone:
  assumes "shared_data sd_get sd_set stamp"
    and "sd_get w localRateLimitLastRefilled = (Ok, u64_bytes l, cl)"
    and "sd_get w localRateLimitTokenBucket = (Ok, u64_bytes t, c)"
    and "sd_set w localRateLimitLastRefilled (u64_bytes now) cl = (Ok, w1)"
    and "sd_set w1 localRateLimitTokenBucket (u64_bytes (min (t + n) m)) c = (Ok, w2)"
    and "unat t + unat n < 2 ^ 64"
  shows "run sd_get sd_set now (refillToken (Suc fuel) n interval m) w =
      (Finished (), if now - l < interval then w else w2, []) \<and>
    (\<exists>c'. sd_get w2 localRateLimitLastRefilled = (Ok, u64_bytes now, c')) \<and>
    (\<exists>v c'. sd_get w2 localRateLimitTokenBucket = (Ok, u64_bytes v, c') \<and>
            unat v = min (unat t + unat n) (unat m))"
proof (intro conjI)
  show "run sd_get sd_set now (refillToken (Suc fuel) n interval m) w =
      (Finished (), if now - l < interval then w else w2, [])"
    using shared_data.run_refillToken_due [OF assms(1-3) _ assms(4)]
      shared_data.run_refillToken_not_due [OF assms(1,2)] assms(5)
    by (auto simp: refilled_def)
  show "\<exists>c'. sd_get w2 localRateLimitLastRefilled = (Ok, u64_bytes now, c')"
    using shared_data.set_ok_get [OF assms(1,4)]
      shared_data.set_other [OF assms(1,5), of localRateLimitLastRefilled] by simp
  show "\<exists>v c'. sd_get w2 localRateLimitTokenBucket = (Ok, u64_bytes v, c') \<and>
      unat v = min (unat t + unat n) (unat m)"
    using shared_data.set_ok_get [OF assms(1,5)] unat_refilled [OF assms(6), of m]
    by (auto simp: refilled_def)
qed

definition example_bucket :: "u64 \<Rightarrow> u64 \<Rightarrow> store" where
  "example_bucket l t =
     [localRateLimitLastRefilled \<mapsto> (u64_bytes l, 1), localRateLimitTokenBucket \<mapsto> (u64_bytes t, 1)]"

theorem refillToken_alone_witness:
  "\<exists>w'. run store_get store_set 50 (refillToken 1 5 10 6) (example_bucket 30 4) = (Finished (), w', []) \<and>
     (\<exists>v c'. store_get w' localRateLimitTokenBucket = (Ok, u64_bytes v, c') \<and> unat v = 6)"
  using refillToken_alone [OF versioned.shared_data_axioms, of "example_bucket 30 4" 30 1 4 1 50
      "(example_bucket 30 4)(localRateLimitLastRefilled \<mapsto> (u64_bytes 50, Suc 1))" 5 6
      "(example_bucket 30 4)(localRateLimitLastRefilled \<mapsto> (u64_bytes 50, Suc 1),
         localRateLimitTokenBucket \<mapsto> (u64_bytes 6, Suc 1))" 0 10]
  by (auto simp: example_bucket_def store_get_def store_set_def)

text \<open>
  Where the sum does not fit, the refill wraps around and can take tokens away: with the maximum
  at the largest 64-bit value, a full bucket is refilled to one token less than \<open>tokens_per_refill\<close>.
\<close>

lemma refill_wraps:
  assumes "shared_data sd_get sd_set stamp"
    and "sd_get w localRateLimitTokenBucket = (Ok, u64_bytes (- 1), c)" and "n \<noteq> 0"
    and "sd_set w localRateLimitTokenBucket (u64_bytes (n - 1)) c = (Ok, w')"
  shows "run sd_get sd_set now (refill_loop (Suc fuel) n (- 1)) w = (Finished (), w', [])"
proof -
  have "refilled n (- 1) (- 1) = n - 1"
    by (simp add: refilled_def min_def)
  with assms show ?thesis using shared_data.run_refill_loop [OF assms(1,2), of now fuel n "- 1"] by simp
qed

lemma refill_wraps_example:
  "run store_get store_set 0 (refill_loop 1 5 (- 1)) (example_bucket 0 (- 1)) =
     (Finished (), (example_bucket 0 (- 1))(localRateLimitTokenBucket \<mapsto> (u64_bytes 4, Suc 1)), [])"
  using refill_wraps [OF versioned.shared_data_axioms, of "example_bucket 0 (- 1)" 1 5
      "(example_bucket 0 (- 1))(localRateLimitTokenBucket \<mapsto> (u64_bytes 4, Suc 1))" 0 0]
  by (simp add: example_bucket_def store_get_def store_set_def)

end
