(* ===== verification/Rate_Limit.thy ===== *)
theory Rate_Limit
  imports Token_Bucket Json_Util
begin

text \<open>
  The local rate-limit extension (\<open>extensions/local_rate_limit/plugin.{h,cc}\<close>): parsing its
  configuration, the handlers of a request and of a tick, and the system of all VMs that run them
  concurrently on the same token bucket.
\<close>

section \<open>The code\<close>

record rate_limit_root =
  max_tokens :: u64
  tokens_per_refill :: u64
  refill_interval_nanosec :: u64

definition tooManyRequest :: host_action where
  "tooManyRequest = SendLocalResponse 429 ''Too many requests'' ''rate_limited'' []"

definition shouldRateLimit :: bool where
  "shouldRateLimit = True"

text \<open>A field of the configuration: missing or no number is an error.\<close>

definition uint64_field :: "json_lib \<Rightarrow> json \<Rightarrow> string \<Rightarrow> u64 option" where
  "uint64_field L j field =
     (case json_find j field of
        None \<Rightarrow> None
      | Some v \<Rightarrow> (case JsonValueAs_uint64 L v of (r, d) \<Rightarrow> if d \<noteq> OK then None else Some (the r)))"

definition parseConfiguration :: "json_lib \<Rightarrow> string \<Rightarrow> rate_limit_root \<Rightarrow> bool \<times> rate_limit_root" where
  "parseConfiguration L configuration_data root =
     (case JsonParse L configuration_data of None \<Rightarrow> (False, root) | Some j \<Rightarrow>
      case uint64_field L j ''max_tokens'' of None \<Rightarrow> (False, root) | Some m \<Rightarrow>
      let root = root\<lparr>max_tokens := m\<rparr> in
      case uint64_field L j ''tokens_per_refill'' of None \<Rightarrow> (False, root) | Some n \<Rightarrow>
      let root = root\<lparr>tokens_per_refill := n\<rparr> in
      case uint64_field L j ''refill_interval_sec'' of None \<Rightarrow> (False, root) | Some s \<Rightarrow>
      (True, root\<lparr>refill_interval_nanosec := s * 1000000000\<rparr>))"

text \<open>The tick period is passed as a 32-bit number.\<close>

definition onConfigure :: "json_lib \<Rightarrow> string \<Rightarrow> rate_limit_root \<Rightarrow> (bool \<times> rate_limit_root) prog" where
  "onConfigure L configuration_data root =
     (case parseConfiguration L configuration_data root of (ok, root) \<Rightarrow>
        if \<not> ok then Return (False, root)
        else bind_prog (initializeTokenBucket (tokens_per_refill root)) (\<lambda>ok.
          if \<not> ok then Return (False, root)
          else Act (SetTickPeriodMilliseconds (ucast (refill_interval_nanosec root div 1000000)))
                 (Return (True, root))))"

definition onTick :: "nat \<Rightarrow> rate_limit_root \<Rightarrow> unit prog" where
  "onTick fuel root =
     refillToken fuel (tokens_per_refill root) (refill_interval_nanosec root) (max_tokens root)"

definition limit_request :: "bool \<Rightarrow> FilterHeadersStatus prog" where
  "limit_request token = (if \<not> token then Act tooManyRequest (Return StopIteration) else Return Continue)"

definition onRequestHeaders :: "FilterHeadersStatus prog" where
  "onRequestHeaders =
     (if shouldRateLimit then bind_prog getToken limit_request else Return Continue)"

section \<open>The VMs and their shared bucket\<close>

text \<open>
  Each VM runs its handlers to the end, one at a time, while the others run theirs: the host calls
  of all running handlers interleave. \<open>since\<close> is the version of the bucket when the handler
  started; \<open>token_taken\<close> and \<open>refill_owed\<close> record what its writes did: they, and \<open>refill_times\<close>, are
  not part of the code's state and only observe it. \<open>refill_times\<close> lists the times of the last
  refill that were written, after the initial one.
\<close>

record request =
  request_code :: "FilterHeadersStatus prog"
  token_taken :: bool
  request_since :: nat

record tick =
  tick_code :: "unit prog"
  refill_owed :: bool
  tick_since :: nat
  tick_fuel :: nat

record 'w system =
  world :: 'w
  requests :: "request list"
  ticks :: "tick list"
  refill_times :: "u64 list"

definition record_refill :: "string \<Rightarrow> bytes \<Rightarrow> WasmResult \<Rightarrow> u64 list \<Rightarrow> u64 list" where
  "record_refill k d r ts =
     (if k = localRateLimitLastRefilled \<and> r = Ok
      then case read_u64 d of Inr t \<Rightarrow> ts @ [t] | Inl _ \<Rightarrow> ts else ts)"

definition update_owed :: "string \<Rightarrow> WasmResult \<Rightarrow> bool \<Rightarrow> bool" where
  "update_owed k r owed = (if r \<noteq> Ok then owed else k = localRateLimitLastRefilled)"

inductive vm_step ::
  "('w \<Rightarrow> string \<Rightarrow> WasmResult \<times> bytes \<times> u32) \<Rightarrow> ('w \<Rightarrow> string \<Rightarrow> bytes \<Rightarrow> u32 \<Rightarrow> WasmResult \<times> 'w) \<Rightarrow>
     ('w \<Rightarrow> string \<Rightarrow> nat) \<Rightarrow> rate_limit_root \<Rightarrow> 'w system \<Rightarrow> 'w system \<Rightarrow> bool"
  for sd_get sd_set stamp root where
  arrive:
    "vm_step sd_get sd_set stamp root s
       (s\<lparr>requests := requests s @ [\<lparr>request_code = onRequestHeaders, token_taken = False,
            request_since = stamp (world s) localRateLimitTokenBucket\<rparr>]\<rparr>)"
| tick:
    "vm_step sd_get sd_set stamp root s
       (s\<lparr>ticks := ticks s @ [\<lparr>tick_code = onTick fuel root, refill_owed = False,
            tick_since = stamp (world s) localRateLimitTokenBucket, tick_fuel = fuel\<rparr>]\<rparr>)"
| request_get:
    "i < length (requests s) \<Longrightarrow> request_code (requests s ! i) = GetSharedData k c \<Longrightarrow>
     vm_step sd_get sd_set stamp root s
       (s\<lparr>requests := (requests s)[i := (requests s ! i)\<lparr>request_code := c (sd_get (world s) k)\<rparr>]\<rparr>)"
| request_set:
    "i < length (requests s) \<Longrightarrow> request_code (requests s ! i) = SetSharedData k d cas c \<Longrightarrow>
     sd_set (world s) k d cas = (r, w') \<Longrightarrow>
     vm_step sd_get sd_set stamp root s
       (s\<lparr>world := w', requests := (requests s)[i := (requests s ! i)\<lparr>request_code := c r,
            token_taken := token_taken (requests s ! i) \<or> r = Ok\<rparr>]\<rparr>)"
| request_act:
    "i < length (requests s) \<Longrightarrow> request_code (requests s ! i) = Act a p \<Longrightarrow>
     vm_step sd_get sd_set stamp root s
       (s\<lparr>requests := (requests s)[i := (requests s ! i)\<lparr>request_code := p\<rparr>]\<rparr>)"
| tick_get:
    "i < length (ticks s) \<Longrightarrow> tick_code (ticks s ! i) = GetSharedData k c \<Longrightarrow>
     vm_step sd_get sd_set stamp root s
       (s\<lparr>ticks := (ticks s)[i := (ticks s ! i)\<lparr>tick_code := c (sd_get (world s) k)\<rparr>]\<rparr>)"
| tick_clock:
    "i < length (ticks s) \<Longrightarrow> tick_code (ticks s ! i) = GetCurrentTimeNanoseconds c \<Longrightarrow>
     vm_step sd_get sd_set stamp root s
       (s\<lparr>ticks := (ticks s)[i := (ticks s ! i)\<lparr>tick_code := c now\<rparr>]\<rparr>)"
| tick_set:
    "i < length (ticks s) \<Longrightarrow> tick_code (ticks s ! i) = SetSharedData k d cas c \<Longrightarrow>
     sd_set (world s) k d cas = (r, w') \<Longrightarrow>
     vm_step sd_get sd_set stamp root s
       (s\<lparr>world := w', ticks := (ticks s)[i := (ticks s ! i)\<lparr>tick_code := c r,
            refill_owed := update_owed k r (refill_owed (ticks s ! i))\<rparr>],
          refill_times := record_refill k d r (refill_times s)\<rparr>)"

text \<open>The bucket is initialised and no handler runs yet.\<close>

definition initial_system :: "'w \<Rightarrow> u64 \<Rightarrow> 'w system" where
  "initial_system w l = \<lparr>world = w, requests = [], ticks = [], refill_times = [l]\<rparr>"

definition taken :: "'w system \<Rightarrow> nat" where
  "taken s = length (filter token_taken (requests s))"

definition owed :: "'w system \<Rightarrow> nat" where
  "owed s = length (filter refill_owed (ticks s))"

definition let_through :: "request \<Rightarrow> bool" where
  "let_through q = (case request_code q of Return Continue \<Rightarrow> True | _ \<Rightarrow> False)"

section \<open>The states of a running handler\<close>

lemma length_filter_update:
  "i < length xs \<Longrightarrow>
   length (filter P (xs[i := x])) + (if P (xs ! i) then 1 else 0) =
   length (filter P xs) + (if P x then 1 else 0)"
proof (induction xs arbitrary: i)
  case (Cons y ys)
  then show ?case by (cases i) auto
qed simp

lemma ball_update:
  "\<forall>y \<in> set xs. P y \<Longrightarrow> P x \<Longrightarrow> \<forall>y \<in> set (xs[i := x]). P y"
  using set_update_subset_insert [of xs i x] by blast

text \<open>What a request does after its write, and a tick after each of its two writes.\<close>

definition after_take :: "nat \<Rightarrow> WasmResult \<Rightarrow> FilterHeadersStatus prog" where
  "after_take n res = bind_prog (case res of Ok \<Rightarrow> Return True | CasMismatch \<Rightarrow> getToken_loop n
     | Failure _ \<Rightarrow> Return False) limit_request"

definition after_claim :: "nat \<Rightarrow> rate_limit_root \<Rightarrow> WasmResult \<Rightarrow> unit prog" where
  "after_claim fuel root res = (case res of CasMismatch \<Rightarrow> Return ()
     | Ok \<Rightarrow> refill_loop fuel (tokens_per_refill root) (max_tokens root) | Failure _ \<Rightarrow> Return ())"

definition after_refill :: "nat \<Rightarrow> rate_limit_root \<Rightarrow> WasmResult \<Rightarrow> unit prog" where
  "after_refill fuel root res = (case res of
     CasMismatch \<Rightarrow> refill_loop fuel (tokens_per_refill root) (max_tokens root)
     | Ok \<Rightarrow> Return () | Failure _ \<Rightarrow> Return ())"

context shared_data
begin

inductive request_ok :: "'w \<Rightarrow> request \<Rightarrow> bool" for w where
  asking:
    "n \<le> 20 \<Longrightarrow> since + (20 - n) \<le> stamp w localRateLimitTokenBucket \<Longrightarrow>
     request_ok w \<lparr>request_code = bind_prog (getToken_loop n) limit_request, token_taken = False,
       request_since = since\<rparr>"
| taking:
    "n < 20 \<Longrightarrow> t \<noteq> 0 \<Longrightarrow>
     snapshot w localRateLimitTokenBucket (u64_bytes t) cas (since + (20 - Suc n)) \<Longrightarrow>
     request_ok w \<lparr>request_code =
         SetSharedData localRateLimitTokenBucket (u64_bytes (t - 1)) cas (after_take n),
       token_taken = False, request_since = since\<rparr>"
| granted:
    "request_ok w \<lparr>request_code = Return Continue, token_taken = True, request_since = since\<rparr>"
| denied:
    "p \<in> {Act tooManyRequest (Return StopIteration), Return StopIteration} \<Longrightarrow>
     request_ok w \<lparr>request_code = p, token_taken = False, request_since = since\<rparr>"

inductive tick_ok :: "rate_limit_root \<Rightarrow> 'w \<Rightarrow> tick \<Rightarrow> bool" for root w where
  started:
    "since \<le> stamp w localRateLimitTokenBucket \<Longrightarrow>
     tick_ok root w \<lparr>tick_code = onTick fuel root, refill_owed = False, tick_since = since,
       tick_fuel = fuel\<rparr>"
| timing:
    "since \<le> stamp w localRateLimitTokenBucket \<Longrightarrow>
     snapshot w localRateLimitLastRefilled (u64_bytes l) cas 0 \<Longrightarrow>
     tick_ok root w \<lparr>tick_code = GetCurrentTimeNanoseconds (\<lambda>now.
         if now - l < refill_interval_nanosec root then Return ()
         else SetSharedData localRateLimitLastRefilled (u64_bytes now) cas (after_claim fuel root)),
       refill_owed = False, tick_since = since, tick_fuel = fuel\<rparr>"
| claiming:
    "since \<le> stamp w localRateLimitTokenBucket \<Longrightarrow>
     snapshot w localRateLimitLastRefilled (u64_bytes l) cas 0 \<Longrightarrow>
     refill_interval_nanosec root \<le> now - l \<Longrightarrow>
     tick_ok root w \<lparr>tick_code =
         SetSharedData localRateLimitLastRefilled (u64_bytes now) cas (after_claim fuel root),
       refill_owed = False, tick_since = since, tick_fuel = fuel\<rparr>"
| reading:
    "n \<le> fuel \<Longrightarrow> since + (fuel - n) \<le> stamp w localRateLimitTokenBucket \<Longrightarrow>
     tick_ok root w \<lparr>tick_code = refill_loop n (tokens_per_refill root) (max_tokens root),
       refill_owed = True, tick_since = since, tick_fuel = fuel\<rparr>"
| refilling:
    "n < fuel \<Longrightarrow>
     snapshot w localRateLimitTokenBucket (u64_bytes t) cas (since + (fuel - Suc n)) \<Longrightarrow>
     tick_ok root w \<lparr>tick_code =
         SetSharedData localRateLimitTokenBucket
           (u64_bytes (refilled (tokens_per_refill root) (max_tokens root) t)) cas (after_refill n root),
       refill_owed = True, tick_since = since, tick_fuel = fuel\<rparr>"
| ended:
    "tick_ok root w \<lparr>tick_code = Return (), refill_owed = owes, tick_since = since, tick_fuel = fuel\<rparr>"

lemma request_ok_set:
  assumes "request_ok w q" "sd_set w k d c = (r, w')"
  shows "request_ok w' q"
  using assms(1)
proof induction
  case (asking n since)
  with stamp_mono [OF assms(2), of localRateLimitTokenBucket] show ?case
    by (intro request_ok.asking) auto
next
  case (taking n t cas since)
  with snapshot_set [OF taking(3) assms(2)] show ?case by (intro request_ok.taking)
qed (auto intro: request_ok.granted request_ok.denied)

lemma tick_ok_set:
  assumes "tick_ok root w k" "sd_set w k' d c = (r, w')"
  shows "tick_ok root w' k"
  using assms(1)
proof induction
  case (reading n fuel since)
  with stamp_mono [OF assms(2), of localRateLimitTokenBucket] show ?case
    by (intro tick_ok.reading) auto
next
  case (refilling n fuel t cas since)
  with snapshot_set [OF refilling(2) assms(2)] show ?case by (intro tick_ok.refilling)
next
  case (started since fuel)
  with stamp_mono [OF assms(2), of localRateLimitTokenBucket] show ?case
    by (intro tick_ok.started) auto
next
  case (timing since l cas fuel)
  with stamp_mono [OF assms(2), of localRateLimitTokenBucket] snapshot_set [OF timing(2) assms(2)]
  show ?case by (intro tick_ok.timing) auto
next
  case (claiming since l cas now fuel)
  with stamp_mono [OF assms(2), of localRateLimitTokenBucket] snapshot_set [OF claiming(2) assms(2)]
  show ?case by (intro tick_ok.claiming) auto
qed (rule tick_ok.ended)

lemma request_ok_get:
  assumes "request_ok w q" "request_code q = GetSharedData k c" "holds w localRateLimitTokenBucket t"
  shows "request_ok w (q\<lparr>request_code := c (sd_get w k)\<rparr>)"
  using assms(1)
proof cases
  case (asking n since)
  with assms(2) obtain m where n: "n = Suc m" by (cases n) (auto simp: limit_request_def)
  obtain cas where get: "sd_get w localRateLimitTokenBucket = (Ok, u64_bytes t, cas)"
    using assms(3) by (auto simp: holds_def)
  show ?thesis
  proof (cases "t = 0")
    case True
    with asking n get assms(2) show ?thesis by (auto simp: limit_request_def intro: request_ok.denied)
  next
    case False
    have "snapshot w localRateLimitTokenBucket (u64_bytes t) cas (since + (20 - Suc m))"
      using get asking n by (intro snapshot_get) auto
    from request_ok.taking [OF _ False this] asking n get assms(2) False show ?thesis
      by (auto simp: after_take_def [abs_def])
  qed
qed (use assms(2) in auto)

lemma request_ok_write:
  assumes "request_ok w q" "request_code q = SetSharedData k d cas c"
    and "sd_set w k d cas = (r, w')" "holds w localRateLimitTokenBucket t"
  shows "k = localRateLimitTokenBucket \<and> \<not> token_taken q \<and>
    (r = Ok \<longrightarrow> t \<noteq> 0 \<and> holds w' localRateLimitTokenBucket (t - 1)) \<and>
    request_ok w' (q\<lparr>request_code := c r, token_taken := token_taken q \<or> r = Ok\<rparr>)"
  using assms(1)
proof cases
  case (asking n since)
  then show ?thesis
    using assms(2) by (cases n) (auto simp: limit_request_def)
next
  case (taking n t' cas' since)
  with assms(2) have eqs: "k = localRateLimitTokenBucket" "d = u64_bytes (t' - 1)" "cas' = cas"
    "c = after_take n" by auto
  show ?thesis
  proof (cases r)
    case Ok
    with assms(3,4) taking eqs have "t' = t"
      using set_ok_snapshot [OF taking(4), of "u64_bytes (t' - 1)" w'] by (auto simp: holds_def u64_bytes_inject)
    with Ok assms(3) taking eqs show ?thesis
      by (auto simp: after_take_def limit_request_def intro: holds_set_ok request_ok.granted)
  next
    case CasMismatch
    with assms(3) eqs have "Suc (since + (20 - Suc n)) \<le> stamp w localRateLimitTokenBucket"
      using mismatch_overtaken [OF taking(4)] by simp
    also have "\<dots> \<le> stamp w' localRateLimitTokenBucket" using assms(3) by (rule stamp_mono)
    finally have "request_ok w' \<lparr>request_code = bind_prog (getToken_loop n) limit_request,
        token_taken = False, request_since = since\<rparr>"
      using taking(2) by (intro request_ok.asking) auto
    with CasMismatch taking eqs show ?thesis by (simp add: after_take_def)
  next
    case (Failure x)
    with taking eqs show ?thesis
      by (auto simp: after_take_def limit_request_def intro: request_ok.denied)
  qed
qed (use assms(2) in auto)

lemma request_ok_act:
  assumes "request_ok w q" "request_code q = Act a p"
  shows "request_ok w (q\<lparr>request_code := p\<rparr>)"
  using assms(1)
proof cases
  case (asking n since)
  then show ?thesis using assms(2) by (cases n) (auto simp: limit_request_def)
qed (use assms(2) in \<open>auto intro: request_ok.denied\<close>)

lemma tick_ok_get:
  assumes "tick_ok root w k" "tick_code k = GetSharedData key c"
    and "holds w localRateLimitTokenBucket t" "holds w localRateLimitLastRefilled l"
  shows "tick_ok root w (k\<lparr>tick_code := c (sd_get w key)\<rparr>)"
  using assms(1)
proof cases
  case (started since fuel)
  obtain cas where get: "sd_get w localRateLimitLastRefilled = (Ok, u64_bytes l, cas)"
    using assms(4) by (auto simp: holds_def)
  from tick_ok.timing [OF started(2) snapshot_get [OF get], of root fuel] started assms(2) get
  show ?thesis unfolding after_claim_def [abs_def] by (auto simp: onTick_def refillToken_def)
next
  case (reading n fuel since)
  with assms(2) obtain m where n: "n = Suc m" by (cases n) auto
  obtain cas where get: "sd_get w localRateLimitTokenBucket = (Ok, u64_bytes t, cas)"
    using assms(3) by (auto simp: holds_def)
  have "snapshot w localRateLimitTokenBucket (u64_bytes t) cas (since + (fuel - Suc m))"
    using get reading n by (intro snapshot_get) auto
  from tick_ok.refilling [OF _ this] reading n get assms(2) show ?thesis
    by (auto simp: after_refill_def [abs_def] Let_def refilled_eq)
qed (use assms(2) in auto)

lemma tick_ok_clock:
  assumes "tick_ok root w k" "tick_code k = GetCurrentTimeNanoseconds c"
  shows "tick_ok root w (k\<lparr>tick_code := c now\<rparr>)"
  using assms(1)
proof cases
  case (started since fuel)
  then show ?thesis using assms(2) by (simp add: onTick_def refillToken_def)
next
  case (timing since l cas fuel)
  then show ?thesis
    using assms(2) by (auto simp: not_less intro: tick_ok.ended tick_ok.claiming)
next
  case (reading n fuel since)
  then show ?thesis using assms(2) by (cases n) auto
qed (use assms(2) in auto)

lemma tick_ok_write:
  assumes "tick_ok root w k" "tick_code k = SetSharedData key d cas c"
    and "sd_set w key d cas = (r, w')"
    and "holds w localRateLimitTokenBucket t" "holds w localRateLimitLastRefilled l"
  shows "tick_ok root w' (k\<lparr>tick_code := c r, refill_owed := update_owed key r (refill_owed k)\<rparr>) \<and>
    (key = localRateLimitLastRefilled \<and> \<not> refill_owed k \<and>
       (\<exists>now. d = u64_bytes now \<and> (r = Ok \<longrightarrow> refill_interval_nanosec root \<le> now - l)) \<or>
     key = localRateLimitTokenBucket \<and> refill_owed k \<and>
       (r = Ok \<longrightarrow> d = u64_bytes (refilled (tokens_per_refill root) (max_tokens root) t)))"
  using assms(1)
proof cases
  case (started since fuel)
  then show ?thesis using assms(2) by (simp add: onTick_def refillToken_def)
next
  case (claiming since l' cas' now fuel)
  with assms(2) have eqs: "key = localRateLimitLastRefilled" "d = u64_bytes now" "cas' = cas"
    "c = after_claim fuel root" by auto
  have "l' = l" if "r = Ok"
    using set_ok_snapshot [OF claiming(3), of "u64_bytes now" w'] assms(3,5) eqs that
    by (auto simp: holds_def u64_bytes_inject)
  moreover have "since \<le> stamp w' localRateLimitTokenBucket"
    using claiming(2) stamp_mono [OF assms(3)] by (rule order_trans)
  ultimately show ?thesis
    using claiming eqs tick_ok.reading [of fuel fuel since w' root]
    by (cases r) (auto simp: after_claim_def update_owed_def intro: tick_ok.ended)
next
  case (reading n fuel since)
  then show ?thesis using assms(2) by (cases n) auto
next
  case (refilling n fuel t' cas' since)
  with assms(2) have eqs: "key = localRateLimitTokenBucket" "cas' = cas" "c = after_refill n root"
    "d = u64_bytes (refilled (tokens_per_refill root) (max_tokens root) t')" by auto
  have "t' = t" if "r = Ok"
    using set_ok_snapshot [OF refilling(3), of d w'] assms(3,4) eqs that
    by (auto simp: holds_def u64_bytes_inject)
  moreover have "since + (fuel - n) \<le> stamp w' localRateLimitTokenBucket" if "r = CasMismatch"
  proof -
    have "Suc (since + (fuel - Suc n)) \<le> stamp w localRateLimitTokenBucket"
      using mismatch_overtaken [OF refilling(3)] assms(3) eqs that by simp
    also have "\<dots> \<le> stamp w' localRateLimitTokenBucket" using assms(3) by (rule stamp_mono)
    finally show ?thesis using refilling(2) by simp
  qed
  ultimately show ?thesis
    using refilling eqs tick_ok.reading [of n fuel since w' root]
    by (cases r) (auto simp: after_refill_def update_owed_def intro: tick_ok.ended)
qed (use assms(2) in auto)

section \<open>The invariant\<close>

text \<open>
  \<open>accounting\<close>: the tokens in the bucket, those taken and those owed by ticks that have claimed a
  refill are covered by the initial tokens and the refills; refills are an interval apart.
\<close>

definition accounting :: "rate_limit_root \<Rightarrow> u64 \<Rightarrow> 'w system \<Rightarrow> u64 \<Rightarrow> bool" where
  "accounting root t0 s t \<longleftrightarrow>
     unat t + taken s + unat (tokens_per_refill root) * owed s \<le>
       unat t0 + unat (tokens_per_refill root) * (length (refill_times s) - 1) \<and>
     t \<le> max t0 (max_tokens root) \<and>
     successively (\<lambda>a b. refill_interval_nanosec root \<le> b - a) (refill_times s)"

definition system_ok :: "rate_limit_root \<Rightarrow> u64 \<Rightarrow> 'w system \<Rightarrow> bool" where
  "system_ok root t0 s \<longleftrightarrow>
     (\<forall>q \<in> set (requests s). request_ok (world s) q) \<and>
     (\<forall>k \<in> set (ticks s). tick_ok root (world s) k) \<and>
     refill_times s \<noteq> [] \<and> holds (world s) localRateLimitLastRefilled (last (refill_times s)) \<and>
     (\<exists>t. holds (world s) localRateLimitTokenBucket t \<and> accounting root t0 s t)"

lemma system_okE:
  assumes "system_ok root t0 s"
  obtains t where "\<forall>q \<in> set (requests s). request_ok (world s) q"
    "\<forall>k \<in> set (ticks s). tick_ok root (world s) k"
    "refill_times s \<noteq> []" "holds (world s) localRateLimitLastRefilled (last (refill_times s))"
    "holds (world s) localRateLimitTokenBucket t" "accounting root t0 s t"
  using assms by (auto simp: system_ok_def)

lemma taken_update:
  "i < length (requests s) \<Longrightarrow>
   taken (s\<lparr>requests := (requests s)[i := q]\<rparr>) + (if token_taken (requests s ! i) then 1 else 0) =
   taken s + (if token_taken q then 1 else 0)"
  using length_filter_update [of i "requests s" token_taken q] by (simp add: taken_def)

lemma owed_update:
  "i < length (ticks s) \<Longrightarrow>
   owed (s\<lparr>ticks := (ticks s)[i := k]\<rparr>) + (if refill_owed (ticks s ! i) then 1 else 0) =
   owed s + (if refill_owed k then 1 else 0)"
  using length_filter_update [of i "ticks s" refill_owed k] by (simp add: owed_def)

lemma requests_update:
  assumes "system_ok root t0 s" "i < length (requests s)"
    and "request_ok (world s) q" "token_taken q = token_taken (requests s ! i)"
  shows "system_ok root t0 (s\<lparr>requests := (requests s)[i := q]\<rparr>)"
proof -
  have "taken (s\<lparr>requests := (requests s)[i := q]\<rparr>) = taken s"
    using taken_update [OF assms(2), of q] assms(4) by (simp split: if_splits)
  moreover have "\<forall>q \<in> set ((requests s)[i := q]). request_ok (world s) q"
    using assms(1,3) by (intro ball_update) (auto simp: system_ok_def)
  ultimately show ?thesis
    using assms(1) by (simp add: system_ok_def accounting_def owed_def)
qed

lemma ticks_update:
  assumes "system_ok root t0 s" "i < length (ticks s)"
    and "tick_ok root (world s) k" "refill_owed k = refill_owed (ticks s ! i)"
  shows "system_ok root t0 (s\<lparr>ticks := (ticks s)[i := k]\<rparr>)"
proof -
  have "owed (s\<lparr>ticks := (ticks s)[i := k]\<rparr>) = owed s"
    using owed_update [OF assms(2), of k] assms(4) by (simp split: if_splits)
  moreover have "\<forall>k \<in> set ((ticks s)[i := k]). tick_ok root (world s) k"
    using assms(1,3) by (intro ball_update) (auto simp: system_ok_def)
  ultimately show ?thesis
    using assms(1) by (simp add: system_ok_def accounting_def taken_def)
qed

lemma request_write_step:
  assumes "system_ok root t0 s" "i < length (requests s)"
    and "request_code (requests s ! i) = SetSharedData k d cas c" "sd_set (world s) k d cas = (r, w')"
  shows "system_ok root t0 (s\<lparr>world := w', requests := (requests s)[i := (requests s ! i)\<lparr>request_code := c r,
    token_taken := token_taken (requests s ! i) \<or> r = Ok\<rparr>]\<rparr>)" (is "system_ok root t0 (s\<lparr>world := w', requests := ?qs\<rparr>)")
proof -
  from assms(1) obtain t where ok: "\<forall>q \<in> set (requests s). request_ok (world s) q"
    "\<forall>k \<in> set (ticks s). tick_ok root (world s) k" "refill_times s \<noteq> []"
    "holds (world s) localRateLimitLastRefilled (last (refill_times s))"
    "holds (world s) localRateLimitTokenBucket t" "accounting root t0 s t" by (rule system_okE)
  from ok(1) assms(2) have "request_ok (world s) (requests s ! i)" by simp
  note written = request_ok_write [OF this assms(3,4) ok(5)]
  have "\<forall>q \<in> set ?qs. request_ok w' q"
    using written ok(1) request_ok_set [OF _ assms(4)] by (intro ball_update) auto
  moreover have "\<forall>k \<in> set (ticks s). tick_ok root w' k" using ok(2) tick_ok_set [OF _ assms(4)] by blast
  moreover have "holds w' localRateLimitLastRefilled (last (refill_times s))"
    using holds_set_other [OF assms(4), of localRateLimitLastRefilled] ok(4) written by simp
  moreover have "\<exists>t. holds w' localRateLimitTokenBucket t \<and> accounting root t0 (s\<lparr>world := w', requests := ?qs\<rparr>) t"
  proof (cases "r = Ok")
    case True
    with written have "t \<noteq> 0" "holds w' localRateLimitTokenBucket (t - 1)" by auto
    moreover have "unat (t - 1) = unat t - 1" "0 < unat t"
      using \<open>t \<noteq> 0\<close> by (auto simp: unat_gt_0 unat_minus_one)
    moreover have "taken (s\<lparr>world := w', requests := ?qs\<rparr>) = Suc (taken s)"
      using taken_update [OF assms(2), of "?qs ! i"] written True assms(2) by (simp add: taken_def)
    ultimately show ?thesis
      using ok(6) by (intro exI [of _ "t - 1"]) (auto simp: accounting_def owed_def le_max_iff_disj word_le_nat_alt)
  next
    case False
    have "taken (s\<lparr>world := w', requests := ?qs\<rparr>) = taken s"
      using taken_update [OF assms(2), of "?qs ! i"] written False assms(2) by (simp add: taken_def)
    with False show ?thesis
      using ok(5,6) holds_set_other [OF assms(4), of localRateLimitTokenBucket]
      by (auto simp: accounting_def owed_def)
  qed
  ultimately show ?thesis using ok(3) by (simp add: system_ok_def)
qed

lemma accounting_claim:
  assumes "accounting root t0 s t" "refill_times s \<noteq> []" "taken s' = taken s" "owed s' = Suc (owed s)"
    and "refill_times s' = refill_times s @ [now]"
    and "refill_interval_nanosec root \<le> now - last (refill_times s)"
  shows "accounting root t0 s' t"
proof -
  have "length (refill_times s) - Suc 0 + 1 = length (refill_times s)"
    using assms(2) by (cases "refill_times s") auto
  then have "unat n * length (refill_times s) = unat n * (length (refill_times s) - Suc 0) + unat n" for n :: u64
    by (metis add_mult_distrib2 mult.right_neutral)
  with assms show ?thesis
    by (auto simp: accounting_def successively_append_iff)
qed

lemma accounting_refill:
  assumes "accounting root t0 s t" "taken s' = taken s" "Suc (owed s') = owed s"
    and "refill_times s' = refill_times s"
  shows "accounting root t0 s' (refilled (tokens_per_refill root) (max_tokens root) t)"
proof -
  have "unat (tokens_per_refill root) * owed s =
      unat (tokens_per_refill root) * owed s' + unat (tokens_per_refill root)"
    by (simp flip: assms(3))
  with assms(1,2,4) refilled_le [of "tokens_per_refill root" "max_tokens root" t] show ?thesis
    unfolding accounting_def le_max_iff_disj by auto
qed

lemma tick_write_step:
  assumes "system_ok root t0 s" "i < length (ticks s)"
    and "tick_code (ticks s ! i) = SetSharedData k d cas c" "sd_set (world s) k d cas = (r, w')"
  shows "system_ok root t0 (s\<lparr>world := w', ticks := (ticks s)[i := (ticks s ! i)\<lparr>tick_code := c r,
      refill_owed := update_owed k r (refill_owed (ticks s ! i))\<rparr>],
    refill_times := record_refill k d r (refill_times s)\<rparr>)"
    (is "system_ok root t0 (s\<lparr>world := w', ticks := ?ks, refill_times := ?ts\<rparr>)" is "system_ok root t0 ?s'")
proof -
  from assms(1) obtain t where ok: "\<forall>q \<in> set (requests s). request_ok (world s) q"
    "\<forall>k \<in> set (ticks s). tick_ok root (world s) k" "refill_times s \<noteq> []"
    "holds (world s) localRateLimitLastRefilled (last (refill_times s))"
    "holds (world s) localRateLimitTokenBucket t" "accounting root t0 s t" by (rule system_okE)
  from ok(2) assms(2) have "tick_ok root (world s) (ticks s ! i)" by simp
  note written = tick_ok_write [OF this assms(3,4) ok(5,4)]
  have owed: "owed ?s' + (if refill_owed (ticks s ! i) then 1 else 0) =
      owed s + (if update_owed k r (refill_owed (ticks s ! i)) then 1 else 0)"
    using owed_update [OF assms(2), of "?ks ! i"] assms(2) by (simp add: owed_def)
  have "\<forall>q \<in> set (requests s). request_ok w' q" using ok(1) request_ok_set [OF _ assms(4)] by blast
  moreover have "\<forall>k \<in> set ?ks. tick_ok root w' k"
    using ok(2) tick_ok_set [OF _ assms(4)] conjunct1 [OF written] by (intro ball_update) blast+
  moreover have "?ts \<noteq> [] \<and> holds w' localRateLimitLastRefilled (last ?ts) \<and>
    (\<exists>t. holds w' localRateLimitTokenBucket t \<and> accounting root t0 ?s' t)"
  proof (cases "r = Ok")
    case False
    then have "owed ?s' = owed s" using owed by (auto simp: update_owed_def)
    moreover have "?ts = refill_times s" using False by (simp add: record_refill_def)
    moreover have "holds w' k' = holds (world s) k'" for k' using holds_set_other [OF assms(4)] False by simp
    moreover have "accounting root t0 ?s' t"
      using ok(6) calculation(1,2) by (simp add: accounting_def taken_def)
    ultimately show ?thesis using ok(3-5) by auto
  next
    case True
    from written consider
        (claim) now where "k = localRateLimitLastRefilled" "\<not> refill_owed (ticks s ! i)" "d = u64_bytes now"
          "refill_interval_nanosec root \<le> now - last (refill_times s)"
      | (refill) "k = localRateLimitTokenBucket" "refill_owed (ticks s ! i)"
          "d = u64_bytes (refilled (tokens_per_refill root) (max_tokens root) t)"
      using True by auto
    then show ?thesis
    proof cases
      case claim
      have "owed ?s' = Suc (owed s)" "?ts = refill_times s @ [now]"
        using owed claim True by (simp_all add: update_owed_def record_refill_def)
      moreover from this have "accounting root t0 ?s' t"
        using claim by (intro accounting_claim [OF ok(6,3)]) (simp_all add: taken_def)
      moreover have "holds w' localRateLimitLastRefilled now"
        using holds_set_ok True claim(1,3) assms(4) by blast
      moreover have "holds w' localRateLimitTokenBucket t"
        using ok(5) claim(1) holds_set_other [OF assms(4), of localRateLimitTokenBucket] by simp
      ultimately show ?thesis by auto
    next
      case refill
      have "Suc (owed ?s') = owed s" "?ts = refill_times s"
        using owed refill True by (simp_all add: update_owed_def record_refill_def)
      moreover from this have "accounting root t0 ?s' (refilled (tokens_per_refill root) (max_tokens root) t)"
        by (intro accounting_refill [OF ok(6)]) (simp_all add: taken_def)
      moreover have "holds w' localRateLimitTokenBucket (refilled (tokens_per_refill root) (max_tokens root) t)"
        using holds_set_ok True refill(1,3) assms(4) by blast
      moreover have "holds w' localRateLimitLastRefilled (last (refill_times s))"
        using ok(4) refill(1) holds_set_other [OF assms(4), of localRateLimitLastRefilled] by simp
      ultimately show ?thesis using ok(3) by auto
    qed
  qed
  ultimately show ?thesis by (simp add: system_ok_def)
qed

lemma step_system_ok:
  assumes "vm_step sd_get sd_set stamp root s s'" "system_ok root t0 s"
  shows "system_ok root t0 s'"
  using assms(1)
proof cases
  case arrive
  have "request_ok (world s) \<lparr>request_code = onRequestHeaders, token_taken = False,
      request_since = stamp (world s) localRateLimitTokenBucket\<rparr>"
    using request_ok.asking [of 20 "stamp (world s) localRateLimitTokenBucket" "world s"]
    by (simp add: onRequestHeaders_def shouldRateLimit_def getToken_def maxGetTokenRetry_def del: getToken_loop.simps)
  with arrive assms(2) show ?thesis by (auto simp: system_ok_def accounting_def taken_def owed_def)
next
  case (tick fuel)
  then show ?thesis
    using assms(2) tick_ok.started [of "stamp (world s) localRateLimitTokenBucket" "world s" root fuel]
    by (auto simp: system_ok_def accounting_def taken_def owed_def)
next
  case (request_get i k c)
  from assms(2) obtain t where ok: "\<forall>q \<in> set (requests s). request_ok (world s) q"
    "holds (world s) localRateLimitTokenBucket t" by (rule system_okE)
  from request_get ok show ?thesis
    by (auto intro!: requests_update [OF assms(2)] request_ok_get)
next
  case (request_set i k d cas c r w')
  then show ?thesis using request_write_step [OF assms(2)] by simp
next
  case (request_act i a p)
  from assms(2) obtain t where ok: "\<forall>q \<in> set (requests s). request_ok (world s) q"
    by (rule system_okE)
  from request_act ok show ?thesis
    by (auto intro!: requests_update [OF assms(2)] request_ok_act)
next
  case (tick_get i k c)
  from assms(2) obtain t where ok: "\<forall>k \<in> set (ticks s). tick_ok root (world s) k"
    "holds (world s) localRateLimitLastRefilled (last (refill_times s))"
    "holds (world s) localRateLimitTokenBucket t" by (rule system_okE)
  from tick_get ok show ?thesis
    by (auto intro!: ticks_update [OF assms(2)] tick_ok_get)
next
  case (tick_clock i c now)
  from assms(2) obtain t where ok: "\<forall>k \<in> set (ticks s). tick_ok root (world s) k"
    by (rule system_okE)
  from tick_clock ok show ?thesis
    by (auto intro!: ticks_update [OF assms(2)] tick_ok_clock)
next
  case (tick_set i k d cas c r w')
  then show ?thesis using tick_write_step [OF assms(2)] by simp
qed

lemma reachable_system_ok:
  assumes "(vm_step sd_get sd_set stamp root)\<^sup>*\<^sup>* (initial_system w l) s"
    and "holds w localRateLimitTokenBucket t0" "holds w localRateLimitLastRefilled l"
  shows "system_ok root t0 s"
  using assms(1)
proof induction
  case base
  with assms(2,3) show ?case
    by (auto simp: system_ok_def accounting_def initial_system_def taken_def owed_def)
qed (rule step_system_ok)

end

section \<open>What the running handlers can do\<close>

context shared_data
begin

lemma request_ok_outcome:
  assumes "request_ok w q"
  shows "request_code q \<noteq> Undefined e \<and> request_code q \<noteq> OutOfFuel \<and>
    (let_through q \<longrightarrow> token_taken q \<or> request_since q + 20 \<le> stamp w localRateLimitTokenBucket) \<and>
    (token_taken q \<longrightarrow> request_code q = Return Continue)"
  using assms
proof cases
  case (asking n since)
  then show ?thesis by (cases n) (simp_all add: limit_request_def let_through_def)
qed (auto simp: let_through_def)

lemma tick_ok_outcome:
  assumes "tick_ok root w k"
  shows "tick_code k \<noteq> Undefined e \<and>
    (tick_code k = OutOfFuel \<longrightarrow> tick_since k + tick_fuel k \<le> stamp w localRateLimitTokenBucket)"
  using assms
proof cases
  case (reading n fuel since)
  then show ?thesis by (cases n) simp_all
qed (simp_all add: onTick_def refillToken_def)

lemma reachable_facts:
  assumes "(vm_step sd_get sd_set stamp root)\<^sup>*\<^sup>* (initial_system w l) s"
    and "sd_get w localRateLimitTokenBucket = (Ok, u64_bytes t0, c)"
    and "sd_get w localRateLimitLastRefilled = (Ok, u64_bytes l, cl)"
  shows "\<exists>t c. sd_get (world s) localRateLimitTokenBucket = (Ok, u64_bytes t, c) \<and>
      unat t + taken s + unat (tokens_per_refill root) * owed s \<le>
        unat t0 + unat (tokens_per_refill root) * (length (refill_times s) - 1) \<and>
      t \<le> max t0 (max_tokens root)"
    and "successively (\<lambda>a b. refill_interval_nanosec root \<le> b - a) (refill_times s)"
    and "\<forall>q \<in> set (requests s). request_ok (world s) q"
    and "\<forall>k \<in> set (ticks s). tick_ok root (world s) k"
proof -
  have "system_ok root t0 s"
    using assms by (intro reachable_system_ok) (auto simp: holds_def)
  then show "\<exists>t c. sd_get (world s) localRateLimitTokenBucket = (Ok, u64_bytes t, c) \<and>
      unat t + taken s + unat (tokens_per_refill root) * owed s \<le>
        unat t0 + unat (tokens_per_refill root) * (length (refill_times s) - 1) \<and>
      t \<le> max t0 (max_tokens root)"
    and "successively (\<lambda>a b. refill_interval_nanosec root \<le> b - a) (refill_times s)"
    and "\<forall>q \<in> set (requests s). request_ok (world s) q"
    and "\<forall>k \<in> set (ticks s). tick_ok root (world s) k"
    by (auto simp: system_ok_def accounting_def holds_def)
qed

end

text \<open>Refills an interval apart, at times that do not run backwards.\<close>

lemma spaced_times:
  assumes "successively (\<lambda>a b. iv \<le> b - a) ts" "sorted ts" "ts \<noteq> []"
  shows "(length ts - 1) * unat (iv :: u64) + unat (hd ts) \<le> unat (last ts)"
  using assms
proof (induction ts rule: induct_list012)
  case (3 a b ts)
  then have "unat (b - a) = unat b - unat a" "unat a \<le> unat b" "unat iv \<le> unat (b - a)"
    by (auto simp: unat_sub word_le_nat_alt)
  with 3 show ?case by auto
qed auto

lemma refills_bounded:
  assumes "successively (\<lambda>a b. iv \<le> b - a) (l # ts)" "sorted (l # ts)" "ts \<noteq> []" "(iv :: u64) \<noteq> 0"
  shows "length ts \<le> 1 + (unat (last ts) - unat (hd ts)) div unat iv"
proof -
  have "(length ts - 1) * unat iv \<le> unat (last ts) - unat (hd ts)"
    using spaced_times [of iv ts] assms by (cases ts) auto
  then have "length ts - 1 \<le> (unat (last ts) - unat (hd ts)) div unat iv"
    using assms(4) by (simp add: less_eq_div_iff_mult_less_eq unat_gt_0)
  then show ?thesis by simp
qed

section \<open>Properties of the rate limiter\<close>

text \<open>
  C2: however the handlers of the VMs interleave on a store with the documented compare-and-swap,
  tokens are conserved: the tokens left and the tokens taken never exceed the initial ones and
  \<open>tokens_per_refill\<close> for each refill that was claimed, and the bucket never exceeds the larger of
  its initial content and \<open>max_tokens\<close>. No update of one VM is lost by another.
\<close>

theorem token_conservation:
  assumes "shared_data sd_get sd_set stamp"
    and "sd_get w localRateLimitTokenBucket = (Ok, u64_bytes t0, c)"
    and "sd_get w localRateLimitLastRefilled = (Ok, u64_bytes l, cl)"
    and "(vm_step sd_get sd_set stamp root)\<^sup>*\<^sup>* (initial_system w l) s"
  shows "\<exists>t c. sd_get (world s) localRateLimitTokenBucket = (Ok, u64_bytes t, c) \<and>
    unat t + taken s \<le> unat t0 + unat (tokens_per_refill root) * (length (refill_times s) - 1) \<and>
    t \<le> max t0 (max_tokens root)"
  using shared_data.reachable_facts(1) [OF assms(1,4,2,3)] by fastforce

text \<open>
  A short run: a tick claims a refill, and a request takes a token.
\<close>

definition example_root :: rate_limit_root where
  "example_root = \<lparr>max_tokens = 6, tokens_per_refill = 5, refill_interval_nanosec = 10\<rparr>"

lemma example_store:
  "store_get (example_bucket l t) localRateLimitTokenBucket = (Ok, u64_bytes t, 1)"
  "store_get (example_bucket l t) localRateLimitLastRefilled = (Ok, u64_bytes l, 1)"
  by (simp_all add: example_bucket_def store_get_def)

lemma onTick_unfold:
  "onTick fuel root = GetSharedData localRateLimitLastRefilled (\<lambda>(r, d, cas).
     if r \<noteq> Ok then Return () else with_u64 d (\<lambda>l. GetCurrentTimeNanoseconds (\<lambda>now.
       if now - l < refill_interval_nanosec root then Return ()
       else SetSharedData localRateLimitLastRefilled (u64_bytes now) cas (after_claim fuel root))))"
  by (simp add: onTick_def refillToken_def after_claim_def [abs_def] cong: if_cong)

lemma onRequestHeaders_unfold:
  "onRequestHeaders = GetSharedData localRateLimitTokenBucket (\<lambda>r.
     bind_prog (case r of (result, d, cas) \<Rightarrow>
       if result \<noteq> Ok then Return False else with_u64 d (\<lambda>t. if t = 0 then Return False
         else SetSharedData localRateLimitTokenBucket (u64_bytes (t - 1)) cas (\<lambda>res. case res of
           Ok \<Rightarrow> Return True | CasMismatch \<Rightarrow> getToken_loop 19 | Failure _ \<Rightarrow> Return False))) limit_request)"
proof -
  have "(20 :: nat) = Suc 19" by simp
  then show ?thesis
    unfolding onRequestHeaders_def shouldRateLimit_def getToken_def maxGetTokenRetry_def
    by (simp only: if_True getToken_loop.simps bind_prog.simps)
qed

lemma example_run:
  "\<exists>s. (vm_step store_get store_set store_stamp example_root)\<^sup>*\<^sup>* (initial_system (example_bucket 30 4) 30) s \<and>
     refill_times s = [30, 50] \<and> taken s = 1 \<and>
     (\<exists>q k. requests s = [q] \<and> request_code q = Return Continue \<and> ticks s = [k] \<and>
        store_stamp (world s) localRateLimitTokenBucket < tick_since k + tick_fuel k)"
proof -
  let ?step = "vm_step store_get store_set store_stamp example_root"
  let ?w = "example_bucket 30 4"
  let ?k = "\<lambda>p owes. \<lparr>tick_code = p, refill_owed = owes, tick_since = 1, tick_fuel = 5\<rparr>"
  let ?q = "\<lambda>p got. \<lparr>request_code = p, token_taken = got, request_since = 1\<rparr>"
  let ?s = "\<lambda>w qs ks ts. \<lparr>world = w, requests = qs, ticks = ks, refill_times = ts\<rparr>"
  let ?claim = "\<lambda>now. SetSharedData localRateLimitLastRefilled (u64_bytes now) 1 (after_claim 5 example_root)"
  let ?clock = "GetCurrentTimeNanoseconds (\<lambda>now.
      if now - 30 < refill_interval_nanosec example_root then Return () else ?claim now)"
  let ?w1 = "?w(localRateLimitLastRefilled \<mapsto> (u64_bytes 50, Suc 1))"
  let ?w2 = "?w1(localRateLimitTokenBucket \<mapsto> (u64_bytes 3, Suc 1))"
  let ?loop = "after_claim 5 example_root Ok"
  let ?take = "SetSharedData localRateLimitTokenBucket (u64_bytes 3) 1 (after_take 19)"
  have "?step (initial_system ?w 30) (?s ?w [] [?k (onTick 5 example_root) False] [30])"
    using vm_step.tick [of store_get store_set store_stamp example_root "initial_system ?w 30" 5]
    by (simp add: initial_system_def store_stamp_def example_bucket_def)
  moreover have "?step (?s ?w [] [?k (onTick 5 example_root) False] [30]) (?s ?w [] [?k ?clock False] [30])"
    using vm_step.tick_get [of 0 "?s ?w [] [?k (onTick 5 example_root) False] [30]"
        localRateLimitLastRefilled _ store_get store_set store_stamp example_root]
    by (simp add: onTick_unfold example_store)
  moreover have "?step (?s ?w [] [?k ?clock False] [30]) (?s ?w [] [?k (?claim 50) False] [30])"
    using vm_step.tick_clock [of 0 "?s ?w [] [?k ?clock False] [30]" _ store_get store_set store_stamp example_root 50]
    by (simp add: example_root_def)
  moreover have "?step (?s ?w [] [?k (?claim 50) False] [30]) (?s ?w1 [] [?k ?loop True] [30, 50])"
    using vm_step.tick_set [of 0 "?s ?w [] [?k (?claim 50) False] [30]" localRateLimitLastRefilled "u64_bytes 50" 1
        "after_claim 5 example_root" store_set Ok ?w1 store_get store_stamp example_root]
    by (simp add: store_set_def example_bucket_def update_owed_def record_refill_def)
  moreover have "?step (?s ?w1 [] [?k ?loop True] [30, 50]) (?s ?w1 [?q onRequestHeaders False] [?k ?loop True] [30, 50])"
    using vm_step.arrive [of store_get store_set store_stamp example_root "?s ?w1 [] [?k ?loop True] [30, 50]"]
    by (simp add: store_stamp_def example_bucket_def)
  moreover have "?step (?s ?w1 [?q onRequestHeaders False] [?k ?loop True] [30, 50])
      (?s ?w1 [?q ?take False] [?k ?loop True] [30, 50])"
    using vm_step.request_get [of 0 "?s ?w1 [?q onRequestHeaders False] [?k ?loop True] [30, 50]"
        localRateLimitTokenBucket _ store_get store_set store_stamp example_root]
    by (simp add: onRequestHeaders_unfold store_get_def example_bucket_def after_take_def [abs_def])
  moreover have "?step (?s ?w1 [?q ?take False] [?k ?loop True] [30, 50])
      (?s ?w2 [?q (Return Continue) True] [?k ?loop True] [30, 50])"
    using vm_step.request_set [of 0 "?s ?w1 [?q ?take False] [?k ?loop True] [30, 50]"
        localRateLimitTokenBucket "u64_bytes 3" 1 "after_take 19" store_set Ok ?w2 store_get store_stamp example_root]
    by (simp add: store_set_def example_bucket_def after_take_def limit_request_def)
  ultimately have "?step\<^sup>*\<^sup>* (initial_system ?w 30) (?s ?w2 [?q (Return Continue) True] [?k ?loop True] [30, 50])"
    by (meson converse_rtranclp_into_rtranclp rtranclp.rtrancl_refl)
  then show ?thesis
    by (intro exI conjI) (auto simp: taken_def store_stamp_def example_bucket_def)
qed

theorem token_conservation_witness:
  "\<exists>s. (vm_step store_get store_set store_stamp example_root)\<^sup>*\<^sup>* (initial_system (example_bucket 30 4) 30) s \<and> taken s = 1 \<and> refill_times s = [30, 50] \<and>
     (\<exists>t c. store_get (world s) localRateLimitTokenBucket =
     (Ok, u64_bytes t, c) \<and> unat t + 1 \<le> 4 + 5 * 1 \<and> t \<le> 6)"
proof -
  obtain s where s: "(vm_step store_get store_set store_stamp example_root)\<^sup>*\<^sup>* (initial_system (example_bucket 30 4) 30) s"
    "refill_times s = [30, 50]" "taken s = 1"
    using example_run by blast
  have "unat (5 :: u64) = 5" "unat (4 :: u64) = 4" "max (4 :: u64) 6 = 6" by simp_all
  with token_conservation [OF versioned.shared_data_axioms example_store s(1)] s show ?thesis
    by (intro exI [of _ s]) (simp add: example_root_def)
qed

text \<open>
  C13: the rate is limited: while the clock the VMs read does not run backwards, the requests that
  were let through on a token are at most the initial tokens, the first refill, and one refill of
  \<open>tokens_per_refill\<close> for each interval between the first and the last refill, however many VMs
  there are and however they interleave.
\<close>

theorem rate_bound:
  assumes "shared_data sd_get sd_set stamp"
    and "sd_get w localRateLimitTokenBucket = (Ok, u64_bytes t0, c)"
    and "sd_get w localRateLimitLastRefilled = (Ok, u64_bytes l, cl)"
    and "(vm_step sd_get sd_set stamp root)\<^sup>*\<^sup>* (initial_system w l) s"
    and "refill_times s = l # ts" "ts \<noteq> []" "sorted (refill_times s)" "refill_interval_nanosec root \<noteq> 0"
  shows "taken s \<le> unat t0 + unat (tokens_per_refill root) *
    (1 + (unat (last ts) - unat (hd ts)) div unat (refill_interval_nanosec root))"
proof -
  have "length ts \<le> 1 + (unat (last ts) - unat (hd ts)) div unat (refill_interval_nanosec root)"
    using shared_data.reachable_facts(2) [OF assms(1,4,2,3)] assms(5-8) by (intro refills_bounded) auto
  moreover have "taken s \<le> unat t0 + unat (tokens_per_refill root) * length ts"
    using shared_data.reachable_facts(1) [OF assms(1,4,2,3)] assms(5) by auto
  ultimately show ?thesis by (meson add_left_mono le_trans mult_le_mono2)
qed

theorem rate_bound_witness:
  "\<exists>s. (vm_step store_get store_set store_stamp example_root)\<^sup>*\<^sup>* (initial_system (example_bucket 30 4) 30) s \<and> taken s = 1 \<and>
     taken s \<le> unat (4 :: u64) + unat (5 :: u64) * (1 + (unat (50 :: u64) - unat (50 :: u64)) div unat (10 :: u64))"
proof -
  obtain s where s: "(vm_step store_get store_set store_stamp example_root)\<^sup>*\<^sup>* (initial_system (example_bucket 30 4) 30) s"
    "refill_times s = [30, 50]" "taken s = 1"
    using example_run by blast
  have "taken s \<le> unat (4 :: u64) + unat (tokens_per_refill example_root) *
      (1 + (unat (last [50 :: u64]) - unat (hd [50 :: u64])) div unat (refill_interval_nanosec example_root))"
    using s(2) by (intro rate_bound [OF versioned.shared_data_axioms example_store s(1)])
      (simp_all add: example_root_def)
  with s(1,3) show ?thesis by (intro exI [of _ s]) (simp add: example_root_def)
qed

text \<open>
  C33: no handler ever reads a value it should not: a running or finished request is never undefined
  behaviour, and it is let through only if it took a token, or, after twenty attempts, if the other
  handlers wrote the bucket at least twenty times since it started. A request that took a token is
  let through.
\<close>

theorem request_outcome:
  assumes "shared_data sd_get sd_set stamp"
    and "sd_get w localRateLimitTokenBucket = (Ok, u64_bytes t0, c)"
    and "sd_get w localRateLimitLastRefilled = (Ok, u64_bytes l, cl)"
    and "(vm_step sd_get sd_set stamp root)\<^sup>*\<^sup>* (initial_system w l) s" and "q \<in> set (requests s)"
  shows "request_code q \<noteq> Undefined e \<and>
    (let_through q \<longrightarrow>
       token_taken q \<or> request_since q + 20 \<le> stamp (world s) localRateLimitTokenBucket) \<and>
    (token_taken q \<longrightarrow> request_code q = Return Continue)"
  using shared_data.reachable_facts(3) [OF assms(1,4,2,3)] assms(5)
    shared_data.request_ok_outcome [OF assms(1), of "world s" q e] by blast

theorem request_outcome_witness:
  "\<exists>s q. (vm_step store_get store_set store_stamp example_root)\<^sup>*\<^sup>* (initial_system (example_bucket 30 4) 30) s \<and> requests s = [q] \<and> request_code q = Return Continue \<and> request_code q \<noteq> Undefined DanglingReference \<and>
     (token_taken q \<or> request_since q + 20 \<le> store_stamp (world s) localRateLimitTokenBucket)"
proof -
  obtain s q where s: "(vm_step store_get store_set store_stamp example_root)\<^sup>*\<^sup>* (initial_system (example_bucket 30 4) 30) s"
    "requests s = [q]" "request_code q = Return Continue"
    using example_run by blast
  then have "let_through q" by (simp add: let_through_def)
  with request_outcome [OF versioned.shared_data_axioms example_store s(1), of q DanglingReference] s
  show ?thesis by (intro exI [of _ s] exI [of _ q]) simp
qed

text \<open>
  C34: a refill is lock-free: its loop goes around again only when another handler has written the
  bucket meanwhile, so a tick runs out of \<open>n\<close> rounds only after \<open>n\<close> writes of the others since it
  started. With more rounds than writes it returns, and it is never undefined behaviour.
\<close>

theorem refill_lock_free:
  assumes "shared_data sd_get sd_set stamp"
    and "sd_get w localRateLimitTokenBucket = (Ok, u64_bytes t0, c)"
    and "sd_get w localRateLimitLastRefilled = (Ok, u64_bytes l, cl)"
    and "(vm_step sd_get sd_set stamp root)\<^sup>*\<^sup>* (initial_system w l) s" and "k \<in> set (ticks s)"
    and "stamp (world s) localRateLimitTokenBucket < tick_since k + tick_fuel k"
  shows "tick_code k \<noteq> OutOfFuel \<and> tick_code k \<noteq> Undefined e"
  using shared_data.reachable_facts(4) [OF assms(1,4,2,3)] assms(5,6)
    shared_data.tick_ok_outcome [OF assms(1), of root "world s" k e] by auto

theorem refill_lock_free_witness:
  "\<exists>s k. (vm_step store_get store_set store_stamp example_root)\<^sup>*\<^sup>* (initial_system (example_bucket 30 4) 30) s \<and> refill_times s = [30, 50] \<and> ticks s = [k] \<and> tick_code k \<noteq> OutOfFuel \<and> tick_code k \<noteq> Undefined DanglingReference"
proof -
  obtain s k where s: "(vm_step store_get store_set store_stamp example_root)\<^sup>*\<^sup>* (initial_system (example_bucket 30 4) 30) s"
    "ticks s = [k]" "store_stamp (world s) localRateLimitTokenBucket < tick_since k + tick_fuel k" "refill_times s = [30, 50]"
    using example_run by blast
  with refill_lock_free [OF versioned.shared_data_axioms example_store s(1), of k DanglingReference]
  show ?thesis by (intro exI [of _ s] exI [of _ k]) simp
qed

section \<open>Configuration\<close>

text \<open>The value of a configured number, as the parser of numbers reads it.\<close>

fun json_u64 :: "json_lib \<Rightarrow> json \<Rightarrow> u64 option" where
  "json_u64 L (JNumber n) = Some (number_u64 L n)"
| "json_u64 L (JString s) = SimpleAtoi_u64 L s"
| "json_u64 L _ = None"

lemma uint64_field_eq: "uint64_field L j field = Option.bind (json_find j field) (json_u64 L)"
proof (cases "json_find j field")
  case (Some v)
  then show ?thesis
    by (cases v) (auto simp: uint64_field_def JsonValueAs_uint64_def split: option.split)
qed (simp add: uint64_field_def)

text \<open>
  A configuration is accepted exactly when it is an object in which the three fields are numbers
  or strings of digits, and then all three are set, the interval in nanoseconds; it is exact when it
  is at most 18446744073 seconds. A rejected configuration may leave the first fields changed, never
  the interval.
\<close>

lemma parseConfiguration_accepts:
  "(parseConfiguration L data root = (True, root') \<longleftrightarrow>
     (\<exists>j m n s. JsonParse L data = Some j \<and>
        Option.bind (json_find j ''max_tokens'') (json_u64 L) = Some m \<and>
        Option.bind (json_find j ''tokens_per_refill'') (json_u64 L) = Some n \<and>
        Option.bind (json_find j ''refill_interval_sec'') (json_u64 L) = Some s \<and>
        root' = \<lparr>max_tokens = m, tokens_per_refill = n, refill_interval_nanosec = s * 1000000000\<rparr>)) \<and>
   (\<not> fst (parseConfiguration L data root) \<longrightarrow>
      refill_interval_nanosec (snd (parseConfiguration L data root)) = refill_interval_nanosec root) \<and>
   (s \<le> 18446744073 \<longrightarrow> unat (s * 1000000000) = unat (s :: u64) * 1000000000)"
proof (intro conjI impI)
  show "parseConfiguration L data root = (True, root') \<longleftrightarrow>
     (\<exists>j m n s. JsonParse L data = Some j \<and>
        Option.bind (json_find j ''max_tokens'') (json_u64 L) = Some m \<and>
        Option.bind (json_find j ''tokens_per_refill'') (json_u64 L) = Some n \<and>
        Option.bind (json_find j ''refill_interval_sec'') (json_u64 L) = Some s \<and>
        root' = \<lparr>max_tokens = m, tokens_per_refill = n, refill_interval_nanosec = s * 1000000000\<rparr>)"
    by (cases root) (auto simp: parseConfiguration_def uint64_field_eq Let_def split: option.splits)
  show "refill_interval_nanosec (snd (parseConfiguration L data root)) = refill_interval_nanosec root"
    if "\<not> fst (parseConfiguration L data root)"
    using that by (auto simp: parseConfiguration_def Let_def split: option.splits)
  assume "s \<le> 18446744073"
  then have "unat s \<le> 18446744073" by (simp add: word_le_nat_alt)
  then show "unat (s * 1000000000) = unat s * 1000000000" by (simp add: unat_word_ariths)
qed

lemma parseConfiguration_accepts_example:
  "unat (10 * 1000000000 :: u64) = 10000000000"
  using parseConfiguration_accepts [of undefined undefined undefined undefined 10] by simp

text \<open>
  Configuring the first VM, on a store without the bucket, puts \<open>tokens_per_refill\<close> tokens into
  it, whatever \<open>max_tokens\<close> is, and starts a tick every \<open>refill_interval_sec\<close> seconds, exactly so
  when the interval in milliseconds fits in 32 bits.
\<close>

lemma onConfigure_first:
  assumes "shared_data sd_get sd_set stamp"
    and "parseConfiguration L data root =
      (True, \<lparr>max_tokens = m, tokens_per_refill = n, refill_interval_nanosec = s * 1000000000\<rparr>)"
    and "fst (sd_get w localRateLimitLastRefilled) \<noteq> Ok"
    and "sd_set w localRateLimitLastRefilled (u64_bytes 0) 0 = (Ok, w1)"
    and "sd_set w1 localRateLimitTokenBucket (u64_bytes n) 0 = (Ok, w2)"
    and "unat s * 1000 < 2 ^ 32"
  shows "\<exists>ms. run sd_get sd_set now (onConfigure L data root) w =
      (Finished (True, \<lparr>max_tokens = m, tokens_per_refill = n, refill_interval_nanosec = s * 1000000000\<rparr>),
       w2, [SetTickPeriodMilliseconds ms]) \<and> unat ms = unat s * 1000 \<and>
    (\<exists>c. sd_get w2 localRateLimitTokenBucket = (Ok, u64_bytes n, c)) \<and>
    (\<exists>c. sd_get w2 localRateLimitLastRefilled = (Ok, u64_bytes 0, c))"
proof -
  have "unat (s * 1000000000) = unat s * 1000000000"
    using assms(6) by (simp add: unat_word_ariths)
  then have "unat (s * 1000000000 div 1000000) = unat s * 1000"
    by (simp add: unat_div)
  with assms(6) have "unat (ucast (s * 1000000000 div 1000000) :: u32) = unat s * 1000"
    by (simp add: unsigned_ucast_eq take_bit_nat_eq_self)
  moreover have "run sd_get sd_set now (onConfigure L data root) w =
      (Finished (True, \<lparr>max_tokens = m, tokens_per_refill = n, refill_interval_nanosec = s * 1000000000\<rparr>),
       w2, [SetTickPeriodMilliseconds (ucast (s * 1000000000 div 1000000))])"
    using assms(2-5) by (auto simp: onConfigure_def initializeTokenBucket_def split: prod.splits)
  moreover have "\<exists>c. sd_get w2 localRateLimitLastRefilled = (Ok, u64_bytes 0, c)"
    using shared_data.set_ok_get [OF assms(1,4)]
      shared_data.set_other [OF assms(1,5), of localRateLimitLastRefilled] by simp
  ultimately show ?thesis using shared_data.set_ok_get [OF assms(1,5)] by blast
qed

definition example_limits :: json_lib where
  "example_limits = \<lparr>json_parse = (\<lambda>s. Some (JObject [(''max_tokens'', JNumber (NUnsigned 100)),
       (''refill_interval_sec'', JNumber (NUnsigned 10)), (''tokens_per_refill'', JNumber (NUnsigned 50))])),
     json_dump = (\<lambda>_. ''''), SimpleAtoi_u64 = (\<lambda>_. None), SimpleAtoi_i64 = (\<lambda>_. None),
     wild_u64 = (\<lambda>_ _. 0), wild_i64 = (\<lambda>_ _. 0)\<rparr>"

lemma example_limits_parsed:
  "parseConfiguration example_limits data root =
     (True, \<lparr>max_tokens = 100, tokens_per_refill = 50, refill_interval_nanosec = 10 * 1000000000\<rparr>)"
  by (cases root) (simp add: parseConfiguration_def example_limits_def JsonParse_def uint64_field_eq)

lemma onConfigure_first_example:
  "\<exists>ms w2. run store_get store_set 0 (onConfigure example_limits ''{}'' example_root) Map.empty =
      (Finished (True, \<lparr>max_tokens = 100, tokens_per_refill = 50, refill_interval_nanosec = 10 * 1000000000\<rparr>),
       w2, [SetTickPeriodMilliseconds ms]) \<and> unat ms = 10000 \<and>
    (\<exists>c. store_get w2 localRateLimitTokenBucket = (Ok, u64_bytes 50, c))"
  using onConfigure_first [OF versioned.shared_data_axioms example_limits_parsed [of "''{}''" example_root], where w = Map.empty and now = 0
      and ?w1.0 = "[localRateLimitLastRefilled \<mapsto> (u64_bytes 0, 1)]"
      and ?w2.0 = "[localRateLimitLastRefilled \<mapsto> (u64_bytes 0, 1), localRateLimitTokenBucket \<mapsto> (u64_bytes 50, 1)]"]
  by (auto simp: store_get_def store_set_def)

text \<open>
  Initialisation is not guarded against the other VMs. A VM that found the bucket missing writes
  it unconditionally, so if others initialised it and let requests through meanwhile (any store
  \<open>w\<close>), it resets the tokens and the time of the last refill.
\<close>

lemma initialize_resets:
  assumes "shared_data sd_get sd_set stamp"
    and "sd_get w0 localRateLimitLastRefilled = (r, d, c)" "r \<noteq> Ok"
    and "sd_set w localRateLimitLastRefilled (u64_bytes 0) 0 = (Ok, w1)"
    and "sd_set w1 localRateLimitTokenBucket (u64_bytes n) 0 = (Ok, w2)"
  shows "\<exists>rest. initializeTokenBucket n = GetSharedData localRateLimitLastRefilled rest \<and>
    run sd_get sd_set now (rest (sd_get w0 localRateLimitLastRefilled)) w = (Finished True, w2, []) \<and>
    (\<exists>c. sd_get w2 localRateLimitTokenBucket = (Ok, u64_bytes n, c)) \<and>
    (\<exists>c. sd_get w2 localRateLimitLastRefilled = (Ok, u64_bytes 0, c))"
proof -
  have "\<exists>c. sd_get w2 localRateLimitLastRefilled = (Ok, u64_bytes 0, c)"
    using shared_data.set_ok_get [OF assms(1,4)]
      shared_data.set_other [OF assms(1,5), of localRateLimitLastRefilled] by simp
  moreover have "\<exists>c. sd_get w2 localRateLimitTokenBucket = (Ok, u64_bytes n, c)"
    using shared_data.set_ok_get [OF assms(1,5)] .
  ultimately show ?thesis using assms(2-5) by (simp add: initializeTokenBucket_def)
qed

lemma initialize_resets_example:
  "\<exists>rest w2. initializeTokenBucket 7 = GetSharedData localRateLimitLastRefilled rest \<and>
    run store_get store_set 0 (rest (store_get Map.empty localRateLimitLastRefilled)) (example_bucket 30 2) =
      (Finished True, w2, []) \<and>
    (\<exists>c. store_get w2 localRateLimitTokenBucket = (Ok, u64_bytes 7, c))"
  using initialize_resets [OF versioned.shared_data_axioms, where ?w0.0 = Map.empty and r = "Failure 1"
      and d = "[]" and c = 0 and w = "example_bucket 30 2" and n = 7 and now = 0
      and ?w1.0 = "(example_bucket 30 2)(localRateLimitLastRefilled \<mapsto> (u64_bytes 0, Suc 1))"
      and ?w2.0 = "(example_bucket 30 2)(localRateLimitLastRefilled \<mapsto> (u64_bytes 0, Suc 1),
         localRateLimitTokenBucket \<mapsto> (u64_bytes 7, Suc 1))"]
  by (auto simp: example_bucket_def store_get_def store_set_def)

end
