(* ===== verification/Opa_Cache.thy ===== *)
theory Opa_Cache
  imports Prelude "HOL-Library.Multiset"
begin

text \<open>
  The cache of policy decisions of the Open Policy Agent extension
  (\<open>extensions/open_policy_agent/cache.{h,cc}\<close>): results by payload hash, with the hashes in order
  of use in a \<open>std::list\<close> and the iterator of each hash in a map.

  A list node is an identifier with its value: an iterator is the identifier of its node, and using
  the iterator of a node that was erased is undefined behaviour. \<open>std::hash<std::string>\<close> is the
  argument \<open>std_hash\<close>.
\<close>

section \<open>The code\<close>

definition MAX_NUM_ENTRY :: nat where
  "MAX_NUM_ENTRY = 1000"

record Payload =
  source_principal :: string
  destination_workload :: string
  request_method :: string
  request_url_path :: string

record ResultCache =
  valid_for_nanosec :: u64
  result_cache :: "u64 \<rightharpoonup> bool \<times> u64"
  recent :: "(nat \<times> u64) list"
  pos :: "u64 \<rightharpoonup> nat"
  next_node :: nat

definition initial_cache :: ResultCache where
  "initial_cache = \<lparr>valid_for_nanosec = 10000000000, result_cache = Map.empty, recent = [],
     pos = Map.empty, next_node = 0\<rparr>"

definition setValidDuration :: "u64 \<Rightarrow> ResultCache \<Rightarrow> ResultCache" where
  "setValidDuration valid_for_sec c = c\<lparr>valid_for_nanosec := valid_for_sec * 1000000000\<rparr>"

definition computeHash :: "(string \<Rightarrow> u64) \<Rightarrow> Payload \<Rightarrow> u64" where
  "computeHash std_hash payload =
     (let kMul = 0x9ddfea08eb382d69; h = 0;
          h = h + std_hash (source_principal payload) * kMul;
          h = h + std_hash (destination_workload payload) * kMul;
          h = h + std_hash (request_method payload) * kMul;
          h = h + std_hash (request_url_path payload) * kMul
      in h)"

text \<open>\<open>recent_.erase(it)\<close>\<close>

definition erase_node :: "nat \<Rightarrow> (nat \<times> u64) list \<Rightarrow> ub + (nat \<times> u64) list" where
  "erase_node it nodes =
     (if it \<in> fst ` set nodes then Inr (filter (\<lambda>n. fst n \<noteq> it) nodes) else Inl InvalidIterator)"

text \<open>\<open>recent_.push_front(hash); pos_[hash] = recent_.begin()\<close>\<close>

definition push_front :: "u64 \<Rightarrow> ResultCache \<Rightarrow> ResultCache" where
  "push_front hash c = c\<lparr>recent := (next_node c, hash) # recent c,
     pos := (pos c)(hash \<mapsto> next_node c), next_node := Suc (next_node c)\<rparr>"

text \<open>\<open>int old = recent_.back()\<close>, used as a key: the 64-bit hash is cut to 32 bits and sign-extended.\<close>

definition int_key :: "u64 \<Rightarrow> u64" where
  "int_key h = scast (ucast h :: 32 word)"

definition evict :: "ResultCache \<Rightarrow> ResultCache" where
  "evict c = (let old = int_key (snd (last (recent c))) in
     c\<lparr>recent := butlast (recent c), result_cache := (result_cache c)(old := None),
       pos := (pos c)(old := None)\<rparr>)"

definition use_hash :: "u64 \<Rightarrow> ResultCache \<Rightarrow> ub + ResultCache" where
  "use_hash hash c =
     (case pos c hash of
        Some it \<Rightarrow>
          (case erase_node it (recent c) of
             Inl e \<Rightarrow> Inl e
           | Inr nodes \<Rightarrow> Inr (push_front hash (c\<lparr>recent := nodes\<rparr>)))
      | None \<Rightarrow>
          if length (recent c) \<ge> MAX_NUM_ENTRY then Inr (push_front hash (evict c))
          else Inr (push_front hash c))"

text \<open>
  \<open>check\<close> returns whether it hit, the hash, \<open>allowed\<close> (the argument where it misses) and the cache.
  \<open>entry\<close> is a reference into \<open>result_cache_\<close>, read after \<open>use\<close>.
\<close>

definition check :: "(string \<Rightarrow> u64) \<Rightarrow> Payload \<Rightarrow> bool \<Rightarrow> u64 \<Rightarrow> ResultCache \<Rightarrow>
    ub + (bool \<times> u64 \<times> bool \<times> ResultCache)" where
  "check std_hash param allowed timestamp c =
     (let hash = computeHash std_hash param in
      case result_cache c hash of
        None \<Rightarrow> Inr (False, hash, allowed, c)
      | Some entry \<Rightarrow>
          if snd entry + valid_for_nanosec c > timestamp then
            (case use_hash hash c of
               Inl e \<Rightarrow> Inl e
             | Inr c \<Rightarrow>
                 (case result_cache c hash of
                    None \<Rightarrow> Inl DanglingReference
                  | Some entry \<Rightarrow> Inr (True, hash, fst entry, c)))
          else
            (case pos c hash of
               None \<Rightarrow> Inl InvalidIterator
             | Some it \<Rightarrow>
                 (case erase_node it (recent c) of
                    Inl e \<Rightarrow> Inl e
                  | Inr nodes \<Rightarrow>
                      Inr (False, hash, allowed, c\<lparr>recent := nodes, pos := (pos c)(hash := None),
                        result_cache := (result_cache c)(hash := None)\<rparr>))))"

text \<open>\<open>emplace\<close> keeps an entry that is already there.\<close>

definition add :: "u64 \<Rightarrow> bool \<Rightarrow> u64 \<Rightarrow> ResultCache \<Rightarrow> ub + ResultCache" where
  "add hash result timestamp c =
     (case use_hash hash c of
        Inl e \<Rightarrow> Inl e
      | Inr c \<Rightarrow>
          Inr (case result_cache c hash of
                 None \<Rightarrow> c\<lparr>result_cache := (result_cache c)(hash \<mapsto> (result, timestamp))\<rparr>
               | Some _ \<Rightarrow> c))"

section \<open>The invariant\<close>

text \<open>
  The three containers agree: every node is the node of its hash, every hash in the maps has a node,
  and there are at most \<open>MAX_NUM_ENTRY\<close> nodes.
\<close>

definition nodes_ok :: "ResultCache \<Rightarrow> bool" where
  "nodes_ok c \<longleftrightarrow>
     distinct (map fst (recent c)) \<and> distinct (map snd (recent c)) \<and>
     (\<forall>n \<in> set (recent c). fst n < next_node c) \<and>
     (\<forall>h it. pos c h = Some it \<longleftrightarrow> (it, h) \<in> set (recent c)) \<and>
     length (recent c) \<le> MAX_NUM_ENTRY"

definition cache_ok :: "ResultCache \<Rightarrow> bool" where
  "cache_ok c \<longleftrightarrow> nodes_ok c \<and> dom (result_cache c) = snd ` set (recent c)"

text \<open>An eviction removes the entry it means to when the oldest hash survives the \<open>int\<close>.\<close>

definition evicts_safely :: "ResultCache \<Rightarrow> bool" where
  "evicts_safely c \<longleftrightarrow>
     length (recent c) < MAX_NUM_ENTRY \<or> int_key (snd (last (recent c))) = snd (last (recent c))"

section \<open>The specification\<close>

text \<open>An LRU cache is a list of entries, the most recently used first.\<close>

type_synonym lru = "(u64 \<times> bool \<times> u64) list"

definition lru_touch :: "u64 \<Rightarrow> bool \<times> u64 \<Rightarrow> lru \<Rightarrow> lru" where
  "lru_touch h e l = (h, e) # filter (\<lambda>x. fst x \<noteq> h) l"

definition lru_check :: "u64 \<Rightarrow> u64 \<Rightarrow> u64 \<Rightarrow> lru \<Rightarrow> bool option \<times> lru" where
  "lru_check valid h now l =
     (case map_of l h of
        None \<Rightarrow> (None, l)
      | Some e \<Rightarrow>
          if snd e + valid > now then (Some (fst e), lru_touch h e l)
          else (None, filter (\<lambda>x. fst x \<noteq> h) l))"

definition lru_add :: "u64 \<Rightarrow> bool \<Rightarrow> u64 \<Rightarrow> lru \<Rightarrow> lru" where
  "lru_add h result now l =
     (case map_of l h of
        Some e \<Rightarrow> lru_touch h e l
      | None \<Rightarrow> (h, result, now) # take (MAX_NUM_ENTRY - 1) l)"

definition entries :: "ResultCache \<Rightarrow> lru" where
  "entries c = map (\<lambda>n. (snd n, the (result_cache c (snd n)))) (recent c)"

section \<open>Lemmas on the nodes\<close>

lemma nodes_okD:
  assumes "nodes_ok c"
  shows "distinct (map fst (recent c))" "distinct (map snd (recent c))"
    "n \<in> set (recent c) \<Longrightarrow> fst n < next_node c"
    "pos c h = Some it \<longleftrightarrow> (it, h) \<in> set (recent c)"
    "length (recent c) \<le> MAX_NUM_ENTRY"
  using assms by (auto simp: nodes_ok_def)

lemma pos_None: "nodes_ok c \<Longrightarrow> pos c h = None \<longleftrightarrow> h \<notin> snd ` set (recent c)"
  using nodes_okD(4) [of c h] by (cases "pos c h") force+

lemma filter_node:
  assumes "nodes_ok c" "(it, h) \<in> set (recent c)"
  shows "filter (\<lambda>n. fst n \<noteq> it) (recent c) = filter (\<lambda>n. snd n \<noteq> h) (recent c)"
proof (rule filter_cong [OF refl])
  fix n assume "n \<in> set (recent c)"
  with assms nodes_okD(1,2) [OF assms(1)] show "(fst n \<noteq> it) = (snd n \<noteq> h)"
    by (metis eq_key_imp_eq_value prod.collapse distinct_map inj_onD snd_conv fst_conv)
qed

lemma erase_node_ok:
  assumes "nodes_ok c" "pos c h = Some it"
  shows "erase_node it (recent c) = Inr (filter (\<lambda>n. snd n \<noteq> h) (recent c))"
proof -
  have "(it, h) \<in> set (recent c)" using assms nodes_okD(4) by blast
  then show ?thesis
    using filter_node [OF assms(1)] by (auto simp: erase_node_def rev_image_eqI)
qed

lemma length_filter_present:
  assumes "distinct (map snd ns)" "h \<in> snd ` set ns"
  shows "Suc (length (filter (\<lambda>n. snd n \<noteq> h) ns)) = length ns"
proof -
  from assms(2) obtain n xs ys where ns: "ns = xs @ n # ys" "snd n = h"
    by (auto simp: in_set_conv_decomp)
  with assms(1) have "filter (\<lambda>n. snd n \<noteq> h) xs = xs" "filter (\<lambda>n. snd n \<noteq> h) ys = ys"
    by (auto simp: filter_id_conv image_iff)
  with ns show ?thesis by simp
qed

text \<open>\<open>removed h c\<close>: the cache without the node of \<open>h\<close>.\<close>

definition removed :: "u64 \<Rightarrow> ResultCache \<Rightarrow> ResultCache" where
  "removed h c = c\<lparr>recent := filter (\<lambda>n. snd n \<noteq> h) (recent c), pos := (pos c)(h := None)\<rparr>"

lemma removed_ok: "nodes_ok c \<Longrightarrow> nodes_ok (removed h c)"
  by (auto simp: nodes_ok_def removed_def distinct_map_filter intro: le_trans [OF length_filter_le])

lemma push_front_removed: "push_front h (c\<lparr>recent := filter (\<lambda>n. snd n \<noteq> h) (recent c)\<rparr>) = push_front h (removed h c)"
  by (simp add: push_front_def removed_def)

lemma push_front_ok:
  assumes "nodes_ok c" "h \<notin> snd ` set (recent c)" "length (recent c) < MAX_NUM_ENTRY"
  shows "nodes_ok (push_front h c)"
proof -
  have "it < next_node c" if "(it, g) \<in> set (recent c)" for it g
    using nodes_okD(3) [OF assms(1) that] by simp
  with assms show ?thesis
    by (force simp: nodes_ok_def push_front_def)
qed

lemma evict_removed:
  assumes "nodes_ok c" "recent c \<noteq> []" "int_key (snd (last (recent c))) = snd (last (recent c))"
  shows "evict c = (removed (snd (last (recent c))) c)\<lparr>result_cache := (result_cache c)(snd (last (recent c)) := None)\<rparr>"
proof -
  obtain ns n where ns: "recent c = ns @ [n]" using assms(2) by (cases "recent c" rule: rev_cases) auto
  have "filter (\<lambda>m. snd m \<noteq> snd n) ns = ns"
    using nodes_okD(2) [OF assms(1)] by (auto simp: ns filter_id_conv image_iff)
  with assms(3) show ?thesis by (simp add: evict_def removed_def ns Let_def)
qed

text \<open>The three cases of \<open>use\<close>.\<close>

lemma use_present:
  assumes "nodes_ok c" "h \<in> snd ` set (recent c)"
  shows "use_hash h c = Inr (push_front h (removed h c))"
proof -
  obtain it where "pos c h = Some it" using assms pos_None [of c h] by auto
  with erase_node_ok [OF assms(1)] show ?thesis
    by (simp add: use_hash_def push_front_removed)
qed

lemma use_present_ok:
  assumes "nodes_ok c" "h \<in> snd ` set (recent c)"
  shows "nodes_ok (push_front h (removed h c))"
proof (rule push_front_ok [OF removed_ok [OF assms(1)]])
  show "length (recent (removed h c)) < MAX_NUM_ENTRY"
    using length_filter_present [OF nodes_okD(2) [OF assms(1)] assms(2)] nodes_okD(5) [OF assms(1)]
    by (simp add: removed_def)
qed (auto simp: removed_def)

lemma use_absent:
  assumes "nodes_ok c" "h \<notin> snd ` set (recent c)"
  shows "use_hash h c =
    Inr (push_front h (if length (recent c) < MAX_NUM_ENTRY then c else evict c))"
proof -
  have "pos c h = None" using pos_None [OF assms(1)] assms(2) by blast
  then show ?thesis by (simp add: use_hash_def not_less)
qed

section \<open>Refinement\<close>

lemma map_of_entries:
  assumes "cache_ok c"
  shows "map_of (entries c) h = result_cache c h"
proof (cases "h \<in> snd ` set (recent c)")
  case True
  then have "h \<in> dom (result_cache c)" using assms by (simp add: cache_ok_def)
  then have "result_cache c h \<noteq> None" by blast
  moreover have "map_of (entries c) h = Some (the (result_cache c h))"
    using True nodes_okD(2) [of c] assms
    by (intro map_of_is_SomeI) (auto simp: entries_def o_def cache_ok_def image_iff)
  ultimately show ?thesis by simp
next
  case False
  then have "h \<notin> dom (result_cache c)" using assms by (simp add: cache_ok_def)
  then have "result_cache c h = None" by blast
  moreover have "map_of (entries c) h = None"
    using False by (auto simp: map_of_eq_None_iff entries_def image_iff)
  ultimately show ?thesis by simp
qed

lemma entries_removed:
  "entries (removed h c) = filter (\<lambda>x. fst x \<noteq> h) (entries c)"
  by (simp add: entries_def removed_def filter_map o_def)

lemma entries_cong:
  "recent c = recent c' \<Longrightarrow> (\<And>h. h \<in> snd ` set (recent c) \<Longrightarrow> result_cache c h = result_cache c' h) \<Longrightarrow>
   entries c = entries c'"
  by (simp add: entries_def)

lemma entries_push_front:
  "entries (push_front h c) = (h, the (result_cache c h)) # entries c"
  by (simp add: entries_def push_front_def)

lemma cache_ok_touch:
  assumes "cache_ok c" "result_cache c h = Some e"
  shows "use_hash h c = Inr (push_front h (removed h c))" "cache_ok (push_front h (removed h c))"
    "entries (push_front h (removed h c)) = lru_touch h e (entries c)"
proof -
  have h: "nodes_ok c" "h \<in> snd ` set (recent c)" using assms by (auto simp: cache_ok_def)
  then show "use_hash h c = Inr (push_front h (removed h c))" by (rule use_present)
  have "dom (result_cache c) = snd ` set (recent c)" using assms(1) by (simp add: cache_ok_def)
  then have "dom (result_cache (push_front h (removed h c))) = snd ` set (recent (push_front h (removed h c)))"
    using h(2) by (auto simp: push_front_def removed_def)
  with use_present_ok [OF h] show "cache_ok (push_front h (removed h c))"
    by (simp add: cache_ok_def)
  show "entries (push_front h (removed h c)) = lru_touch h e (entries c)"
    using assms(2) by (simp add: entries_push_front entries_removed lru_touch_def) (simp add: removed_def)
qed

lemma cache_ok_expire:
  assumes "cache_ok c"
  shows "cache_ok ((removed h c)\<lparr>result_cache := (result_cache c)(h := None)\<rparr>)"
    "entries ((removed h c)\<lparr>result_cache := (result_cache c)(h := None)\<rparr>) =
       filter (\<lambda>x. fst x \<noteq> h) (entries c)"
proof -
  have "nodes_ok (removed h c)" using assms removed_ok by (simp add: cache_ok_def)
  moreover have "dom (result_cache c) = snd ` set (recent c)" using assms by (simp add: cache_ok_def)
  then have "dom ((result_cache c)(h := None)) = snd ` set (recent (removed h c))"
    by (auto simp: removed_def)
  ultimately show "cache_ok ((removed h c)\<lparr>result_cache := (result_cache c)(h := None)\<rparr>)"
    by (auto simp: cache_ok_def nodes_ok_def)
  have "entries ((removed h c)\<lparr>result_cache := (result_cache c)(h := None)\<rparr>) = entries (removed h c)"
    by (intro entries_cong) (auto simp: removed_def)
  then show "entries ((removed h c)\<lparr>result_cache := (result_cache c)(h := None)\<rparr>) =
       filter (\<lambda>x. fst x \<noteq> h) (entries c)"
    by (simp add: entries_removed)
qed

lemma check_eq:
  assumes "cache_ok c"
  shows "check std_hash p allowed now c =
    (let h = computeHash std_hash p in
     case result_cache c h of
       None \<Rightarrow> Inr (False, h, allowed, c)
     | Some e \<Rightarrow>
         if snd e + valid_for_nanosec c > now then Inr (True, h, fst e, push_front h (removed h c))
         else Inr (False, h, allowed, (removed h c)\<lparr>result_cache := (result_cache c)(h := None)\<rparr>))"
proof (cases "result_cache c (computeHash std_hash p)")
  case (Some e)
  let ?h = "computeHash std_hash p"
  have n: "nodes_ok c" "?h \<in> snd ` set (recent c)" using assms Some by (auto simp: cache_ok_def)
  then obtain it where it: "pos c ?h = Some it" using pos_None [of c ?h] by auto
  have "result_cache (push_front ?h (removed ?h c)) ?h = Some e"
    using Some by (simp add: push_front_def removed_def)
  then show ?thesis
    using Some it erase_node_ok [OF n(1) it] cache_ok_touch(1) [OF assms Some]
    by (simp add: check_def Let_def removed_def)
qed (simp add: check_def)

lemma check_refines_aux:
  assumes "cache_ok c"
  shows "\<exists>hit allowed' c'. check std_hash p allowed now c = Inr (hit, computeHash std_hash p, allowed', c') \<and>
    cache_ok c' \<and> valid_for_nanosec c' = valid_for_nanosec c \<and>
    lru_check (valid_for_nanosec c) (computeHash std_hash p) now (entries c) =
      (if hit then Some allowed' else None, entries c') \<and> (\<not> hit \<longrightarrow> allowed' = allowed)"
proof (cases "result_cache c (computeHash std_hash p)")
  case (Some e)
  note eqs = check_eq [OF assms, of std_hash p allowed now] lru_check_def map_of_entries [OF assms] Some
  have same: "valid_for_nanosec (push_front h (removed h c)) = valid_for_nanosec c"
    "valid_for_nanosec ((removed h c)\<lparr>result_cache := r\<rparr>) = valid_for_nanosec c" for h r
    by (simp_all add: push_front_def removed_def)
  show ?thesis
  proof (cases "snd e + valid_for_nanosec c > now")
    case True
    then show ?thesis
      using cache_ok_touch(2,3) [OF assms Some] same
      by (intro exI [of _ True] exI [of _ "fst e"] exI [of _ "push_front (computeHash std_hash p) (removed (computeHash std_hash p) c)"])
        (simp add: eqs Let_def)
  next
    case False
    then show ?thesis
      using cache_ok_expire [OF assms, of "computeHash std_hash p"] same
      by (intro exI [of _ False] exI [of _ allowed] exI [of _ "(removed (computeHash std_hash p) c)\<lparr>result_cache :=
          (result_cache c)(computeHash std_hash p := None)\<rparr>"])
        (simp add: eqs Let_def)
  qed
qed (rule exI [of _ False], simp add: check_eq [OF assms] lru_check_def map_of_entries [OF assms] assms Let_def)

lemma cache_ok_evict:
  assumes "cache_ok c" "evicts_safely c" "\<not> length (recent c) < MAX_NUM_ENTRY"
  shows "cache_ok (evict c)" "entries (evict c) = take (MAX_NUM_ENTRY - 1) (entries c)"
    "length (recent (evict c)) < MAX_NUM_ENTRY" "snd ` set (recent (evict c)) \<subseteq> snd ` set (recent c)"
proof -
  let ?old = "snd (last (recent c))"
  have full: "length (recent c) = MAX_NUM_ENTRY" "recent c \<noteq> []"
    using assms(1,3) nodes_okD(5) [of c] by (auto simp: cache_ok_def MAX_NUM_ENTRY_def)
  have e: "evict c = (removed ?old c)\<lparr>result_cache := (result_cache c)(?old := None)\<rparr>"
    using evict_removed [of c] assms full(2) by (simp add: cache_ok_def evicts_safely_def)
  show "cache_ok (evict c)" using cache_ok_expire(1) [OF assms(1)] by (simp add: e)
  have r: "recent (evict c) = butlast (recent c)" by (simp add: evict_def Let_def)
  then show "length (recent (evict c)) < MAX_NUM_ENTRY" using full by (simp add: MAX_NUM_ENTRY_def)
  show "snd ` set (recent (evict c)) \<subseteq> snd ` set (recent c)" by (auto simp: r dest: in_set_butlastD)
  have "entries (evict c) = map (\<lambda>n. (snd n, the (result_cache c (snd n)))) (butlast (recent c))"
  proof -
    have "snd n \<noteq> ?old" if "n \<in> set (butlast (recent c))" for n
    proof -
      have "distinct (map snd (butlast (recent c) @ [last (recent c)]))"
        using assms(1) full(2) nodes_okD(2) [of c] by (simp add: cache_ok_def)
      with that show ?thesis by (auto simp: image_iff)
    qed
    then show ?thesis by (simp add: entries_def r) (simp add: e)
  qed
  also have "\<dots> = take (MAX_NUM_ENTRY - 1) (entries c)"
    using full(1) by (simp add: entries_def butlast_conv_take take_map)
  finally show "entries (evict c) = take (MAX_NUM_ENTRY - 1) (entries c)" .
qed

lemma cache_ok_insert:
  assumes "cache_ok c" "h \<notin> snd ` set (recent c)" "length (recent c) < MAX_NUM_ENTRY"
  shows "cache_ok ((push_front h c)\<lparr>result_cache := (result_cache c)(h \<mapsto> v)\<rparr>)"
    "entries ((push_front h c)\<lparr>result_cache := (result_cache c)(h \<mapsto> v)\<rparr>) = (h, v) # entries c"
proof -
  have n: "nodes_ok (push_front h c)" using assms push_front_ok by (simp add: cache_ok_def)
  then have "nodes_ok ((push_front h c)\<lparr>result_cache := r\<rparr>)" for r by (simp add: nodes_ok_def)
  moreover have "dom (result_cache c) = snd ` set (recent c)" using assms(1) by (simp add: cache_ok_def)
  ultimately show "cache_ok ((push_front h c)\<lparr>result_cache := (result_cache c)(h \<mapsto> v)\<rparr>)"
    by (simp add: cache_ok_def push_front_def)
  show "entries ((push_front h c)\<lparr>result_cache := (result_cache c)(h \<mapsto> v)\<rparr>) = (h, v) # entries c"
    using assms(2) by (auto simp: entries_def push_front_def image_iff)
qed

lemma add_present:
  assumes "cache_ok c" "result_cache c h = Some e"
  shows "add h result now c = Inr (push_front h (removed h c))"
  using cache_ok_touch(1) [OF assms] assms(2) by (simp add: add_def push_front_def removed_def)

lemma add_absent:
  assumes "cache_ok c" "result_cache c h = None" "evicts_safely c"
  defines "d \<equiv> (if length (recent c) < MAX_NUM_ENTRY then c else evict c)"
  shows "add h result now c = Inr ((push_front h d)\<lparr>result_cache := (result_cache d)(h \<mapsto> (result, now))\<rparr>)"
    and "cache_ok d" "h \<notin> snd ` set (recent d)" "length (recent d) < MAX_NUM_ENTRY"
    and "entries d = take (MAX_NUM_ENTRY - 1) (entries c)"
proof -
  have "h \<notin> dom (result_cache c)" using assms(2) by blast
  then have h: "nodes_ok c" "h \<notin> snd ` set (recent c)" using assms(1) by (simp_all add: cache_ok_def)
  show ok: "cache_ok d" "h \<notin> snd ` set (recent d)" "length (recent d) < MAX_NUM_ENTRY"
    and "entries d = take (MAX_NUM_ENTRY - 1) (entries c)"
    using assms(1) h(2) cache_ok_evict [OF assms(1,3)] by (auto simp: d_def entries_def)
  have "h \<notin> dom (result_cache d)" using ok(1,2) by (simp add: cache_ok_def)
  then have "result_cache (push_front h d) h = None" by (auto simp: push_front_def)
  then show "add h result now c = Inr ((push_front h d)\<lparr>result_cache := (result_cache d)(h \<mapsto> (result, now))\<rparr>)"
    using use_absent [OF h] by (simp add: add_def flip: d_def) (simp add: push_front_def)
qed

lemma add_refines_aux:
  assumes "cache_ok c" "evicts_safely c"
  shows "\<exists>c'. add h result now c = Inr c' \<and> cache_ok c' \<and> valid_for_nanosec c' = valid_for_nanosec c \<and>
    entries c' = lru_add h result now (entries c)"
proof (cases "result_cache c h")
  case None
  note a = add_absent [OF assms(1) None assms(2)]
  show ?thesis
    using a(1) cache_ok_insert [OF a(2-4), of "(result, now)"] a(5) None map_of_entries [OF assms(1), of h]
    by (auto simp: lru_add_def push_front_def evict_def Let_def)
next
  case (Some e)
  then show ?thesis
    using add_present [OF assms(1) Some] cache_ok_touch(2,3) [OF assms(1) Some] map_of_entries [OF assms(1), of h]
    by (auto simp: lru_add_def push_front_def removed_def)
qed

section \<open>Properties\<close>

text \<open>
  C24: on a well-formed cache \<open>check\<close> never uses an invalid iterator, and it is the lookup of an LRU
  cache with expiry: a hit returns the stored answer of the payload's hash, not older than the
  validity, and makes it the most recent; an expired entry is removed; nothing else changes.
\<close>

theorem check_refines:
  assumes "cache_ok c"
  shows "\<exists>hit allowed' c'. check std_hash p allowed now c = Inr (hit, computeHash std_hash p, allowed', c') \<and>
    cache_ok c' \<and> valid_for_nanosec c' = valid_for_nanosec c \<and>
    lru_check (valid_for_nanosec c) (computeHash std_hash p) now (entries c) =
      (if hit then Some allowed' else None, entries c') \<and> (\<not> hit \<longrightarrow> allowed' = allowed)"
  by (rule check_refines_aux [OF assms])


text \<open>A cache that holds the given hashes.\<close>

definition holding :: "u64 list \<Rightarrow> u64 \<Rightarrow> ResultCache" where
  "holding hs t = \<lparr>valid_for_nanosec = 10000000000,
     result_cache = (\<lambda>h. if h \<in> set hs then Some (True, t) else None),
     recent = zip [0..<length hs] hs, pos = map_of (zip hs [0..<length hs]), next_node = length hs\<rparr>"

lemma holding_ok:
  assumes "distinct hs" "length hs \<le> MAX_NUM_ENTRY"
  shows "cache_ok (holding hs t)"
  using assms by (auto simp: cache_ok_def nodes_ok_def holding_def set_zip in_set_conv_nth
      image_iff dom_def map_of_zip_nth nth_eq_iff_index_eq)

theorem check_refines_witness:
  "\<exists>c'. check (\<lambda>_. 0) \<lparr>source_principal = '''', destination_workload = '''', request_method = ''GET'',
     request_url_path = ''/''\<rparr> False 7 (holding [3, 0] 5) = Inr (True, 0, True, c') \<and> cache_ok c'"
  using check_refines [OF holding_ok, of "[3, 0]" "\<lambda>_. 0" "\<lparr>source_principal = '''',
      destination_workload = '''', request_method = ''GET'', request_url_path = ''/''\<rparr>" False 7 5]
  by (auto simp: computeHash_def MAX_NUM_ENTRY_def lru_check_def entries_def holding_def split: if_splits)


text \<open>
  C31: the \<open>int\<close> that holds the evicted hash breaks the cache: when the least recently used hash of a
  full cache does not survive the conversion, adding a new entry frees its list node but keeps its
  cached result and its iterator, and from then on every lookup of a payload with that hash, and
  every insertion of it, uses the freed node.
\<close>

theorem eviction_dangles:
  assumes "cache_ok c" "length (recent c) = MAX_NUM_ENTRY" "h = snd (last (recent c))"
    and "int_key h \<noteq> h" "result_cache c g = None"
  shows "\<exists>c'. add g result now c = Inr c' \<and> result_cache c' h = result_cache c h \<and>
    add h result' now' c' = Inl InvalidIterator \<and>
    (\<forall>p allowed. computeHash std_hash p = h \<longrightarrow> check std_hash p allowed now' c' = Inl InvalidIterator)"
proof -
  have n: "nodes_ok c" "dom (result_cache c) = snd ` set (recent c)" using assms(1) by (simp_all add: cache_ok_def)
  have "recent c \<noteq> []" using assms(2) by (auto simp: MAX_NUM_ENTRY_def)
  then obtain ns it where ns: "recent c = ns @ [(it, h)]" using assms(3) by (cases "recent c" rule: rev_cases) auto
  have g: "g \<notin> snd ` set (recent c)" using assms(5) n(2) by auto
  then have "g \<noteq> h" by (auto simp: ns)
  have "h \<in> dom (result_cache c)" unfolding n(2) by (simp add: ns)
  then obtain e where e: "result_cache c h = Some e" by blast
  have it: "pos c h = Some it" "it < next_node c" "it \<notin> fst ` set ns"
    using nodes_okD(4) [OF n(1), of h it] nodes_okD(3) [OF n(1), of "(it, h)"] nodes_okD(1) [OF n(1)]
    by (simp_all add: ns)
  define d where "d = (push_front g (evict c))\<lparr>result_cache := (result_cache (evict c))(g \<mapsto> (result, now))\<rparr>"
  have ev: "recent (evict c) = ns" "pos (evict c) = (pos c)(int_key h := None)" "next_node (evict c) = next_node c"
    "result_cache (evict c) = (result_cache c)(int_key h := None)"
    by (simp_all add: evict_def Let_def ns)
  then have "add g result now c = Inr d"
    using use_absent [OF n(1) g] assms(2,5) by (simp add: add_def push_front_def d_def)
  moreover have d: "pos d h = Some it" "result_cache d h = Some e" "erase_node it (recent d) = Inl InvalidIterator"
    using it e assms(4) \<open>g \<noteq> h\<close> by (auto simp: push_front_def ev erase_node_def d_def)
  moreover from d have use: "use_hash h d = Inl InvalidIterator" by (simp add: use_hash_def)
  moreover from use have "add h result' now' d = Inl InvalidIterator" by (simp add: add_def)
  moreover from use d have "check std_hash p allowed now' d = Inl InvalidIterator"
    if "computeHash std_hash p = h" for p allowed
    using that by (simp add: check_def Let_def)
  ultimately show ?thesis using e by auto
qed

definition large_hashes :: "u64 list" where
  "large_hashes = map (\<lambda>i. of_nat (2 ^ 32 + i)) [0..<MAX_NUM_ENTRY]"

lemma unat_large_hash: "i < MAX_NUM_ENTRY \<Longrightarrow> unat (of_nat (2 ^ 32 + i) :: u64) = 2 ^ 32 + i"
  by (simp add: MAX_NUM_ENTRY_def unat_of_nat del: of_nat_add)

lemma large_hashes_ok: "cache_ok (holding large_hashes t)"
proof (rule holding_ok)
  have "inj_on (\<lambda>i. of_nat (2 ^ 32 + i) :: u64) (set [0..<MAX_NUM_ENTRY])"
    by (rule inj_onI) (metis unat_large_hash add_left_imp_eq atLeastLessThan_iff set_upt)
  then show "distinct large_hashes" by (simp add: large_hashes_def distinct_map)
qed (simp add: large_hashes_def)

lemma large_hashes_last: "snd (last (recent (holding large_hashes t))) = of_nat (2 ^ 32 + 999)"
proof -
  have "last (zip [0..<length large_hashes] large_hashes) = (length large_hashes - 1, last large_hashes)"
    by (subst last_zip) (simp_all add: large_hashes_def MAX_NUM_ENTRY_def last_upt del: upt_rec_numeral)
  also have "last large_hashes = of_nat (2 ^ 32 + 999)"
    by (simp add: large_hashes_def MAX_NUM_ENTRY_def last_map del: upt_rec_numeral)
  finally show ?thesis by (simp add: holding_def)
qed

theorem eviction_dangles_witness:
  "\<exists>c'. add 7 True 9 (holding large_hashes 5) = Inr c' \<and>
     add (of_nat (2 ^ 32 + 999)) True 10 c' = Inl InvalidIterator"
proof -
  have small: "(7 :: u64) \<notin> set large_hashes"
  proof
    assume "(7 :: u64) \<in> set large_hashes"
    then obtain i where i: "i < MAX_NUM_ENTRY" "(7 :: u64) = of_nat (2 ^ 32 + i)"
      by (auto simp: large_hashes_def)
    have "unat (7 :: u64) = 2 ^ 32 + i" unfolding i(2) by (rule unat_large_hash [OF i(1)])
    then show False by simp
  qed
  have "int_key (of_nat (2 ^ 32 + 999)) \<noteq> of_nat (2 ^ 32 + 999)"
    by (simp add: int_key_def)
  moreover have "length (recent (holding large_hashes 5)) = MAX_NUM_ENTRY"
    by (simp add: holding_def large_hashes_def)
  moreover have "result_cache (holding large_hashes 5) 7 = None"
    using small by (simp add: holding_def)
  ultimately show ?thesis
    using eviction_dangles [OF large_hashes_ok [of 5], where h = "of_nat (2 ^ 32 + 999)" and g = 7 and result = True
        and now = 9 and result' = True and now' = 10 and std_hash = "\<lambda>_. 0"] large_hashes_last [of 5]
    by auto
qed

text \<open>
  The hash does not depend on which field holds which value, so payloads that are permutations
  of each other share one cached decision.
\<close>

lemma computeHash_permuted:
  assumes "mset [source_principal p, destination_workload p, request_method p, request_url_path p] =
     mset [source_principal q, destination_workload q, request_method q, request_url_path q]"
  shows "computeHash std_hash p = computeHash std_hash q"
proof -
  have hash: "computeHash std_hash r = (\<Sum>x \<in># mset [source_principal r, destination_workload r,
      request_method r, request_url_path r]. std_hash x * 0x9ddfea08eb382d69)" for r
    by (simp add: computeHash_def Let_def ac_simps)
  show ?thesis unfolding hash assms by (rule refl)
qed

lemma computeHash_permuted_example:
  "computeHash (\<lambda>s. of_nat (length s)) \<lparr>source_principal = ''a'', destination_workload = ''b'', request_method = ''GET'',
     request_url_path = ''/''\<rparr> =
   computeHash (\<lambda>s. of_nat (length s)) \<lparr>source_principal = ''b'', destination_workload = ''a'', request_method = ''GET'',
     request_url_path = ''/''\<rparr>"
  by (rule computeHash_permuted) simp

section \<open>What the client relies on\<close>

text \<open>
  A cache of timed decisions: \<open>lookup\<close> answers with a stored decision that is still valid, and
  nothing is stored but what was inserted. The client needs no more for safety.
\<close>

locale decision_cache =
  fixes stored :: "'c \<Rightarrow> u64 \<Rightarrow> (bool \<times> u64) option" and validity :: "'c \<Rightarrow> u64"
    and key :: "'q \<Rightarrow> u64"
    and lookup :: "'q \<Rightarrow> u64 \<Rightarrow> 'c \<Rightarrow> ub + (bool option \<times> 'c)"
    and insertion :: "u64 \<Rightarrow> bool \<Rightarrow> u64 \<Rightarrow> 'c \<Rightarrow> ub + 'c"
  assumes lookup_hit: "lookup q now c = Inr (Some r, c') \<Longrightarrow>
      \<exists>t. stored c (key q) = Some (r, t) \<and> now < t + validity c"
    and lookup_stored: "lookup q now c = Inr (r', c') \<Longrightarrow> stored c' g = Some e \<Longrightarrow> stored c g = Some e"
    and insertion_stored: "insertion h r t c = Inr c' \<Longrightarrow> stored c' g = Some e \<Longrightarrow>
      stored c g = Some e \<or> (g = h \<and> e = (r, t))"
begin

definition backed_by :: "(u64 \<times> bool \<times> u64) set \<Rightarrow> 'c \<Rightarrow> bool" where
  "backed_by answers c \<longleftrightarrow> (\<forall>h r t. stored c h = Some (r, t) \<longrightarrow> (h, r, t) \<in> answers)"

lemma lookup_backed: "backed_by answers c \<Longrightarrow> lookup q now c = Inr (r, c') \<Longrightarrow> backed_by answers c'"
  using lookup_stored by (auto simp: backed_by_def)

lemma lookup_answered:
  "backed_by answers c \<Longrightarrow> lookup q now c = Inr (Some r, c') \<Longrightarrow>
   \<exists>t. (key q, r, t) \<in> answers \<and> now < t + validity c"
  using lookup_hit by (fastforce simp: backed_by_def)

lemma insertion_backed:
  "backed_by answers c \<Longrightarrow> insertion h r t c = Inr c' \<Longrightarrow> backed_by (insert (h, r, t) answers) c'"
  using insertion_stored by (fastforce simp: backed_by_def)

end

text \<open>The lookup of a payload, as the client calls \<open>check\<close>.\<close>

definition lookup_payload :: "(string \<Rightarrow> u64) \<Rightarrow> Payload \<Rightarrow> u64 \<Rightarrow> ResultCache \<Rightarrow> ub + (bool option \<times> ResultCache)" where
  "lookup_payload std_hash payload now c =
     (case check std_hash payload False now c of
        Inl e \<Rightarrow> Inl e
      | Inr (hit, _, allowed, c') \<Rightarrow> Inr (if hit then Some allowed else None, c'))"

lemma use_hash_stored:
  "use_hash h c = Inr c' \<Longrightarrow> result_cache c' g = Some e \<Longrightarrow> result_cache c g = Some e"
  by (auto simp: use_hash_def push_front_def evict_def Let_def split: option.splits sum.splits if_splits)

interpretation opa_cache: decision_cache result_cache valid_for_nanosec "computeHash std_hash"
  "lookup_payload std_hash" add for std_hash
proof
  fix q now c r c' h t g e
  show "lookup_payload std_hash q now c = Inr (Some r, c') \<Longrightarrow>
      \<exists>t. result_cache c (computeHash std_hash q) = Some (r, t) \<and> now < t + valid_for_nanosec c"
    by (fastforce simp: lookup_payload_def check_def Let_def dest: use_hash_stored
        split: option.splits sum.splits if_splits prod.splits)
  show "add h r t c = Inr c' \<Longrightarrow> result_cache c' g = Some e \<Longrightarrow>
      result_cache c g = Some e \<or> (g = h \<and> e = (r, t))"
    by (auto simp: add_def dest: use_hash_stored split: option.splits sum.splits if_splits)
next
  fix q now c r' c' g e
  show "lookup_payload std_hash q now c = Inr (r', c') \<Longrightarrow> result_cache c' g = Some e \<Longrightarrow> result_cache c g = Some e"
    by (auto simp: lookup_payload_def check_def Let_def dest: use_hash_stored
        split: option.splits sum.splits if_splits)
qed

end
