(* ===== verification/Opa_Plugin.thy ===== *)
theory Opa_Plugin
  imports Opa_Cache Json_Util Proxy_Host
begin

text \<open>
  The Open Policy Agent extension (\<open>extensions/open_policy_agent/plugin.{h,cc}\<close>): each request is
  answered from the cache or by an HTTP call to the OPA server, whose callback resumes or rejects
  the request. The time, the properties of the request, the outcome of the call and the response
  body are arguments of the handlers; a call that was made is returned as \<open>opa_call\<close>, what its
  callback captured.
\<close>

section \<open>The code\<close>

record opa_root =
  cache :: ResultCache
  cache_valid_for_sec :: u64
  opa_host :: string
  opa_cluster :: string
  cache_hits :: u32
  cache_misses :: u32

text \<open>The metric identifiers have no initial value: \<open>hits\<close> and \<open>misses\<close> stand for it.\<close>

definition initial_opa_root :: "u32 \<Rightarrow> u32 \<Rightarrow> opa_root" where
  "initial_opa_root hits misses = \<lparr>cache = initial_cache, cache_valid_for_sec = 0, opa_host = '''',
     opa_cluster = '''', cache_hits = hits, cache_misses = misses\<rparr>"

definition checkCache :: "(string \<Rightarrow> u64) \<Rightarrow> Payload \<Rightarrow> bool \<Rightarrow> u64 \<Rightarrow> opa_root \<Rightarrow>
    ub + (bool \<times> u64 \<times> bool \<times> opa_root \<times> host_action list)" where
  "checkCache std_hash payload allowed now root =
     (case check std_hash payload allowed now (cache root) of
        Inl e \<Rightarrow> Inl e
      | Inr (hit, hash, allowed, c) \<Rightarrow>
          Inr (hit, hash, allowed, root\<lparr>cache := c\<rparr>,
            [IncrementMetric (if hit then cache_hits root else cache_misses root) 1]))"

definition addCache :: "u64 \<Rightarrow> bool \<Rightarrow> u64 \<Rightarrow> opa_root \<Rightarrow> ub + opa_root" where
  "addCache hash result now root =
     (case add hash result now (cache root) of Inl e \<Rightarrow> Inl e | Inr c \<Rightarrow> Inr (root\<lparr>cache := c\<rparr>))"

definition request_payload :: "string properties \<Rightarrow> Payload" where
  "request_payload props =
     \<lparr>source_principal = snd (getValue props [''connection'', ''uri_san_peer_certificate''] ''''),
      destination_workload = snd (getValue props [''node'', ''metadata'', ''WORKLOAD_NAME''] ''''),
      request_method = snd (getValue props [''request'', ''method''] ''''),
      request_url_path = snd (getValue props [''request'', ''url_path''] '''')\<rparr>"

text \<open>The JSON object of a payload; the library keeps the members of an object in key order.\<close>

definition payload_json :: "Payload \<Rightarrow> json" where
  "payload_json payload = JObject [(''input'', JObject
     [(''destination_workload'', JString (destination_workload payload)),
      (''request_method'', JString (request_method payload)),
      (''request_url_path'', JString (request_url_path payload)),
      (''source_principal'', JString (source_principal payload))])]"

definition opa_headers :: "opa_root \<Rightarrow> header list" where
  "opa_headers root = [(''content-type'', ''application/json''), ('':path'', ''/v1/data/test/allow''),
     ('':method'', ''POST''), ('':authority'', opa_host root)]"

record opa_call =
  stream_context_id :: u32
  payload_hash :: u64

definition check_stream :: "json_lib \<Rightarrow> (string \<Rightarrow> u64) \<Rightarrow> string properties \<Rightarrow> u64 \<Rightarrow> WasmResult \<Rightarrow> u32 \<Rightarrow>
    opa_root \<Rightarrow> ub + (FilterHeadersStatus \<times> host_action list \<times> opa_root \<times> opa_call option)" where
  "check_stream L std_hash props now call_result stream_id root =
     (let payload = request_payload props in
      case checkCache std_hash payload False now root of
        Inl e \<Rightarrow> Inl e
      | Inr (cache_hit, hash, allowed, root, acts) \<Rightarrow>
          if cache_hit \<and> allowed then Inr (Continue, acts, root, None)
          else if cache_hit \<and> \<not> allowed then
            Inr (StopIteration, acts @ [SendLocalResponse 403 ''OPA policy check denied'' '''' []], root, None)
          else
            let call = HttpCall (opa_cluster root) (opa_headers root)
                         (json_dump L (payload_json payload)) [] 5000
            in if call_result \<noteq> Ok then
                 Inr (StopIteration,
                   acts @ [call, SendLocalResponse 500 ''OPA policy check call failed'' '''' []], root, None)
               else Inr (StopIteration, acts @ [call], root,
                   Some \<lparr>stream_context_id = stream_id, payload_hash = hash\<rparr>))"

definition onRequestHeaders :: "json_lib \<Rightarrow> (string \<Rightarrow> u64) \<Rightarrow> string properties \<Rightarrow> u64 \<Rightarrow> WasmResult \<Rightarrow> u32 \<Rightarrow>
    opa_root \<Rightarrow> ub + (FilterHeadersStatus \<times> host_action list \<times> opa_root \<times> opa_call option)" where
  "onRequestHeaders L std_hash props now call_result stream_id root =
     check_stream L std_hash props now call_result stream_id root"

text \<open>
  The callback of the call. \<open>live\<close> are the streams that still have a context: \<open>getContext\<close> gives a
  null pointer for any other, whose use is undefined.
\<close>

definition check_response :: "json_lib \<Rightarrow> u32 set \<Rightarrow> string \<Rightarrow> u64 \<Rightarrow> opa_call \<Rightarrow> opa_root \<Rightarrow>
    ub + (host_action list \<times> opa_root)" where
  "check_response L live body now call root =
     (let failed = SendLocalResponse 500 ''OPA policy check failed'' '''' [];
          ctx = SetEffectiveContext (stream_context_id call)
      in if stream_context_id call \<notin> live then Inl DanglingReference
         else case JsonParse L body of
           None \<Rightarrow> Inr ([ctx, failed], root)
         | Some j \<Rightarrow>
             (case json_find j ''result'' of
                None \<Rightarrow> Inr ([ctx, failed], root)
              | Some v \<Rightarrow>
                  (case JsonValueAs_bool v of (r, d) \<Rightarrow>
                     if d \<noteq> OK then Inr ([ctx, failed], root)
                     else let check_result = the r in
                       (case addCache (payload_hash call) check_result now root of
                          Inl e \<Rightarrow> Inl e
                        | Inr root \<Rightarrow>
                            if \<not> check_result then
                              Inr ([ctx, SendLocalResponse 403 ''OPA policy check denied'' '''' []], root)
                            else Inr ([ctx, ContinueRequest], root)))))"

definition parseConfiguration :: "json_lib \<Rightarrow> string \<Rightarrow> opa_root \<Rightarrow> bool \<times> opa_root" where
  "parseConfiguration L configuration_data root =
     (case JsonParse L configuration_data of None \<Rightarrow> (False, root) | Some j \<Rightarrow>
      case json_find j ''opa_service_host'' of None \<Rightarrow> (False, root) | Some v \<Rightarrow>
      case JsonValueAs_string v of (host, d) \<Rightarrow>
      if d \<noteq> OK then (False, root) else
      let root = root\<lparr>opa_host := the host\<rparr> in
      case json_find j ''opa_cluster_name'' of None \<Rightarrow> (False, root) | Some v \<Rightarrow>
      case JsonValueAs_string v of (cluster, d) \<Rightarrow>
      if d \<noteq> OK then (False, root) else
      let root = root\<lparr>opa_cluster := the cluster\<rparr> in
      case json_find j ''check_result_cache_valid_sec'' of None \<Rightarrow> (True, root) | Some v \<Rightarrow>
      case JsonValueAs_uint64 L v of (sec, d) \<Rightarrow>
      if d \<noteq> OK then (False, root) else (True, root\<lparr>cache_valid_for_sec := the sec\<rparr>))"

text \<open>\<open>resolve\<close> gives the identifier of the counter \<open>policy_cache_count\<close> with the given tags.\<close>

definition onConfigure :: "json_lib \<Rightarrow> (string list \<Rightarrow> u32) \<Rightarrow> string \<Rightarrow> opa_root \<Rightarrow> bool \<times> opa_root" where
  "onConfigure L resolve configuration_data root =
     (case parseConfiguration L configuration_data root of (ok, root) \<Rightarrow>
        if \<not> ok then (False, root)
        else (True, root\<lparr>cache := setValidDuration (cache_valid_for_sec root) (cache root),
               cache_hits := resolve [''opa_filter'', ''hit''],
               cache_misses := resolve [''opa_filter'', ''miss'']\<rparr>))"

section \<open>The extension as a state machine\<close>

text \<open>
  The handlers of a worker run one at a time: requests arrive, calls are answered in any order (or
  never), the configuration may be loaded again. \<open>answers\<close> records what OPA answered to which
  payload and when, \<open>admitted\<close> which payloads were let through, when, and with which validity of
  cached answers; both only observe the run.
\<close>

record opa_system =
  root :: opa_root
  pending :: "(opa_call \<times> Payload) list"
  answers :: "(Payload \<times> bool \<times> u64) list"
  admitted :: "(Payload \<times> u64 \<times> u64) list"

definition opa_answer :: "json_lib \<Rightarrow> string \<Rightarrow> bool option" where
  "opa_answer L body =
     (case JsonParse L body of None \<Rightarrow> None
      | Some j \<Rightarrow> (case json_find j ''result'' of None \<Rightarrow> None | Some v \<Rightarrow> fst (JsonValueAs_bool v)))"

definition record_admitted :: "bool \<Rightarrow> Payload \<Rightarrow> u64 \<Rightarrow> opa_system \<Rightarrow> opa_system" where
  "record_admitted ok payload now s =
     (if ok then s\<lparr>admitted := (payload, now, valid_for_nanosec (cache (root s))) # admitted s\<rparr> else s)"

inductive opa_step :: "json_lib \<Rightarrow> (string \<Rightarrow> u64) \<Rightarrow> opa_system \<Rightarrow> opa_system \<Rightarrow> bool"
  for L std_hash where
  configure:
    "onConfigure L resolve data (root s) = (ok, root') \<Longrightarrow> opa_step L std_hash s (s\<lparr>root := root'\<rparr>)"
| request:
    "onRequestHeaders L std_hash props now call_result stream_id (root s) = Inr (status, acts, root', call) \<Longrightarrow>
     opa_step L std_hash s (record_admitted (status = Continue) (request_payload props) now
       (s\<lparr>root := root', pending := (case call of None \<Rightarrow> [] | Some c \<Rightarrow> [(c, request_payload props)]) @ pending s\<rparr>))"
| response:
    "i < length (pending s) \<Longrightarrow> pending s ! i = (call, payload) \<Longrightarrow>
     check_response L live body now call (root s) = Inr (acts, root') \<Longrightarrow>
     opa_step L std_hash s (record_admitted (ContinueRequest \<in> set acts) payload now
       (s\<lparr>root := root', pending := take i (pending s) @ drop (Suc i) (pending s),
          answers := (case opa_answer L body of None \<Rightarrow> [] | Some r \<Rightarrow> [(payload, r, now)]) @ answers s\<rparr>))"

definition initial_opa_system :: "u32 \<Rightarrow> u32 \<Rightarrow> opa_system" where
  "initial_opa_system hits misses =
     \<lparr>root = initial_opa_root hits misses, pending = [], answers = [], admitted = []\<rparr>"

section \<open>The handlers\<close>

lemma check_hash: "check std_hash p allowed now c = Inr (hit, hash, allowed', c') \<Longrightarrow> hash = computeHash std_hash p"
  by (auto simp: check_def Let_def split: option.splits if_splits sum.splits)

lemma check_stream_lookup:
  assumes "check_stream L std_hash props now call_result i rt = Inr (status, acts, rt', call)"
  shows "\<exists>r. lookup_payload std_hash (request_payload props) now (cache rt) = Inr (r, cache rt') \<and>
    (status = Continue \<longleftrightarrow> r = Some True) \<and>
    (\<forall>c. call = Some c \<longrightarrow> payload_hash c = computeHash std_hash (request_payload props) \<and>
       stream_context_id c = i \<and> r = None) \<and> rt' = rt\<lparr>cache := cache rt'\<rparr>"
proof -
  obtain hit hash allowed c where check: "check std_hash (request_payload props) False now (cache rt) = Inr (hit, hash, allowed, c)"
    using assms by (auto simp: check_stream_def checkCache_def Let_def split: sum.splits prod.splits)
  from check_hash [OF this] have "hash = computeHash std_hash (request_payload props)" .
  with assms check show ?thesis
    by (auto simp: check_stream_def checkCache_def lookup_payload_def Let_def split: if_splits)
qed

lemma check_response_answer:
  assumes "check_response L live body now call rt = Inr (acts, rt')"
  shows "case opa_answer L body of
      None \<Rightarrow> rt' = rt \<and> acts = [SetEffectiveContext (stream_context_id call),
        SendLocalResponse 500 ''OPA policy check failed'' '''' []]
    | Some r \<Rightarrow> add (payload_hash call) r now (cache rt) = Inr (cache rt') \<and> rt' = rt\<lparr>cache := cache rt'\<rparr> \<and>
        acts = [SetEffectiveContext (stream_context_id call),
          if r then ContinueRequest else SendLocalResponse 403 ''OPA policy check denied'' '''' []]"
proof -
  have bool: "snd (JsonValueAs_bool v) = OK \<longleftrightarrow> fst (JsonValueAs_bool v) \<noteq> None" for v
    by (rule as_bool.ok_iff_value)
  show ?thesis
    using assms bool
    by (auto simp: check_response_def opa_answer_def addCache_def Let_def prod_eq_iff
        split: option.splits if_splits sum.splits prod.splits)
qed

section \<open>Safety\<close>

definition answered :: "(string \<Rightarrow> u64) \<Rightarrow> opa_system \<Rightarrow> (u64 \<times> bool \<times> u64) set" where
  "answered std_hash s = (\<lambda>(p, r, t). (computeHash std_hash p, r, t)) ` set (answers s)"

definition admission_backed :: "(string \<Rightarrow> u64) \<Rightarrow> opa_system \<Rightarrow> Payload \<times> u64 \<times> u64 \<Rightarrow> bool" where
  "admission_backed std_hash s a \<longleftrightarrow> (case a of (p, now, valid) \<Rightarrow>
     \<exists>q t. (q, True, t) \<in> set (answers s) \<and> computeHash std_hash q = computeHash std_hash p \<and>
       (t = now \<or> now < t + valid))"

definition opa_inv :: "(string \<Rightarrow> u64) \<Rightarrow> opa_system \<Rightarrow> bool" where
  "opa_inv std_hash s \<longleftrightarrow>
     (\<forall>(c, p) \<in> set (pending s). payload_hash c = computeHash std_hash p) \<and>
     opa_cache.backed_by (answered std_hash s) (cache (root s)) \<and>
     (\<forall>a \<in> set (admitted s). admission_backed std_hash s a)"

lemma configure_cache:
  "onConfigure L resolve data rt = (ok, rt') \<Longrightarrow> result_cache (cache rt') = result_cache (cache rt) \<and>
     recent (cache rt') = recent (cache rt) \<and> pos (cache rt') = pos (cache rt) \<and>
     next_node (cache rt') = next_node (cache rt)"
  by (auto simp: onConfigure_def parseConfiguration_def setValidDuration_def Let_def
      split: prod.splits if_splits option.splits)

lemma admission_mono:
  "admission_backed std_hash s a \<Longrightarrow> set (answers s) \<subseteq> set (answers s') \<Longrightarrow> admission_backed std_hash s' a"
  by (fastforce simp: admission_backed_def)

lemma answered_hit:
  assumes "(computeHash std_hash p, True, t) \<in> answered std_hash s" "answers s' = answers s" "now < t + v"
  shows "admission_backed std_hash s' (p, now, v)"
  using assms by (force simp: answered_def admission_backed_def)

lemma lookup_validity:
  "lookup_payload std_hash p now c = Inr (r, c') \<Longrightarrow> valid_for_nanosec c' = valid_for_nanosec c"
  by (auto simp: lookup_payload_def check_def use_hash_def push_front_def evict_def Let_def
      split: option.splits sum.splits if_splits prod.splits)

lemma step_opa_inv:
  assumes "opa_step L std_hash s s'" "opa_inv std_hash s"
  shows "opa_inv std_hash s'"
  using assms(1)
proof cases
  case (configure resolve data ok root')
  then have "result_cache (cache root') = result_cache (cache (root s))"
    using configure_cache by blast
  with configure(1) assms(2) show ?thesis
    by (auto simp: opa_inv_def opa_cache.backed_by_def answered_def admission_backed_def)
next
  case (request props now call_result i status acts root' call)
  obtain r where r: "lookup_payload std_hash (request_payload props) now (cache (root s)) = Inr (r, cache root')"
    "status = Continue \<longleftrightarrow> r = Some True" "\<forall>c. call = Some c \<longrightarrow> payload_hash c = computeHash std_hash (request_payload props)"
    using check_stream_lookup [OF request(2) [unfolded onRequestHeaders_def]] by blast
  have backed: "opa_cache.backed_by (answered std_hash s) (cache (root s))"
    using assms(2) by (simp add: opa_inv_def)
  have "answered std_hash s' = answered std_hash s" "answers s' = answers s" "root s' = root'"
    using request(1) by (simp_all add: record_admitted_def answered_def)
  moreover have "admission_backed std_hash s' a" if "a \<in> set (admitted s')" for a
  proof (cases "a \<in> set (admitted s)")
    case True
    then show ?thesis using assms(2) admission_mono [of std_hash s a s'] calculation(2) by (simp add: opa_inv_def)
  next
    case False
    with that request(1) have a: "r = Some True" "a = (request_payload props, now, valid_for_nanosec (cache root'))"
      using r(2) by (auto simp: record_admitted_def split: if_splits)
    then obtain t where "(computeHash std_hash (request_payload props), True, t) \<in> answered std_hash s"
      "now < t + valid_for_nanosec (cache (root s))"
      using opa_cache.lookup_answered [OF backed] r(1) by blast
    with answered_hit [OF _ calculation(2)] show ?thesis
      using a(2) lookup_validity [OF r(1)] by simp
  qed
  moreover have "\<forall>(c, p) \<in> set (pending s'). payload_hash c = computeHash std_hash p"
    using request(1) assms(2) r(3) by (auto simp: opa_inv_def record_admitted_def split: option.splits)
  ultimately show ?thesis
    using opa_cache.lookup_backed [OF backed r(1)] by (simp add: opa_inv_def)
next
  case (response i call payload live body now acts root')
  have backed: "opa_cache.backed_by (answered std_hash s) (cache (root s))"
    using assms(2) by (simp add: opa_inv_def)
  have "(call, payload) \<in> set (pending s)" using response(2,3) nth_mem by metis
  then have hash: "payload_hash call = computeHash std_hash payload"
    using assms(2) by (auto simp: opa_inv_def)
  note answer = check_response_answer [OF response(4)]
  have s': "root s' = root'" "set (answers s) \<subseteq> set (answers s')"
    "set (pending s') \<subseteq> set (pending s)"
    using response(1) by (auto simp: record_admitted_def dest: in_set_takeD in_set_dropD)
  have "opa_cache.backed_by (answered std_hash s') (cache root')"
  proof (cases "opa_answer L body")
    case None
    then show ?thesis using answer backed response(1) by (simp add: record_admitted_def answered_def)
  next
    case (Some r)
    then have "answered std_hash s' = insert (payload_hash call, r, now) (answered std_hash s)"
      using response(1) hash by (simp add: record_admitted_def answered_def)
    with Some answer show ?thesis
      using opa_cache.insertion_backed [OF backed] by auto
  qed
  moreover have "admission_backed std_hash s' a" if "a \<in> set (admitted s')" for a
  proof (cases "a \<in> set (admitted s)")
    case True
    then show ?thesis using assms(2) admission_mono [of std_hash s a s'] s'(2) by (simp add: opa_inv_def)
  next
    case False
    with that response(1) have a: "ContinueRequest \<in> set acts" "a = (payload, now, valid_for_nanosec (cache root'))"
      by (auto simp: record_admitted_def split: if_splits)
    with answer have "opa_answer L body = Some True" by (auto split: option.splits if_splits)
    with response(1) have "(payload, True, now) \<in> set (answers s')" by (simp add: record_admitted_def)
    with a(2) show ?thesis by (auto simp: admission_backed_def)
  qed
  ultimately show ?thesis using assms(2) s' by (auto simp: opa_inv_def)
qed

section \<open>Absence of undefined behaviour\<close>

lemma recent_entries: "length (recent c) = length (entries c)" "snd ` set (recent c) = fst ` set (entries c)"
  by (auto simp: entries_def image_image)

lemma lookup_keeps:
  assumes "cache_ok c" "lookup_payload std_hash p now c = Inr (r, c')"
  shows "cache_ok c'" "length (recent c') \<le> length (recent c)" "snd ` set (recent c') \<subseteq> snd ` set (recent c)"
proof -
  obtain a where c': "cache_ok c'"
    "lru_check (valid_for_nanosec c) (computeHash std_hash p) now (entries c) = (a, entries c')"
    using check_refines_aux [OF assms(1), of std_hash p False now] assms(2) by (auto simp: lookup_payload_def)
  have "length (entries c') \<le> length (entries c) \<and> fst ` set (entries c') \<subseteq> fst ` set (entries c)"
  proof (cases "map_of (entries c) (computeHash std_hash p)")
    case (Some e)
    let ?h = "computeHash std_hash p"
    have "Suc (length (filter (\<lambda>x. fst x \<noteq> ?h) (entries c))) \<le> length (entries c)"
      using length_filter_less [OF map_of_SomeD [OF Some], of "\<lambda>x. fst x \<noteq> ?h"] by simp
    moreover have "?h \<in> fst ` set (entries c)" using map_of_SomeD [OF Some] by force
    moreover have "entries c' = (?h, e) # filter (\<lambda>x. fst x \<noteq> ?h) (entries c) \<or>
        entries c' = filter (\<lambda>x. fst x \<noteq> ?h) (entries c)"
      using c'(2) Some by (auto simp: lru_check_def lru_touch_def split: if_splits)
    ultimately show ?thesis
      by (elim disjE) (simp_all add: image_subset_iff)
  qed (use c'(2) in \<open>simp add: lru_check_def\<close>)
  with c'(1) show "cache_ok c'" "length (recent c') \<le> length (recent c)" "snd ` set (recent c') \<subseteq> snd ` set (recent c)"
    by (simp_all add: recent_entries)
qed

lemma add_keeps:
  assumes "cache_ok c" "evicts_safely c" "add h r now c = Inr c'"
  shows "cache_ok c'" "length (recent c') \<le> Suc (length (recent c))"
    "snd ` set (recent c') \<subseteq> insert h (snd ` set (recent c))"
proof -
  have c': "cache_ok c'" "entries c' = lru_add h r now (entries c)"
    using add_refines_aux [OF assms(1,2), of h r now] assms(3) by auto
  have "length (filter (\<lambda>x. fst x \<noteq> h) (entries c)) \<le> length (entries c)" by (rule length_filter_le)
  then have "length (entries c') \<le> Suc (length (entries c))"
    unfolding c'(2) lru_add_def lru_touch_def by (simp split: option.split)
  moreover have "fst ` set (entries c') \<subseteq> insert h (fst ` set (entries c))"
    unfolding c'(2) lru_add_def lru_touch_def by (auto split: option.split dest: in_set_takeD)
  ultimately show "cache_ok c'" "length (recent c') \<le> Suc (length (recent c))"
    "snd ` set (recent c') \<subseteq> insert h (snd ` set (recent c))"
    using c'(1) by (simp_all add: recent_entries)
qed

definition opa_cache_inv :: "(string \<Rightarrow> u64) \<Rightarrow> opa_system \<Rightarrow> bool" where
  "opa_cache_inv std_hash s \<longleftrightarrow>
     cache_ok (cache (root s)) \<and> length (recent (cache (root s))) \<le> length (answers s) \<and>
     snd ` set (recent (cache (root s))) \<subseteq> range (computeHash std_hash) \<and>
     (\<forall>(c, p) \<in> set (pending s). payload_hash c = computeHash std_hash p)"

text \<open>Either every hash survives the \<open>int\<close>, or too few answers have come for an eviction.\<close>

definition no_truncation :: "(string \<Rightarrow> u64) \<Rightarrow> opa_system \<Rightarrow> bool" where
  "no_truncation std_hash s \<longleftrightarrow>
     (\<forall>p. int_key (computeHash std_hash p) = computeHash std_hash p) \<or> length (answers s) < MAX_NUM_ENTRY"

lemma evicts_safely_inv:
  assumes "opa_cache_inv std_hash s" "no_truncation std_hash s"
  shows "evicts_safely (cache (root s))"
proof (cases "length (answers s) < MAX_NUM_ENTRY")
  case True
  with assms(1) show ?thesis by (auto simp: evicts_safely_def opa_cache_inv_def)
next
  case False
  with assms(2) have int: "int_key (computeHash std_hash p) = computeHash std_hash p" for p by (simp add: no_truncation_def)
  show ?thesis
  proof (cases "recent (cache (root s)) = []")
    case False
    then have "snd (last (recent (cache (root s)))) \<in> range (computeHash std_hash)"
      using assms(1) by (auto simp: opa_cache_inv_def)
    with int show ?thesis by (auto simp: evicts_safely_def)
  qed (simp add: evicts_safely_def MAX_NUM_ENTRY_def)
qed

lemma step_opa_cache_inv:
  assumes "opa_step L std_hash s s'" "opa_cache_inv std_hash s" "no_truncation std_hash s'"
  shows "opa_cache_inv std_hash s'"
  using assms(1)
proof cases
  case (configure resolve data ok root')
  then show ?thesis
    using assms(2) configure_cache [OF configure(2)] by (auto simp: opa_cache_inv_def cache_ok_def nodes_ok_def)
next
  case (request props now call_result i status acts root' call)
  obtain r where r: "lookup_payload std_hash (request_payload props) now (cache (root s)) = Inr (r, cache root')"
    "\<forall>c. call = Some c \<longrightarrow> payload_hash c = computeHash std_hash (request_payload props)"
    using check_stream_lookup [OF request(2) [unfolded onRequestHeaders_def]] by blast
  have ok: "cache_ok (cache (root s))" using assms(2) by (simp add: opa_cache_inv_def)
  show ?thesis
    using request(1) assms(2) r(2) lookup_keeps [OF ok r(1)]
    by (auto simp: opa_cache_inv_def record_admitted_def split: option.splits)
next
  case (response i call payload live body now acts root')
  have "(call, payload) \<in> set (pending s)" using response(2,3) nth_mem by metis
  then have hash: "payload_hash call \<in> range (computeHash std_hash)"
    using assms(2) by (auto simp: opa_cache_inv_def)
  have "no_truncation std_hash s"
    using assms(3) response(1) by (auto simp: no_truncation_def record_admitted_def split: if_splits)
  with assms(2) have safe: "evicts_safely (cache (root s))" by (rule evicts_safely_inv)
  have ok: "cache_ok (cache (root s))" using assms(2) by (simp add: opa_cache_inv_def)
  note answer = check_response_answer [OF response(4)]
  have pend: "\<forall>(c, p) \<in> set (pending s'). payload_hash c = computeHash std_hash p"
    using response(1) assms(2)
    by (auto simp: opa_cache_inv_def record_admitted_def dest!: in_set_takeD in_set_dropD)
  have cache: "cache_ok (cache root') \<and>
      length (recent (cache root')) \<le> length (recent (cache (root s))) + (if opa_answer L body = None then 0 else 1) \<and>
      snd ` set (recent (cache root')) \<subseteq> insert (payload_hash call) (snd ` set (recent (cache (root s))))"
  proof (cases "opa_answer L body")
    case (Some r)
    then show ?thesis
      using answer add_keeps [OF ok safe, of "payload_hash call" r now "cache root'"] by simp
  qed (use answer ok in auto)
  have len: "length (answers s') = length (answers s) + (if opa_answer L body = None then 0 else 1)"
    and rt: "root s' = root'"
    using response(1) by (auto simp: record_admitted_def split: option.splits)
  have "snd ` set (recent (cache (root s))) \<subseteq> range (computeHash std_hash)"
    using assms(2) by (simp add: opa_cache_inv_def)
  with hash have "insert (payload_hash call) (snd ` set (recent (cache (root s)))) \<subseteq> range (computeHash std_hash)"
    by simp
  with cache have "snd ` set (recent (cache root')) \<subseteq> range (computeHash std_hash)"
    by (meson subset_trans)
  moreover have "length (recent (cache (root s))) \<le> length (answers s)"
    using assms(2) by (simp add: opa_cache_inv_def)
  then have "length (recent (cache root')) \<le> length (answers s')"
    using cache len by linarith
  ultimately show ?thesis using cache rt pend unfolding opa_cache_inv_def by blast
qed

lemma step_answers: "opa_step L std_hash s s' \<Longrightarrow> length (answers s) \<le> length (answers s')"
  by (erule opa_step.cases) (auto simp: record_admitted_def)

lemma initial_opa_invs:
  "opa_inv std_hash (initial_opa_system hits misses)" "opa_cache_inv std_hash (initial_opa_system hits misses)"
  by (auto simp: opa_inv_def opa_cache_inv_def initial_opa_system_def initial_opa_root_def initial_cache_def
      cache_ok_def nodes_ok_def opa_cache.backed_by_def)

lemma reachable_opa_inv:
  "(opa_step L std_hash)\<^sup>*\<^sup>* (initial_opa_system hits misses) s \<Longrightarrow> opa_inv std_hash s"
  by (induction rule: rtranclp_induct) (auto intro: initial_opa_invs step_opa_inv)

lemma reachable_opa_cache_inv:
  assumes "(opa_step L std_hash)\<^sup>*\<^sup>* (initial_opa_system hits misses) s" "no_truncation std_hash s"
  shows "opa_cache_inv std_hash s"
  using assms
proof induction
  case base
  show ?case by (rule initial_opa_invs)
next
  case (step s s')
  then have "no_truncation std_hash s"
    using step_answers [OF step(2)] by (auto simp: no_truncation_def)
  with step show ?case using step_opa_cache_inv by blast
qed

section \<open>Properties\<close>

text \<open>
  C4: a request is let through only on a positive answer of OPA: whatever the order of requests,
  responses and reconfigurations, for each admitted payload OPA answered true to a payload with the
  same hash, either just now or so recently that the answer was still valid.
\<close>

theorem opa_safety:
  assumes "(opa_step L std_hash)\<^sup>*\<^sup>* (initial_opa_system hits misses) s" "(p, now, v) \<in> set (admitted s)"
  shows "\<exists>q t. (q, True, t) \<in> set (answers s) \<and> computeHash std_hash q = computeHash std_hash p \<and>
    (t = now \<or> now < t + v)"
  using reachable_opa_inv [OF assms(1)] assms(2) by (auto simp: opa_inv_def admission_backed_def)


text \<open>
  What a request does: one metric is counted; a valid cached answer decides it at once, with a
  403 if it is negative; otherwise the payload is sent to OPA, and the request waits for the callback,
  or is answered with a 500 if the call could not be made.
\<close>

lemma onRequestHeaders_outcome:
  assumes "check std_hash (request_payload props) False now (cache rt) = Inr (hit, hash, allowed, c)"
  shows "onRequestHeaders L std_hash props now call_result i rt =
    (let call = HttpCall (opa_cluster rt) (opa_headers rt) (json_dump L (payload_json (request_payload props))) [] 5000;
         metric = IncrementMetric (if hit then cache_hits rt else cache_misses rt) 1
     in Inr (if hit \<and> allowed then Continue else StopIteration,
          metric #
            (if hit then (if allowed then [] else [SendLocalResponse 403 ''OPA policy check denied'' '''' []])
             else call # (if call_result = Ok then []
                          else [SendLocalResponse 500 ''OPA policy check call failed'' '''' []])),
          rt\<lparr>cache := c\<rparr>,
          if \<not> hit \<and> call_result = Ok
          then Some \<lparr>stream_context_id = i, payload_hash = computeHash std_hash (request_payload props)\<rparr>
          else None))"
  using assms check_hash [OF assms]
  by (simp add: onRequestHeaders_def check_stream_def checkCache_def Let_def opa_headers_def)

text \<open>
  The callback decides its stream exactly once: it switches to the stream and either resumes the
  request, which it does exactly when the body is an object whose \<open>result\<close> is true (or the string
  \<open>true\<close>), or sends one response, 403 for a negative answer and 500 for anything else; only the
  first two are cached.
\<close>

lemma check_response_outcome:
  assumes "check_response L live body now call rt = Inr (acts, rt')"
  shows "stream_context_id call \<in> live \<and> (\<exists>verdict. acts = [SetEffectiveContext (stream_context_id call), verdict] \<and>
    (verdict = ContinueRequest \<longleftrightarrow> (\<exists>j v. JsonParse L body = Some j \<and> json_find j ''result'' = Some v \<and>
       (v = JBoolean True \<or> v = JString ''true''))) \<and>
    (verdict \<noteq> ContinueRequest \<longrightarrow> verdict = (if opa_answer L body = Some False
        then SendLocalResponse 403 ''OPA policy check denied'' '''' []
        else SendLocalResponse 500 ''OPA policy check failed'' '''' [])) \<and>
    (opa_answer L body = None \<longrightarrow> rt' = rt))"
proof -
  have "stream_context_id call \<in> live"
    using assms by (auto simp: check_response_def Let_def split: if_splits)
  moreover have "fst (JsonValueAs_bool v) = Some True \<longleftrightarrow> v = JBoolean True \<or> v = JString ''true''" for v
    by (cases v) (auto simp: JsonValueAs_bool_def)
  then have "opa_answer L body = Some True \<longleftrightarrow> (\<exists>j v. JsonParse L body = Some j \<and> json_find j ''result'' = Some v \<and>
      (v = JBoolean True \<or> v = JString ''true''))"
    by (auto simp: opa_answer_def split: option.splits)
  ultimately show ?thesis
    using check_response_answer [OF assms] by (cases "opa_answer L body") (auto split: if_splits)
qed

text \<open>An example: OPA always answers true, and the first request is let through by its answer.\<close>

definition example_opa :: json_lib where
  "example_opa = \<lparr>json_parse = (\<lambda>_. Some (JObject [(''result'', JBoolean True)])),
     json_dump = (\<lambda>_. ''''), SimpleAtoi_u64 = (\<lambda>_. None), SimpleAtoi_i64 = (\<lambda>_. None),
     wild_u64 = (\<lambda>_ _. 0), wild_i64 = (\<lambda>_ _. 0)\<rparr>"

definition example_props :: "string properties" where
  "example_props = (\<lambda>path. if path = [''request'', ''method''] then Some ''GET'' else None)"

lemma example_check:
  "check (\<lambda>_. 0) p False now initial_cache = Inr (False, 0, False, initial_cache)"
  by (simp add: check_def initial_cache_def computeHash_def)

definition answered_cache :: ResultCache where
  "answered_cache = (case add 0 True 7 initial_cache of Inr c \<Rightarrow> c | Inl _ \<Rightarrow> initial_cache)"

lemma answered_cache: "add 0 True 7 initial_cache = Inr answered_cache"
  by (simp add: answered_cache_def add_def use_hash_def initial_cache_def MAX_NUM_ENTRY_def push_front_def)

lemma example_response:
  "check_response example_opa {1} ''{}'' 7 \<lparr>stream_context_id = 1, payload_hash = 0\<rparr> (initial_opa_root 0 0) =
     Inr ([SetEffectiveContext 1, ContinueRequest], (initial_opa_root 0 0)\<lparr>cache := answered_cache\<rparr>)"
  by (simp add: check_response_def example_opa_def JsonParse_def JsonValueAs_bool_def addCache_def
      initial_opa_root_def answered_cache)

lemma example_opa_run:
  "\<exists>s. (opa_step example_opa (\<lambda>_. 0))\<^sup>*\<^sup>* (initial_opa_system 0 0) s \<and>
     (request_payload example_props, 7, 10000000000) \<in> set (admitted s) \<and> length (answers s) = 1"
proof -
  let ?call = "\<lparr>stream_context_id = 1, payload_hash = 0\<rparr>"
  let ?s1 = "(initial_opa_system 0 0)\<lparr>pending := [(?call, request_payload example_props)]\<rparr>"
  let ?s2 = "\<lparr>root = (initial_opa_root 0 0)\<lparr>cache := answered_cache\<rparr>, pending = [],
    answers = [(request_payload example_props, True, 7)],
    admitted = [(request_payload example_props, 7, 10000000000)]\<rparr>"
  have "onRequestHeaders example_opa (\<lambda>_. 0) example_props 5 Ok 1 (initial_opa_root 0 0) =
      Inr (StopIteration, [IncrementMetric 0 1, HttpCall '''' (opa_headers (initial_opa_root 0 0)) '''' [] 5000],
        initial_opa_root 0 0, Some ?call)"
    using example_check by (simp add: onRequestHeaders_def check_stream_def checkCache_def initial_opa_root_def
        Let_def example_opa_def opa_headers_def)
  from opa_step.request [where s = "initial_opa_system 0 0", unfolded initial_opa_system_def, simplified, OF this]
  have "opa_step example_opa (\<lambda>_. 0) (initial_opa_system 0 0) ?s1"
    by (simp add: initial_opa_system_def record_admitted_def)
  moreover have "valid_for_nanosec answered_cache = 10000000000"
    by (simp add: answered_cache_def add_def use_hash_def initial_cache_def push_front_def MAX_NUM_ENTRY_def)
  moreover have "opa_answer example_opa ''{}'' = Some True"
    by (simp add: opa_answer_def example_opa_def JsonParse_def JsonValueAs_bool_def)
  moreover have "opa_step example_opa (\<lambda>_. 0) ?s1 ?s2"
    using opa_step.response [of 0 ?s1 ?call "request_payload example_props" example_opa "{1}" "''{}''" 7
        "[SetEffectiveContext 1, ContinueRequest]" "(initial_opa_root 0 0)\<lparr>cache := answered_cache\<rparr>" "\<lambda>_. 0"]
      example_response calculation(2,3)
    by (simp add: initial_opa_system_def record_admitted_def)
  ultimately have "(opa_step example_opa (\<lambda>_. 0))\<^sup>*\<^sup>* (initial_opa_system 0 0) ?s2"
    by (meson converse_rtranclp_into_rtranclp rtranclp.rtrancl_refl)
  then show ?thesis by (intro exI [of _ ?s2]) simp
qed

theorem opa_safety_witness:
  "\<exists>s q t. (opa_step example_opa (\<lambda>_. 0))\<^sup>*\<^sup>* (initial_opa_system 0 0) s \<and> (q, True, t) \<in> set (answers s) \<and>
     (t = 7 \<or> 7 < t + 10000000000)"
proof -
  obtain s where s: "(opa_step example_opa (\<lambda>_. 0))\<^sup>*\<^sup>* (initial_opa_system 0 0) s"
    "(request_payload example_props, 7, 10000000000) \<in> set (admitted s)"
    using example_opa_run by blast
  then show ?thesis using opa_safety [OF s] by blast
qed


lemma onRequestHeaders_outcome_example:
  "\<exists>acts call. onRequestHeaders example_opa (\<lambda>_. 0) example_props 5 (Failure 1) 1 (initial_opa_root 3 4) =
     Inr (StopIteration, [IncrementMetric 4 1, call, SendLocalResponse 500 ''OPA policy check call failed'' '''' []],
       initial_opa_root 3 4, None)"
  using onRequestHeaders_outcome [of "\<lambda>_. 0" example_props 5 "initial_opa_root 3 4" False 0 False initial_cache
      example_opa "Failure 1" 1] example_check
  by (simp add: initial_opa_root_def Let_def)

lemma check_response_outcome_example:
  "\<exists>verdict. [SetEffectiveContext 1, ContinueRequest] = [SetEffectiveContext 1, verdict] \<and>
     (verdict = ContinueRequest \<longleftrightarrow> (\<exists>j v. JsonParse example_opa ''{}'' = Some j \<and> json_find j ''result'' = Some v \<and>
       (v = JBoolean True \<or> v = JString ''true'')))"
  using check_response_outcome [OF example_response] by auto

text \<open>Fields of the configuration that must be strings, or numbers.\<close>

lemma string_field:
  "(case json_find j f of None \<Rightarrow> x | Some v \<Rightarrow> case JsonValueAs_string v of (r, d) \<Rightarrow> if d \<noteq> OK then x else g r) =
   (case Option.bind (json_find j f) string_of_json of None \<Rightarrow> x | Some s \<Rightarrow> g (Some s))"
proof (cases "json_find j f")
  case (Some v)
  then show ?thesis by (cases v) (simp_all add: JsonValueAs_string_def)
qed simp

lemma string_field_Some:
  "Option.bind (json_find j f) string_of_json = Some s \<longleftrightarrow> json_find j f = Some (JString s)"
proof (cases "json_find j f")
  case (Some v)
  then show ?thesis by (cases v) simp_all
qed simp

lemma number_field:
  "(case JsonValueAs_uint64 L v of (r, d) \<Rightarrow> if d \<noteq> OK then x else g r) =
   (case fst (JsonValueAs_uint64 L v) of None \<Rightarrow> x | Some n \<Rightarrow> g (Some n))"
  using as_uint64.ok_iff_value [of L v] by (cases "JsonValueAs_uint64 L v") (auto split: option.split)

definition validity_field :: "json_lib \<Rightarrow> json \<Rightarrow> u64 \<Rightarrow> u64 option" where
  "validity_field L j unset =
     (case json_find j ''check_result_cache_valid_sec'' of
        None \<Rightarrow> Some unset | Some v \<Rightarrow> fst (JsonValueAs_uint64 L v))"

lemma parseConfiguration_eq:
  assumes "JsonParse L data = Some j"
  shows "fst (parseConfiguration L data rt) \<longleftrightarrow>
      (\<exists>host cluster sec. json_find j ''opa_service_host'' = Some (JString host) \<and>
         json_find j ''opa_cluster_name'' = Some (JString cluster) \<and>
         validity_field L j (cache_valid_for_sec rt) = Some sec)"
    and "json_find j ''opa_service_host'' = Some (JString host) \<Longrightarrow>
      json_find j ''opa_cluster_name'' = Some (JString cluster) \<Longrightarrow>
      validity_field L j (cache_valid_for_sec rt) = Some sec \<Longrightarrow>
      snd (parseConfiguration L data rt) = rt\<lparr>opa_host := host, opa_cluster := cluster, cache_valid_for_sec := sec\<rparr>"
  unfolding parseConfiguration_def assms option.case string_field number_field Let_def
  by (simp_all add: validity_field_def flip: string_field_Some split: option.split)
    (auto simp: validity_field_def)

text \<open>
  Configuration: it is accepted exactly when the host and the cluster are present and strings
  and the validity, if present, is a number. The cache is then valid for that many seconds, where
  the field is missing for those of the previous configuration, which are none at first
  (\<open>ResultCache\<close>'s own ten seconds are overwritten).
\<close>

lemma onConfigure_outcome:
  "onConfigure L resolve data rt = (True, rt') \<longleftrightarrow>
     (\<exists>j host cluster sec. JsonParse L data = Some j \<and>
        json_find j ''opa_service_host'' = Some (JString host) \<and>
        json_find j ''opa_cluster_name'' = Some (JString cluster) \<and>
        validity_field L j (cache_valid_for_sec rt) = Some sec \<and>
        rt' = rt\<lparr>opa_host := host, opa_cluster := cluster, cache_valid_for_sec := sec,
                cache := (cache rt)\<lparr>valid_for_nanosec := sec * 1000000000\<rparr>,
                cache_hits := resolve [''opa_filter'', ''hit''],
                cache_misses := resolve [''opa_filter'', ''miss'']\<rparr>)"
proof (cases "JsonParse L data")
  case (Some j)
  show ?thesis
  proof (cases "fst (parseConfiguration L data rt)")
    case True
    then obtain host cluster sec where f: "json_find j ''opa_service_host'' = Some (JString host)"
      "json_find j ''opa_cluster_name'' = Some (JString cluster)"
      "validity_field L j (cache_valid_for_sec rt) = Some sec"
      using parseConfiguration_eq(1) [OF Some] by blast
    have "parseConfiguration L data rt = (True, rt\<lparr>opa_host := host, opa_cluster := cluster, cache_valid_for_sec := sec\<rparr>)"
      using True parseConfiguration_eq(2) [OF Some f] by (simp add: prod_eq_iff)
    then show ?thesis using Some f by (auto simp: onConfigure_def setValidDuration_def)
  next
    case False
    then have "fst (onConfigure L resolve data rt) = False"
      by (cases "parseConfiguration L data rt") (simp add: onConfigure_def)
    with False parseConfiguration_eq(1) [OF Some, of rt] Some show ?thesis
      by (metis fst_conv option.inject)
  qed
qed (simp add: onConfigure_def parseConfiguration_def)

end
