(* ===== verification/Grpc_Logging.thy ===== *)
theory Grpc_Logging
  imports Proxy_Host
begin

text \<open>
  The gRPC logging extension (\<open>extensions/grpc_logging/plugin.{h,cc}\<close>): log entries are collected
  into requests of at most 500 entries, which are buffered and sent to the logging service on a
  timer.

  The protocol buffer library is outside the repository: its JSON parser, its serializer and the
  two time conversions are arguments. \<open>getValue\<close> leaves a local variable unchanged when the property
  is missing, and three of them have no initial value: \<open>garbage\<close> stands for what they hold.
\<close>

section \<open>The code\<close>

type_synonym proto_time = "int \<times> int" \<comment> \<open>seconds and nanoseconds\<close>

record LogEntry =
  source_address :: string
  destination_address :: string
  destination_workload :: string
  destination_namespace :: string
  host :: string
  path :: string
  user_agent :: string
  referer :: string
  request_id :: string
  timestamp :: proto_time
  latency :: proto_time
  response_code :: u32

type_synonym WriteLogRequest = "LogEntry list"

record logging_root =
  logging_service_address :: string
  cur_log_req :: WriteLogRequest
  log_entry_count :: int
  req_buffer :: "WriteLogRequest list"
  grpc_service :: string
  in_flight_export_call :: int
  is_on_done :: bool

text \<open>The constructor.\<close>

definition initial_logging_root :: logging_root where
  "initial_logging_root = \<lparr>logging_service_address = '''', cur_log_req = [], log_entry_count = 0,
     req_buffer = [], grpc_service = '''', in_flight_export_call = 0, is_on_done = False\<rparr>"

text \<open>What the extension asks of the host: a call with the request, and whether the host accepted it.\<close>

datatype logging_action =
    GrpcSimpleCall string WriteLogRequest bool
  | SetTickPeriod u32
  | ProxyDoneCall

record proto_lib =
  parse_config :: "string \<Rightarrow> string option" \<comment> \<open>the field \<open>logging_service\<close> of a valid configuration\<close>
  serialize_service :: "string \<Rightarrow> string" \<comment> \<open>a \<open>GrpcService\<close> with the given target\<close>
  NanosecondsToTimestamp :: "u64 \<Rightarrow> proto_time"
  NanosecondsToDuration :: "u64 \<Rightarrow> proto_time"

definition onConfigure :: "proto_lib \<Rightarrow> string \<Rightarrow> logging_root \<Rightarrow> bool \<times> logging_root \<times> logging_action list" where
  "onConfigure P configuration_data root =
     (let configuration = (if length configuration_data > 0 then configuration_data else ''{}'') in
      case parse_config P configuration of
        None \<Rightarrow> (False, root, [])
      | Some logging_service \<Rightarrow>
          if logging_service = '''' then (False, root, [])
          else (True, root\<lparr>logging_service_address := logging_service,
                           grpc_service := serialize_service P logging_service\<rparr>,
                [SetTickPeriod 10000]))"

definition flushLogBuffer :: "logging_root \<Rightarrow> logging_root" where
  "flushLogBuffer root =
     (if log_entry_count root \<le> 0 then root
      else root\<lparr>req_buffer := req_buffer root @ [cur_log_req root], cur_log_req := [], log_entry_count := 0\<rparr>)"

definition new_log_entry :: "proto_lib \<Rightarrow> string properties \<Rightarrow> u64 properties \<Rightarrow> u64 \<times> u64 \<times> u64 \<Rightarrow> LogEntry" where
  "new_log_entry P props ints garbage = (case garbage of (g_code, g_time, g_duration) \<Rightarrow>
     let time = snd (getValue ints [''request'', ''time''] g_time);
         duration = snd (getValue ints [''request'', ''duration''] g_duration);
         code = snd (getValue ints [''response'', ''code''] g_code)
     in \<lparr>source_address = snd (getValue props [''source'', ''address''] ''''),
         destination_address = snd (getValue props [''destination'', ''address''] ''''),
         destination_workload = snd (getValue props [''node'', ''metadata'', ''WORKLOAD_NAME''] ''''),
         destination_namespace = snd (getValue props [''node'', ''metadata'', ''NAMESPACE''] ''''),
         host = snd (getValue props [''request'', ''host''] ''''),
         path = snd (getValue props [''request'', ''url_path''] ''''),
         user_agent = snd (getValue props [''request'', ''user_agent''] ''''),
         referer = snd (getValue props [''request'', ''referer''] ''''),
         request_id = snd (getValue props [''request'', ''id''] ''''),
         timestamp = NanosecondsToTimestamp P time,
         latency = NanosecondsToDuration P duration,
         response_code = ucast code\<rparr>)"

definition addLogEntry :: "LogEntry \<Rightarrow> logging_root \<Rightarrow> logging_root" where
  "addLogEntry new_entry root =
     (let root = root\<lparr>cur_log_req := cur_log_req root @ [new_entry], log_entry_count := log_entry_count root + 1\<rparr>
      in if log_entry_count root \<ge> 500 then flushLogBuffer root else root)"

definition onLog :: "proto_lib \<Rightarrow> string properties \<Rightarrow> u64 properties \<Rightarrow> u64 \<times> u64 \<times> u64 \<Rightarrow> logging_root \<Rightarrow> logging_root" where
  "onLog P props ints garbage root = addLogEntry (new_log_entry P props ints garbage) root"

text \<open>
  The loop of \<open>sendLogRequest\<close>: \<open>results i\<close> is the host's result for the call number \<open>i\<close>. It
  returns the calls, the requests that stay in the buffer and the number of calls in flight.
\<close>

fun send_loop :: "(nat \<Rightarrow> WasmResult) \<Rightarrow> nat \<Rightarrow> string \<Rightarrow> WriteLogRequest list \<Rightarrow> int \<Rightarrow>
    logging_action list \<times> WriteLogRequest list \<times> int" where
  "send_loop results i service [] in_flight = ([], [], in_flight)"
| "send_loop results i service (req # reqs) in_flight =
     (if results i \<noteq> Ok then ([GrpcSimpleCall service req False], req # reqs, in_flight)
      else case send_loop results (Suc i) service reqs (in_flight + 1) of
             (acts, rest, n) \<Rightarrow> (GrpcSimpleCall service req True # acts, rest, n))"

definition sendLogRequest :: "bool \<Rightarrow> (nat \<Rightarrow> WasmResult) \<Rightarrow> logging_root \<Rightarrow> logging_root \<times> logging_action list" where
  "sendLogRequest ondone results root =
     (case send_loop results 0 (grpc_service root) (req_buffer root) (in_flight_export_call root) of
        (acts, rest, n) \<Rightarrow>
          (root\<lparr>is_on_done := ondone, req_buffer := rest, in_flight_export_call := n\<rparr>, acts))"

definition onDone :: "(nat \<Rightarrow> WasmResult) \<Rightarrow> logging_root \<Rightarrow> bool \<times> logging_root \<times> logging_action list" where
  "onDone results root =
     (if req_buffer root = [] \<and> in_flight_export_call root = 0 then (True, root, [])
      else case sendLogRequest True results (flushLogBuffer root) of (root, acts) \<Rightarrow> (False, root, acts))"

definition onTick :: "(nat \<Rightarrow> WasmResult) \<Rightarrow> logging_root \<Rightarrow> logging_root \<times> logging_action list" where
  "onTick results root =
     (let root = flushLogBuffer root in
      if req_buffer root = [] then (root, []) else sendLogRequest False results root)"

text \<open>The two callbacks do the same, but for what they log.\<close>

definition success_callback :: "logging_root \<Rightarrow> logging_root \<times> logging_action list" where
  "success_callback root =
     (let root = root\<lparr>in_flight_export_call := in_flight_export_call root - 1\<rparr> in
      (root, if in_flight_export_call root \<le> 0 \<and> is_on_done root then [ProxyDoneCall] else []))"

definition failure_callback :: "logging_root \<Rightarrow> logging_root \<times> logging_action list" where
  "failure_callback root =
     (let root = root\<lparr>in_flight_export_call := in_flight_export_call root - 1\<rparr> in
      (root, if in_flight_export_call root \<le> 0 \<and> is_on_done root then [ProxyDoneCall] else []))"

section \<open>Batching without loss\<close>

text \<open>
  The contract of a batching queue: \<open>contents\<close> is all it holds, in order; entries go in at the
  end, whole batches come out at the front.
\<close>

locale batching =
  fixes contents :: "'q \<Rightarrow> 'a list" and add :: "'a \<Rightarrow> 'q \<Rightarrow> 'q" and cut :: "'q \<Rightarrow> 'q"
    and send :: "'r \<Rightarrow> 'q \<Rightarrow> 'a list list \<times> 'q"
  assumes contents_add: "contents (add x q) = contents q @ [x]"
    and contents_cut: "contents (cut q) = contents q"
    and contents_send: "send r q = (batches, q') \<Longrightarrow> contents q = concat batches @ contents q'"
begin

lemma conserved_add: "xs = sent @ contents q \<Longrightarrow> xs @ [x] = sent @ contents (add x q)"
  by (simp add: contents_add)

lemma conserved_send:
  "xs = sent @ contents q \<Longrightarrow> send r (cut q) = (batches, q') \<Longrightarrow> xs = (sent @ concat batches) @ contents q'"
  using contents_send [of r "cut q"] by (simp add: contents_cut)

end

text \<open>The requests that were accepted by the host, among the actions.\<close>

definition accepted :: "logging_action list \<Rightarrow> WriteLogRequest list" where
  "accepted acts = List.map_filter (\<lambda>a. case a of GrpcSimpleCall _ req True \<Rightarrow> Some req | _ \<Rightarrow> None) acts"

lemma accepted_simps [simp]:
  "accepted [] = []"
  "accepted (GrpcSimpleCall s req ok # acts) = (if ok then req # accepted acts else accepted acts)"
  "accepted (SetTickPeriod t # acts) = accepted acts"
  "accepted (ProxyDoneCall # acts) = accepted acts"
  by (simp_all add: accepted_def map_filter_simps)

lemma send_loop_split:
  assumes "send_loop results i service reqs n = (acts, rest, n')"
  shows "reqs = accepted acts @ rest \<and> n' = n + int (length (accepted acts))"
  using assms
proof (induction reqs arbitrary: i n acts n')
  case (Cons req reqs)
  show ?case
  proof (cases "results i = Ok")
    case True
    obtain acts' rest' m where loop: "send_loop results (Suc i) service reqs (n + 1) = (acts', rest', m)"
      by (cases "send_loop results (Suc i) service reqs (n + 1)") auto
    with Cons.prems True show ?thesis using Cons.IH [of "Suc i" "n + 1" acts' n'] by auto
  qed (use Cons.prems in auto)
qed auto

definition entries :: "logging_root \<Rightarrow> LogEntry list" where
  "entries root = concat (req_buffer root) @ cur_log_req root"

text \<open>The counter agrees with the request being written, and no batch is empty or too long.\<close>

definition logging_ok :: "logging_root \<Rightarrow> bool" where
  "logging_ok root \<longleftrightarrow> log_entry_count root = int (length (cur_log_req root)) \<and> log_entry_count root < 500 \<and>
     (\<forall>req \<in> set (req_buffer root). req \<noteq> [] \<and> length req \<le> 500)"

lemma flush_ok: "logging_ok root \<Longrightarrow> logging_ok (flushLogBuffer root) \<and> cur_log_req (flushLogBuffer root) = []"
  by (auto simp: logging_ok_def flushLogBuffer_def)

lemma add_ok: "logging_ok root \<Longrightarrow> logging_ok (addLogEntry e root)"
  by (auto simp: logging_ok_def addLogEntry_def flushLogBuffer_def Let_def)

lemma send_fields:
  assumes "sendLogRequest ondone results root = (root', acts)"
  shows "req_buffer root = accepted acts @ req_buffer root'" "is_on_done root' = ondone"
    "in_flight_export_call root' = in_flight_export_call root + int (length (accepted acts))"
    "cur_log_req root' = cur_log_req root" "log_entry_count root' = log_entry_count root"
  using assms send_loop_split [of results 0 "grpc_service root" "req_buffer root" "in_flight_export_call root"]
  by (auto simp: sendLogRequest_def split: prod.splits)

lemma send_acts:
  assumes "sendLogRequest ondone results root = (root', acts)"
  shows "ProxyDoneCall \<notin> set acts"
proof -
  have "ProxyDoneCall \<notin> set (fst (send_loop results i service reqs n))" for i service reqs n
  proof (induction reqs arbitrary: i n)
    case (Cons req reqs)
    show ?case using Cons.IH [of "Suc i" "n + 1"] by (auto split: prod.split)
  qed simp
  with assms show ?thesis by (auto simp: sendLogRequest_def split: prod.splits) (metis fst_conv)
qed

lemma send_ok:
  assumes "logging_ok root" "sendLogRequest ondone results root = (root', acts)"
  shows "logging_ok root'" "\<forall>req \<in> set (accepted acts). req \<noteq> [] \<and> length req \<le> 500"
  using assms(1) send_fields [OF assms(2)] by (auto simp: logging_ok_def)

definition send_batches :: "bool \<times> (nat \<Rightarrow> WasmResult) \<Rightarrow> logging_root \<Rightarrow> WriteLogRequest list \<times> logging_root" where
  "send_batches r root = (case sendLogRequest (fst r) (snd r) root of (root', acts) \<Rightarrow> (accepted acts, root'))"

interpretation log_queue: batching entries addLogEntry flushLogBuffer send_batches
proof
  fix x q r batches q'
  show "entries (addLogEntry x q) = entries q @ [x]"
    by (simp add: entries_def addLogEntry_def flushLogBuffer_def Let_def)
  show "entries (flushLogBuffer q) = entries q"
    by (simp add: entries_def flushLogBuffer_def)
  show "send_batches r q = (batches, q') \<Longrightarrow> entries q = concat batches @ entries q'"
    using send_fields [of "fst r" "snd r" q q'] by (auto simp: send_batches_def entries_def split: prod.splits)
qed

lemma send_conserved:
  assumes "xs = sent @ entries root" "sendLogRequest ondone results (flushLogBuffer root) = (root', acts)"
  shows "xs = (sent @ concat (accepted acts)) @ entries root'"
proof (rule log_queue.conserved_send [OF assms(1)])
  show "send_batches (ondone, results) (flushLogBuffer root) = (accepted acts, root')"
    using assms(2) by (simp add: send_batches_def)
qed

section \<open>The extension as a state machine\<close>

text \<open>
  \<open>logged\<close> are the entries handed to \<open>addLogEntry\<close>, \<open>delivered\<close> the requests the host accepted,
  \<open>outstanding\<close> the calls without a callback so far, \<open>done_calls\<close> the times \<open>proxy_done\<close> was called.
  They observe the run.
\<close>

record logging_system =
  log_root :: logging_root
  logged :: "LogEntry list"
  delivered :: "WriteLogRequest list"
  outstanding :: nat
  done_calls :: nat

definition observe :: "logging_root \<Rightarrow> logging_action list \<Rightarrow> logging_system \<Rightarrow> logging_system" where
  "observe root' acts s = s\<lparr>log_root := root', delivered := delivered s @ accepted acts,
     outstanding := outstanding s + length (accepted acts),
     done_calls := done_calls s + length (filter (\<lambda>a. a = ProxyDoneCall) acts)\<rparr>"

inductive log_step :: "proto_lib \<Rightarrow> logging_system \<Rightarrow> logging_system \<Rightarrow> bool" for P where
  configure: "onConfigure P data (log_root s) = (ok, root', acts) \<Longrightarrow> log_step P s (observe root' acts s)"
| log: "log_step P s (s\<lparr>log_root := onLog P props ints garbage (log_root s),
      logged := logged s @ [new_log_entry P props ints garbage]\<rparr>)"
| tick: "onTick results (log_root s) = (root', acts) \<Longrightarrow> log_step P s (observe root' acts s)"
| shutdown: "onDone results (log_root s) = (finished, root', acts) \<Longrightarrow> log_step P s (observe root' acts s)"
| success: "0 < outstanding s \<Longrightarrow> success_callback (log_root s) = (root', acts) \<Longrightarrow>
    log_step P s (observe root' acts (s\<lparr>outstanding := outstanding s - 1\<rparr>))"
| failure: "0 < outstanding s \<Longrightarrow> failure_callback (log_root s) = (root', acts) \<Longrightarrow>
    log_step P s (observe root' acts (s\<lparr>outstanding := outstanding s - 1\<rparr>))"

definition initial_logging_system :: logging_system where
  "initial_logging_system = \<lparr>log_root = initial_logging_root, logged = [], delivered = [], outstanding = 0, done_calls = 0\<rparr>"

definition logging_inv :: "logging_system \<Rightarrow> bool" where
  "logging_inv s \<longleftrightarrow> logged s = concat (delivered s) @ entries (log_root s) \<and> logging_ok (log_root s) \<and>
     (\<forall>req \<in> set (delivered s). req \<noteq> [] \<and> length req \<le> 500) \<and>
     in_flight_export_call (log_root s) = int (outstanding s)"

lemma send_inv:
  assumes "logging_inv s" "sendLogRequest ondone results (flushLogBuffer (log_root s)) = (root', acts)"
  shows "logging_inv (observe root' acts s)"
proof -
  have "logging_ok (flushLogBuffer (log_root s))" "in_flight_export_call (flushLogBuffer (log_root s)) = int (outstanding s)"
    using assms(1) flush_ok by (auto simp: logging_inv_def flushLogBuffer_def)
  with send_ok [OF this(1) assms(2)] send_fields [OF assms(2)]
    send_conserved [of "logged s" "concat (delivered s)" "log_root s", OF _ assms(2)] assms(1)
  show ?thesis by (auto simp: logging_inv_def observe_def)
qed

lemma callback_inv:
  assumes "logging_inv s" "0 < outstanding s" "root' = (log_root s)\<lparr>in_flight_export_call := in_flight_export_call (log_root s) - 1\<rparr>"
    and "accepted acts = []"
  shows "logging_inv (observe root' acts (s\<lparr>outstanding := outstanding s - 1\<rparr>))"
  using assms by (auto simp: logging_inv_def observe_def entries_def logging_ok_def)

lemma step_logging_inv:
  assumes "log_step P s s'" "logging_inv s"
  shows "logging_inv s'"
  using assms(1)
proof cases
  case (configure data ok root' acts)
  then show ?thesis
    using assms(2) by (auto simp: onConfigure_def Let_def logging_inv_def observe_def entries_def logging_ok_def
        split: option.splits if_splits)
next
  case (log props ints garbage)
  then show ?thesis
    using assms(2) log_queue.conserved_add [of "logged s" "concat (delivered s)" "log_root s"] add_ok [of "log_root s"]
    by (auto simp: logging_inv_def onLog_def addLogEntry_def flushLogBuffer_def Let_def)
next
  case (tick results root' acts)
  show ?thesis
  proof (cases "req_buffer (flushLogBuffer (log_root s)) = []")
    case True
    with tick have "root' = flushLogBuffer (log_root s)" "acts = []" by (simp_all add: onTick_def Let_def)
    with tick(1) assms(2) True show ?thesis
      by (auto simp: logging_inv_def observe_def flushLogBuffer_def split: if_splits)
  next
    case False
    with tick have "sendLogRequest False results (flushLogBuffer (log_root s)) = (root', acts)"
      by (simp add: onTick_def Let_def)
    with tick(1) send_inv [OF assms(2)] show ?thesis by simp
  qed
next
  case (shutdown results finished root' acts)
  show ?thesis
  proof (cases "req_buffer (log_root s) = [] \<and> in_flight_export_call (log_root s) = 0")
    case True
    with shutdown assms(2) show ?thesis by (auto simp: onDone_def logging_inv_def observe_def)
  next
    case False
    with shutdown have "sendLogRequest True results (flushLogBuffer (log_root s)) = (root', acts)"
      by (auto simp: onDone_def split: prod.splits if_splits)
    with shutdown(1) send_inv [OF assms(2)] show ?thesis by simp
  qed
next
  case (success root' acts)
  then show ?thesis
    using callback_inv [OF assms(2) success(2)] by (auto simp: success_callback_def Let_def)
next
  case (failure root' acts)
  then show ?thesis
    using callback_inv [OF assms(2) failure(2)] by (auto simp: failure_callback_def Let_def)
qed

lemma initial_logging_inv: "logging_inv initial_logging_system"
  by (simp add: logging_inv_def initial_logging_system_def initial_logging_root_def entries_def logging_ok_def)

lemma reachable_logging_inv:
  "(log_step P)\<^sup>*\<^sup>* initial_logging_system s \<Longrightarrow> logging_inv s"
  by (induction rule: rtranclp_induct) (auto intro: initial_logging_inv step_logging_inv)

section \<open>Shutting down\<close>

text \<open>A sequence of callbacks, \<open>True\<close> for a call that succeeded.\<close>

fun run_callbacks :: "bool list \<Rightarrow> logging_root \<Rightarrow> logging_root \<times> logging_action list" where
  "run_callbacks [] root = (root, [])"
| "run_callbacks (ok # oks) root =
     (case (if ok then success_callback root else failure_callback root) of (root, acts) \<Rightarrow>
      case run_callbacks oks root of (root, acts') \<Rightarrow> (root, acts @ acts'))"

lemma callback_eq:
  "(if ok then success_callback root else failure_callback root) =
   (root\<lparr>in_flight_export_call := in_flight_export_call root - 1\<rparr>,
    if in_flight_export_call root \<le> 1 \<and> is_on_done root then [ProxyDoneCall] else [])"
  by (simp add: success_callback_def failure_callback_def Let_def)

lemma run_callbacks_on_done:
  assumes "is_on_done root" "in_flight_export_call root = int (length oks)"
  shows "run_callbacks oks root =
    (root\<lparr>in_flight_export_call := 0\<rparr>, if oks = [] then [] else [ProxyDoneCall])"
  using assms
proof (induction oks arbitrary: root)
  case (Cons ok oks)
  then have "run_callbacks oks (root\<lparr>in_flight_export_call := in_flight_export_call root - 1\<rparr>) =
      (root\<lparr>in_flight_export_call := 0\<rparr>, if oks = [] then [] else [ProxyDoneCall])" by simp
  with Cons.prems show ?case
    unfolding run_callbacks.simps callback_eq by (cases oks) auto
qed simp

lemma run_callbacks_not_done:
  "\<not> is_on_done root \<Longrightarrow> snd (run_callbacks oks root) = [] \<and> \<not> is_on_done (fst (run_callbacks oks root))"
proof (induction oks arbitrary: root)
  case (Cons ok oks)
  then have "snd (run_callbacks oks (root\<lparr>in_flight_export_call := in_flight_export_call root - 1\<rparr>)) = [] \<and>
      \<not> is_on_done (fst (run_callbacks oks (root\<lparr>in_flight_export_call := in_flight_export_call root - 1\<rparr>)))"
    by simp
  with Cons.prems show ?case
    unfolding run_callbacks.simps callback_eq by (simp split: prod.split)
qed simp

lemma fold_addLogEntry:
  assumes "length (cur_log_req root) + length es < 500" "log_entry_count root = int (length (cur_log_req root))"
  shows "fold addLogEntry es root =
    root\<lparr>cur_log_req := cur_log_req root @ es, log_entry_count := log_entry_count root + int (length es)\<rparr>"
  using assms
proof (induction es arbitrary: root)
  case (Cons e es)
  then have "addLogEntry e root =
      root\<lparr>cur_log_req := cur_log_req root @ [e], log_entry_count := log_entry_count root + 1\<rparr>"
    by (simp add: addLogEntry_def)
  with Cons show ?case by (simp add: algebra_simps)
qed simp

section \<open>Properties\<close>

text \<open>
  C8: no log entry is lost, duplicated or reordered while the extension runs: what was logged is
  exactly the entries of the delivered requests, then of the buffered ones, then of the request being
  written, whatever calls the host rejects and however the callbacks come. Every delivered request
  has between 1 and 500 entries, and the counter of calls in flight is the number of calls whose
  callback is still to come.
\<close>

theorem logging_conserves:
  assumes "(log_step P)\<^sup>*\<^sup>* initial_logging_system s"
  shows "logged s = concat (delivered s) @ concat (req_buffer (log_root s)) @ cur_log_req (log_root s) \<and>
    (\<forall>req \<in> set (delivered s). 1 \<le> length req \<and> length req \<le> 500) \<and>
    length (cur_log_req (log_root s)) < 500 \<and> in_flight_export_call (log_root s) = int (outstanding s)"
proof -
  have "logging_inv s" by (rule reachable_logging_inv [OF assms])
  then show ?thesis
    by (auto simp: logging_inv_def entries_def logging_ok_def Suc_le_eq)
qed

definition example_proto :: proto_lib where
  "example_proto = \<lparr>parse_config = (\<lambda>_. Some ''log:8080''), serialize_service = id,
     NanosecondsToTimestamp = (\<lambda>t. (uint t div 1000000000, uint t mod 1000000000)),
     NanosecondsToDuration = (\<lambda>t. (uint t div 1000000000, uint t mod 1000000000))\<rparr>"

definition example_entry :: LogEntry where
  "example_entry = new_log_entry example_proto (\<lambda>_. None) (\<lambda>_. None) (0, 0, 0)"

text \<open>One entry is logged and sent on the next tick.\<close>

lemma example_log_run:
  "\<exists>s. (log_step example_proto)\<^sup>*\<^sup>* initial_logging_system s \<and> delivered s = [[example_entry]] \<and>
     logged s = [example_entry] \<and> outstanding s = 1"
proof -
  let ?e = example_entry
  let ?s1 = "initial_logging_system\<lparr>log_root := addLogEntry ?e initial_logging_root, logged := [?e]\<rparr>"
  let ?r = "initial_logging_root\<lparr>in_flight_export_call := 1\<rparr>"
  let ?s2 = "observe ?r [GrpcSimpleCall '''' [?e] True] ?s1"
  have "log_step example_proto initial_logging_system ?s1"
    using log_step.log [of example_proto initial_logging_system "\<lambda>_. None" "\<lambda>_. None" "(0, 0, 0)"]
    by (simp add: initial_logging_system_def onLog_def example_entry_def)
  moreover have "onTick (\<lambda>_. Ok) (log_root ?s1) = (?r, [GrpcSimpleCall '''' [?e] True])"
    by (simp add: onTick_def addLogEntry_def flushLogBuffer_def initial_logging_root_def sendLogRequest_def Let_def)
  then have "log_step example_proto ?s1 ?s2"
    by (rule log_step.tick)
  ultimately have "(log_step example_proto)\<^sup>*\<^sup>* initial_logging_system ?s2"
    by (meson converse_rtranclp_into_rtranclp rtranclp.rtrancl_refl)
  then show ?thesis
    by (intro exI [of _ ?s2]) (simp add: observe_def initial_logging_system_def)
qed

theorem logging_conserves_witness:
  "\<exists>s. (log_step example_proto)\<^sup>*\<^sup>* initial_logging_system s \<and> logged s = [example_entry] \<and>
     concat (req_buffer (log_root s)) @ cur_log_req (log_root s) = [] \<and> in_flight_export_call (log_root s) = 1"
proof -
  obtain s where s: "(log_step example_proto)\<^sup>*\<^sup>* initial_logging_system s" "delivered s = [[example_entry]]"
    "logged s = [example_entry]" "outstanding s = 1" using example_log_run by blast
  from logging_conserves [OF s(1)] s show ?thesis by (intro exI [of _ s]) simp
qed

text \<open>
  The entries that are not flushed when the extension shuts down are lost: with an empty buffer
  and no call in flight, \<open>onDone\<close> reports that all work is finished and sends nothing, although up
  to 499 entries wait in the current request.
\<close>

lemma shutdown_loses_entries:
  assumes "length es < 500"
  shows "onDone results (fold addLogEntry es initial_logging_root) =
      (True, fold addLogEntry es initial_logging_root, []) \<and>
    cur_log_req (fold addLogEntry es initial_logging_root) = es"
  using assms by (simp add: fold_addLogEntry initial_logging_root_def onDone_def)

lemma shutdown_loses_entries_example:
  "onDone (\<lambda>_. Ok) (fold addLogEntry [example_entry] initial_logging_root) =
     (True, fold addLogEntry [example_entry] initial_logging_root, [])"
  using shutdown_loses_entries [of "[example_entry]" "\<lambda>_. Ok"] by simp



text \<open>
  If the host rejects the first call of the shutdown and no call is in flight, nothing is left
  that could call \<open>proxy_done\<close>: there is no callback to come, and when a later tick sends the
  requests it takes back the mark that the extension is shutting down, so their callbacks do not
  call it either.
\<close>

lemma shutdown_stuck:
  assumes "req_buffer root \<noteq> []" "in_flight_export_call root = 0" "results 0 \<noteq> Ok"
  shows "\<exists>root' acts. onDone results root = (False, root', acts) \<and> in_flight_export_call root' = 0 \<and>
    req_buffer root' = req_buffer (flushLogBuffer root) \<and> ProxyDoneCall \<notin> set acts \<and>
    (\<forall>results' oks. case onTick results' root' of (root'', acts'') \<Rightarrow>
       ProxyDoneCall \<notin> set acts'' \<and> snd (run_callbacks oks root'') = [])"
proof -
  let ?f = "flushLogBuffer root"
  have buf: "req_buffer ?f \<noteq> []" "in_flight_export_call ?f = 0"
    using assms(1,2) by (auto simp: flushLogBuffer_def)
  then obtain req reqs where "req_buffer ?f = req # reqs" by (cases "req_buffer ?f") auto
  then have send: "sendLogRequest True results ?f = (?f\<lparr>is_on_done := True\<rparr>, [GrpcSimpleCall (grpc_service ?f) req False])"
    using assms(3) buf(2) by (simp add: sendLogRequest_def)
  have tick: "ProxyDoneCall \<notin> set acts'' \<and> snd (run_callbacks oks root'') = []"
    if "onTick results' (?f\<lparr>is_on_done := True\<rparr>) = (root'', acts'')" for results' oks root'' acts''
  proof -
    have "req_buffer (flushLogBuffer (?f\<lparr>is_on_done := True\<rparr>)) \<noteq> []"
      using buf(1) by (auto simp: flushLogBuffer_def)
    with that have "sendLogRequest False results' (flushLogBuffer (?f\<lparr>is_on_done := True\<rparr>)) = (root'', acts'')"
      by (simp add: onTick_def Let_def)
    with send_fields(2) [OF this] send_acts [OF this] show ?thesis using run_callbacks_not_done by blast
  qed
  show ?thesis
    using assms(1) send buf(2) tick
    by (intro exI [of _ "?f\<lparr>is_on_done := True\<rparr>"] exI [of _ "[GrpcSimpleCall (grpc_service ?f) req False]"])
      (auto simp: onDone_def split: prod.split)
qed

lemma shutdown_stuck_example:
  "\<exists>root' acts. onDone (\<lambda>_. Failure 1) (initial_logging_root\<lparr>req_buffer := [[example_entry]]\<rparr>) = (False, root', acts) \<and>
     in_flight_export_call root' = 0"
  using shutdown_stuck [of "initial_logging_root\<lparr>req_buffer := [[example_entry]]\<rparr>" "\<lambda>_. Failure 1"]
  by (auto simp: initial_logging_root_def)

end
