(* ===== verification/Expr_Service.thy ===== *)
theory Expr_Service
  imports Proxy_Host
begin

text \<open>
  The expression service of the host, on which the attribute generator and the statistics extension
  rest: an expression is compiled into a token (\<open>createExpression\<close>), evaluated by its token, and
  deleted (\<open>exprDelete\<close>). The service is outside the repository. The locale states what is
  documented of it: a successful compilation hands out a token that is not in use, and only
  compilation and deletion change the tokens in use.
\<close>

locale expression_service =
  fixes create :: "string \<Rightarrow> 'h \<Rightarrow> WasmResult \<times> u32 \<times> 'h" and expr_delete :: "u32 \<Rightarrow> 'h \<Rightarrow> 'h"
    and live :: "'h \<Rightarrow> u32 set"
  assumes create_ok: "create e h = (Ok, t, h') \<Longrightarrow> t \<notin> live h \<and> live h' = insert t (live h)"
    and create_failed: "create e h = (r, t, h') \<Longrightarrow> r \<noteq> Ok \<Longrightarrow> live h' = live h"
    and delete_live: "live (expr_delete t h) = live h - {t}"
begin

text \<open>\<open>owns h base ts\<close>: beyond the tokens \<open>base\<close> of others, exactly \<open>ts\<close> are in use.\<close>

definition owns :: "'h \<Rightarrow> u32 set \<Rightarrow> u32 list \<Rightarrow> bool" where
  "owns h base ts \<longleftrightarrow> distinct ts \<and> set ts \<inter> base = {} \<and> live h = base \<union> set ts"

lemma owns_create: "owns h base ts \<Longrightarrow> create e h = (Ok, t, h') \<Longrightarrow> owns h' base (ts @ [t])"
  using create_ok by (fastforce simp: owns_def)

lemma owns_create_failed: "owns h base ts \<Longrightarrow> create e h = (r, t, h') \<Longrightarrow> r \<noteq> Ok \<Longrightarrow> owns h' base ts"
  using create_failed by (fastforce simp: owns_def)

lemma live_delete_all: "live (fold expr_delete ts h) = live h - set ts"
  by (induction ts arbitrary: h) (auto simp: delete_live)

lemma owns_delete_all: "owns h base ts \<Longrightarrow> owns (fold expr_delete ts h) base []"
  by (auto simp: owns_def live_delete_all)

lemma owns_append: "owns h base (ts @ us) \<Longrightarrow> owns h (base \<union> set us) ts"
  by (auto simp: owns_def)

lemma owns_perm: "owns h base ts \<Longrightarrow> set us = set ts \<Longrightarrow> distinct us \<Longrightarrow> owns h base us"
  by (auto simp: owns_def)

end

text \<open>
  A service with this behaviour: tokens are numbered consecutively, the empty expression does not
  compile, and compilation fails once the 32-bit tokens are used up.
\<close>

type_synonym expr_host = "nat \<times> u32 set"

definition host_create :: "string \<Rightarrow> expr_host \<Rightarrow> WasmResult \<times> u32 \<times> expr_host" where
  "host_create e h = (case h of (next, used) \<Rightarrow>
     if e = '''' \<or> of_nat next \<in> used then (Failure 2, 0, h)
     else (Ok, of_nat next, (Suc next, insert (of_nat next) used)))"

definition host_delete :: "u32 \<Rightarrow> expr_host \<Rightarrow> expr_host" where
  "host_delete t h = (case h of (next, used) \<Rightarrow> (next, used - {t}))"

interpretation numbered: expression_service host_create host_delete snd
  by unfold_locales (auto simp: host_create_def host_delete_def split: prod.splits if_splits)

end
