(* ===== verification/Attribute_Gen.thy ===== *)
theory Attribute_Gen
  imports Expr_Service
begin

text \<open>
  The attribute generator (\<open>extensions/attributegen/plugin.{h,cc}\<close>): each configured attribute has a
  list of matches, conditions compiled on the host with the value they select; on a request or at
  the end of a stream the value of the first match whose condition holds is written to the filter
  state.

  The protobuf JSON parser is an argument, as are the host's expression service (\<open>create\<close>,
  \<open>expr_delete\<close> over the state \<open>'h\<close> of the service) and the evaluation of an expression for the
  current stream, which yields a result and the bytes it returned.
\<close>

section \<open>The code\<close>

record Match =
  condition :: string
  condition_token :: u32
  match_value :: string

datatype EvalPhase = OnLog | OnRequest

record AttributeGenerator =
  phase :: EvalPhase
  output_attribute :: string
  matches :: "Match list"

text \<open>The configuration message.\<close>

datatype config_phase = ON_LOG | ON_REQUEST

record AttributeGeneration =
  gen_phase :: config_phase
  gen_output_attribute :: string
  gen_match :: "(string \<times> string) list" \<comment> \<open>condition and value\<close>

record PluginConfig =
  config_debug :: bool
  config_attributes :: "AttributeGeneration list"

record attributegen_root =
  gen :: "AttributeGenerator list"
  tokens :: "u32 list"
  debug :: bool
  config_errors :: u32
  runtime_errors :: u32

text \<open>The constructor; \<open>debug_\<close> has no initial value.\<close>

definition initial_attributegen_root :: "bool \<Rightarrow> (string list \<Rightarrow> u32) \<Rightarrow> attributegen_root" where
  "initial_attributegen_root garbage resolve = \<lparr>gen = [], tokens = [], debug = garbage,
     config_errors = resolve [''attributegen'', ''config''],
     runtime_errors = resolve [''attributegen'', ''runtime'']\<rparr>"

text \<open>\<open>Match::evaluate\<close>: \<open>None\<close> in case of an error. A bool is one byte.\<close>

definition match_evaluate :: "(u32 \<Rightarrow> WasmResult \<times> bytes) \<Rightarrow> Match \<Rightarrow> bool option" where
  "match_evaluate expr_evaluate m =
     (if condition m = '''' then Some True
      else case expr_evaluate (condition_token m) of (result, out) \<Rightarrow>
             if result \<noteq> Ok then None
             else if length out \<noteq> 1 then None
             else Some (out ! 0 \<noteq> 0))"

text \<open>The loop of \<open>AttributeGenerator::evaluate\<close>, with the value it sets.\<close>

fun evaluate_matches :: "(u32 \<Rightarrow> WasmResult \<times> bytes) \<Rightarrow> Match list \<Rightarrow> string \<Rightarrow> bool option \<times> string" where
  "evaluate_matches expr_evaluate [] val = (Some False, val)"
| "evaluate_matches expr_evaluate (m # ms) val =
     (case match_evaluate expr_evaluate m of
        None \<Rightarrow> (None, val)
      | Some eval_status \<Rightarrow>
          if eval_status then (Some True, match_value m) else evaluate_matches expr_evaluate ms val)"

definition evaluate :: "(u32 \<Rightarrow> WasmResult \<times> bytes) \<Rightarrow> AttributeGenerator \<Rightarrow> string \<Rightarrow> bool option \<times> string" where
  "evaluate expr_evaluate g val = evaluate_matches expr_evaluate (matches g) val"

text \<open>\<open>attributeGen\<close>: the loop over the generators, and what it asks of the host.\<close>

fun generate :: "(u32 \<Rightarrow> WasmResult \<times> bytes) \<Rightarrow> EvalPhase \<Rightarrow> u32 \<Rightarrow> AttributeGenerator list \<Rightarrow> host_action list" where
  "generate expr_evaluate ph errors [] = []"
| "generate expr_evaluate ph errors (g # gs) =
     (if ph \<noteq> phase g then generate expr_evaluate ph errors gs
      else case evaluate expr_evaluate g '''' of
          (None, val) \<Rightarrow> IncrementMetric errors 1 # generate expr_evaluate ph errors gs
        | (Some eval_status, val) \<Rightarrow>
            if \<not> eval_status then generate expr_evaluate ph errors gs
            else SetFilterState (output_attribute g) val # generate expr_evaluate ph errors gs)"

definition attributeGen :: "(u32 \<Rightarrow> WasmResult \<times> bytes) \<Rightarrow> EvalPhase \<Rightarrow> attributegen_root \<Rightarrow> host_action list" where
  "attributeGen expr_evaluate ph root = generate expr_evaluate ph (runtime_errors root) (gen root)"

definition onLog :: "(u32 \<Rightarrow> WasmResult \<times> bytes) \<Rightarrow> attributegen_root \<Rightarrow> host_action list" where
  "onLog expr_evaluate root = attributeGen expr_evaluate OnLog root"

definition onRequestHeaders :: "(u32 \<Rightarrow> WasmResult \<times> bytes) \<Rightarrow> attributegen_root \<Rightarrow> FilterHeadersStatus \<times> host_action list" where
  "onRequestHeaders expr_evaluate root = (Continue, attributeGen expr_evaluate OnRequest root)"

text \<open>The inner loop of \<open>initAttributeGen\<close>: \<open>None\<close> for the matches when a condition does not compile.\<close>

fun init_matches :: "(string \<Rightarrow> 'h \<Rightarrow> WasmResult \<times> u32 \<times> 'h) \<Rightarrow> (string \<times> string) list \<Rightarrow> Match list \<Rightarrow>
    u32 list \<Rightarrow> 'h \<Rightarrow> Match list option \<times> u32 list \<times> 'h" where
  "init_matches create [] ms toks h = (Some ms, toks, h)"
| "init_matches create ((cond, val) # cs) ms toks h =
     (if cond = '''' then
        init_matches create cs (ms @ [\<lparr>condition = '''', condition_token = 0, match_value = val\<rparr>]) toks h
      else case create cond h of (create_status, token, h) \<Rightarrow>
             if create_status \<noteq> Ok then (None, toks, h)
             else init_matches create cs
                    (ms @ [\<lparr>condition = cond, condition_token = token, match_value = val\<rparr>]) (toks @ [token]) h)"

fun init_generators :: "(string \<Rightarrow> 'h \<Rightarrow> WasmResult \<times> u32 \<times> 'h) \<Rightarrow> AttributeGeneration list \<Rightarrow>
    AttributeGenerator list \<Rightarrow> u32 list \<Rightarrow> 'h \<Rightarrow> bool \<times> AttributeGenerator list \<times> u32 list \<times> 'h" where
  "init_generators create [] gs toks h = (True, gs, toks, h)"
| "init_generators create (c # cs) gs toks h =
     (let ph = (if gen_phase c = ON_REQUEST then OnRequest else OnLog) in
      case init_matches create (gen_match c) [] toks h of
        (None, toks, h) \<Rightarrow> (False, gs, toks, h)
      | (Some ms, toks, h) \<Rightarrow>
          init_generators create cs
            (gs @ [\<lparr>phase = ph, output_attribute = gen_output_attribute c, matches = ms\<rparr>]) toks h)"

definition initAttributeGen :: "(string \<Rightarrow> 'h \<Rightarrow> WasmResult \<times> u32 \<times> 'h) \<Rightarrow> PluginConfig \<Rightarrow>
    attributegen_root \<Rightarrow> 'h \<Rightarrow> bool \<times> attributegen_root \<times> 'h" where
  "initAttributeGen create config root h =
     (case init_generators create (config_attributes config) (gen root) (tokens root) h of
        (ok, gs, toks, h) \<Rightarrow> (ok, root\<lparr>gen := gs, tokens := toks\<rparr>, h))"

definition cleanupAttributeGen :: "(u32 \<Rightarrow> 'h \<Rightarrow> 'h) \<Rightarrow> attributegen_root \<Rightarrow> 'h \<Rightarrow> attributegen_root \<times> 'h" where
  "cleanupAttributeGen expr_delete root h =
     (root\<lparr>gen := [], tokens := []\<rparr>, fold expr_delete (tokens root) h)"

definition onConfigure :: "(string \<Rightarrow> PluginConfig option) \<Rightarrow> (string \<Rightarrow> 'h \<Rightarrow> WasmResult \<times> u32 \<times> 'h) \<Rightarrow>
    (u32 \<Rightarrow> 'h \<Rightarrow> 'h) \<Rightarrow> string \<Rightarrow> attributegen_root \<Rightarrow> 'h \<Rightarrow> bool \<times> attributegen_root \<times> 'h \<times> host_action list" where
  "onConfigure parse create expr_delete configuration root h =
     (case parse configuration of
        None \<Rightarrow> (True, root, h, [IncrementMetric (config_errors root) 1])
      | Some config \<Rightarrow>
          let root = root\<lparr>debug := config_debug config\<rparr> in
          case cleanupAttributeGen expr_delete root h of (root, h) \<Rightarrow>
          case initAttributeGen create config root h of (init_status, root, h) \<Rightarrow>
          if \<not> init_status then
            case cleanupAttributeGen expr_delete root h of (root, h) \<Rightarrow>
              (True, root, h, [IncrementMetric (config_errors root) 1])
          else (True, root, h, []))"

definition onDone :: "(u32 \<Rightarrow> 'h \<Rightarrow> 'h) \<Rightarrow> attributegen_root \<Rightarrow> 'h \<Rightarrow> bool \<times> attributegen_root \<times> 'h" where
  "onDone expr_delete root h = (case cleanupAttributeGen expr_delete root h of (root, h) \<Rightarrow> (True, root, h))"

section \<open>The meaning of a generator\<close>

text \<open>
  The matches up to the first that is not false decide: no such match, no value; an error there, no
  value and an error; otherwise the value of that match.
\<close>

definition first_decided :: "(u32 \<Rightarrow> WasmResult \<times> bytes) \<Rightarrow> Match list \<Rightarrow> Match option" where
  "first_decided expr_evaluate ms = List.find (\<lambda>m. match_evaluate expr_evaluate m \<noteq> Some False) ms"

lemma evaluate_matches_eq:
  "evaluate_matches expr_evaluate ms val =
     (case first_decided expr_evaluate ms of
        None \<Rightarrow> (Some False, val)
      | Some m \<Rightarrow> (if match_evaluate expr_evaluate m = None then (None, val) else (Some True, match_value m)))"
  by (induction ms) (auto simp: first_decided_def split: option.split)

definition generator_action :: "(u32 \<Rightarrow> WasmResult \<times> bytes) \<Rightarrow> u32 \<Rightarrow> AttributeGenerator \<Rightarrow> host_action option" where
  "generator_action expr_evaluate errors g =
     (case first_decided expr_evaluate (matches g) of
        None \<Rightarrow> None
      | Some m \<Rightarrow>
          (case match_evaluate expr_evaluate m of
             None \<Rightarrow> Some (IncrementMetric errors 1)
           | Some _ \<Rightarrow> Some (SetFilterState (output_attribute g) (match_value m))))"

lemma generate_eq:
  "generate expr_evaluate ph errors gs =
     List.map_filter (generator_action expr_evaluate errors) (filter (\<lambda>g. phase g = ph) gs)"
  by (induction gs) (auto simp: evaluate_def evaluate_matches_eq generator_action_def map_filter_simps
      split: option.split)

section \<open>The meaning of a configuration\<close>

text \<open>A configured generator as it is compiled: the same matches, with some tokens.\<close>

definition compiles :: "AttributeGeneration \<Rightarrow> AttributeGenerator \<Rightarrow> bool" where
  "compiles c g \<longleftrightarrow> phase g = (if gen_phase c = ON_REQUEST then OnRequest else OnLog) \<and>
     output_attribute g = gen_output_attribute c \<and>
     map (\<lambda>m. (condition m, match_value m)) (matches g) = gen_match c"

lemma init_matches_compiled:
  "init_matches create cs ms toks h = (Some ms', toks', h') \<Longrightarrow>
   map (\<lambda>m. (condition m, match_value m)) ms' = map (\<lambda>m. (condition m, match_value m)) ms @ cs"
  by (induction create cs ms toks h rule: init_matches.induct) (auto split: if_splits prod.splits)

lemma init_generators_compiled:
  "init_generators create cs gs toks h = (True, gs', toks', h') \<Longrightarrow>
   \<exists>new. gs' = gs @ new \<and> list_all2 compiles cs new"
proof (induction cs arbitrary: gs toks h)
  case (Cons c cs)
  let ?ph = "if gen_phase c = ON_REQUEST then OnRequest else OnLog"
  obtain ms toks1 h1 where m: "init_matches create (gen_match c) [] toks h = (Some ms, toks1, h1)"
    using Cons.prems by (auto simp: Let_def split: prod.splits option.splits)
  let ?g = "\<lparr>phase = ?ph, output_attribute = gen_output_attribute c, matches = ms\<rparr>"
  have "init_generators create cs (gs @ [?g]) toks1 h1 = (True, gs', toks', h')"
    using Cons.prems m by (simp add: Let_def)
  from Cons.IH [OF this] obtain new where "gs' = (gs @ [?g]) @ new" "list_all2 compiles cs new" by blast
  moreover have "compiles c ?g" using init_matches_compiled [OF m] by (simp add: compiles_def)
  ultimately show ?case by (intro exI [of _ "?g # new"]) simp
qed simp

section \<open>Tokens\<close>

text \<open>Every condition to be evaluated has a token of the extension.\<close>

definition match_covered :: "u32 list \<Rightarrow> Match \<Rightarrow> bool" where
  "match_covered toks m \<longleftrightarrow> condition m = '''' \<or> condition_token m \<in> set toks"

definition covered :: "u32 list \<Rightarrow> AttributeGenerator list \<Rightarrow> bool" where
  "covered toks gs \<longleftrightarrow> (\<forall>g \<in> set gs. \<forall>m \<in> set (matches g). match_covered toks m)"

lemma covered_mono: "covered toks gs \<Longrightarrow> set toks \<subseteq> set toks' \<Longrightarrow> covered toks' gs"
  by (auto simp: covered_def match_covered_def)

lemma init_matches_covered:
  "init_matches create cs ms toks h = (ms', toks', h') \<Longrightarrow> set toks \<subseteq> set toks' \<and>
   ((\<forall>m \<in> set ms. match_covered toks m) \<longrightarrow> (\<forall>xs. ms' = Some xs \<longrightarrow> (\<forall>m \<in> set xs. match_covered toks' m)))"
proof (induction create cs ms toks h rule: init_matches.induct)
  case (2 create cond val cs ms toks h)
  show ?case
  proof (cases "cond = ''''")
    case True
    with 2 show ?thesis by (auto simp: match_covered_def)
  next
    case False
    obtain r t h1 where c: "create cond h = (r, t, h1)" by (cases "create cond h") auto
    show ?thesis
    proof (cases "r = Ok")
      case True
      with 2 c False have "set (toks @ [t]) \<subseteq> set toks' \<and>
          ((\<forall>m \<in> set (ms @ [\<lparr>condition = cond, condition_token = t, match_value = val\<rparr>]). match_covered (toks @ [t]) m) \<longrightarrow>
           (\<forall>xs. ms' = Some xs \<longrightarrow> (\<forall>m \<in> set xs. match_covered toks' m)))" by simp
      then show ?thesis by (auto simp: match_covered_def)
    qed (use 2 c False in auto)
  qed
qed auto

context expression_service
begin

lemma owns_init_matches:
  "init_matches create cs ms toks h = (ms', toks', h') \<Longrightarrow> owns h base toks \<Longrightarrow> owns h' base toks'"
proof (induction cs arbitrary: ms toks h)
  case (Cons c cs)
  obtain cond val where c: "c = (cond, val)" by (cases c)
  obtain r t h1 where create: "create cond h = (r, t, h1)" by (cases "create cond h") auto
  show ?case
  proof (cases "cond \<noteq> '''' \<and> r = Ok")
    case True
    with Cons.prems c create have "owns h1 base (toks @ [t])" using owns_create [of h base toks cond t h1] by simp
    with Cons.prems(1) True c create Cons.IH show ?thesis by simp
  next
    case False
    with Cons c create owns_create_failed [of h base toks cond r t h1] show ?thesis by (auto split: if_splits)
  qed
qed simp

lemma owns_init_generators:
  "init_generators create cs gs toks h = (ok, gs', toks', h') \<Longrightarrow> owns h base toks \<Longrightarrow> covered toks gs \<Longrightarrow>
   owns h' base toks' \<and> covered toks' gs'"
proof (induction cs arbitrary: gs toks h)
  case (Cons c cs)
  let ?ph = "if gen_phase c = ON_REQUEST then OnRequest else OnLog"
  obtain ms toks1 h1 where m: "init_matches create (gen_match c) [] toks h = (ms, toks1, h1)"
    by (cases "init_matches create (gen_match c) [] toks h") auto
  have owns: "owns h1 base toks1" using owns_init_matches [OF m Cons.prems(2)] .
  have sub: "set toks \<subseteq> set toks1" and cov: "\<And>xs. ms = Some xs \<Longrightarrow> \<forall>m \<in> set xs. match_covered toks1 m"
    using init_matches_covered [OF m] by auto
  show ?case
  proof (cases ms)
    case None
    with Cons.prems m owns show ?thesis using covered_mono [OF Cons.prems(3) sub] by (simp add: Let_def)
  next
    case (Some xs)
    let ?g = "\<lparr>phase = ?ph, output_attribute = gen_output_attribute c, matches = xs\<rparr>"
    have "covered toks1 (gs @ [?g])"
      using covered_mono [OF Cons.prems(3) sub] cov [OF Some] by (auto simp: covered_def)
    moreover have "init_generators create cs (gs @ [?g]) toks1 h1 = (ok, gs', toks', h')"
      using Cons.prems(1) m Some by (simp add: Let_def)
    ultimately show ?thesis using Cons.IH owns by blast
  qed
qed simp

definition attributegen_ok :: "u32 set \<Rightarrow> attributegen_root \<Rightarrow> 'h \<Rightarrow> bool" where
  "attributegen_ok base root h \<longleftrightarrow> owns h base (tokens root) \<and> covered (tokens root) (gen root)"

lemma cleanup_ok:
  "attributegen_ok base root h \<Longrightarrow> cleanupAttributeGen expr_delete root h = (root', h') \<Longrightarrow>
   attributegen_ok base root' h' \<and> gen root' = [] \<and> tokens root' = [] \<and> live h' = base"
  using owns_delete_all [of h base "tokens root"]
  by (auto simp: attributegen_ok_def cleanupAttributeGen_def covered_def owns_def)

lemma init_ok:
  "attributegen_ok base root h \<Longrightarrow> initAttributeGen create config root h = (ok, root', h') \<Longrightarrow>
   attributegen_ok base root' h'"
  using owns_init_generators [of "config_attributes config" "gen root" "tokens root" h ok]
  by (auto simp: attributegen_ok_def initAttributeGen_def split: prod.splits)

lemma configure_ok:
  assumes "attributegen_ok base root h" "onConfigure parse create expr_delete data root h = (r, root', h', acts)"
  shows "attributegen_ok base root' h'"
proof (cases "parse data")
  case None
  with assms show ?thesis by (auto simp: onConfigure_def)
next
  case (Some config)
  obtain r1 h1 where c1: "cleanupAttributeGen expr_delete (root\<lparr>debug := config_debug config\<rparr>) h = (r1, h1)"
    by (cases "cleanupAttributeGen expr_delete (root\<lparr>debug := config_debug config\<rparr>) h")
  obtain ok r2 h2 where i: "initAttributeGen create config r1 h1 = (ok, r2, h2)"
    by (cases "initAttributeGen create config r1 h1") auto
  have "attributegen_ok base (root\<lparr>debug := config_debug config\<rparr>) h" using assms(1) by (simp add: attributegen_ok_def)
  from init_ok [OF conjunct1 [OF cleanup_ok [OF this c1]] i] have ok2: "attributegen_ok base r2 h2" .
  show ?thesis
  proof (cases ok)
    case True
    with assms(2) Some c1 i ok2 show ?thesis by (simp add: onConfigure_def Let_def)
  next
    case False
    obtain r3 h3 where c3: "cleanupAttributeGen expr_delete r2 h2 = (r3, h3)"
      by (cases "cleanupAttributeGen expr_delete r2 h2")
    with False assms(2) Some c1 i have "root' = r3" "h' = h3" by (simp_all add: onConfigure_def Let_def)
    with cleanup_ok [OF ok2 c3] show ?thesis by simp
  qed
qed

end

section \<open>Properties\<close>

text \<open>
  C37: what is generated: for each generator of the phase, in the order of the configuration, the
  first match whose condition is not false decides. Its value is written to the attribute if the
  condition is empty or holds; if it cannot be evaluated, nothing is written, an error is counted,
  and later matches are not tried; if every condition is false nothing happens.
\<close>

theorem attributeGen_first_match:
  "attributeGen expr_evaluate ph root =
     List.map_filter (\<lambda>g. case List.find (\<lambda>m. match_evaluate expr_evaluate m \<noteq> Some False) (matches g) of
         None \<Rightarrow> None
       | Some m \<Rightarrow> (case match_evaluate expr_evaluate m of
            None \<Rightarrow> Some (IncrementMetric (runtime_errors root) 1)
          | Some _ \<Rightarrow> Some (SetFilterState (output_attribute g) (match_value m))))
       (filter (\<lambda>g. phase g = ph) (gen root))"
  unfolding attributeGen_def generate_eq generator_action_def first_decided_def by (rule refl)

text \<open>
  C38: a configuration never makes the proxy fail, and it is loaded completely or not at all: if the
  JSON is invalid, the previous generators stay and an error is counted; if a condition does not
  compile, no generator is left, no token is held, and an error is counted; otherwise the generators
  are exactly the configured ones, in order, each with its phase, attribute, conditions and values.
\<close>

theorem onConfigure_all_or_nothing:
  assumes "onConfigure parse create expr_delete data root h = (ok, root', h', acts)"
  shows "ok \<and> (case parse data of
      None \<Rightarrow> root' = root \<and> h' = h \<and> acts = [IncrementMetric (config_errors root) 1]
    | Some config \<Rightarrow>
        gen root' = [] \<and> tokens root' = [] \<and> acts = [IncrementMetric (config_errors root) 1] \<or>
        list_all2 compiles (config_attributes config) (gen root') \<and> acts = [])"
proof (cases "parse data")
  case None
  then have "onConfigure parse create expr_delete data root h = (True, root, h, [IncrementMetric (config_errors root) 1])"
    by (simp add: onConfigure_def)
  from trans [OF sym [OF assms] this]
  have "(ok, root', h', acts) = (True, root, h, [IncrementMetric (config_errors root) 1])" .
  with None show ?thesis by simp
next
  case (Some config)
  let ?r = "(root\<lparr>debug := config_debug config\<rparr>)\<lparr>gen := [], tokens := []\<rparr>"
  obtain ok' gs toks h2 where i: "init_generators create (config_attributes config) [] [] (fold expr_delete (tokens root) h) = (ok', gs, toks, h2)"
    by (cases "init_generators create (config_attributes config) [] [] (fold expr_delete (tokens root) h)") auto
  show ?thesis
  proof (cases ok')
    case True
    with i have "list_all2 compiles (config_attributes config) gs" using init_generators_compiled by force
    with True i assms Some show ?thesis
      by (simp add: onConfigure_def Let_def cleanupAttributeGen_def initAttributeGen_def) auto
  next
    case False
    with i assms Some show ?thesis
      by (auto simp: onConfigure_def Let_def cleanupAttributeGen_def initAttributeGen_def)
  qed
qed

definition example_attribute :: PluginConfig where
  "example_attribute = \<lparr>config_debug = False, config_attributes =
     [\<lparr>gen_phase = ON_REQUEST, gen_output_attribute = ''operation'',
        gen_match = [(''request.method == GET'', ''Get''), ('''', ''Other'')]\<rparr>]\<rparr>"

definition no_generators :: attributegen_root where
  "no_generators = initial_attributegen_root False (\<lambda>_. 0)"

lemma example_attribute_configured:
  "onConfigure (\<lambda>_. Some example_attribute) host_create host_delete ''{}'' no_generators (5, {}) =
     (True, no_generators\<lparr>gen := [\<lparr>phase = OnRequest, output_attribute = ''operation'',
        matches = [\<lparr>condition = ''request.method == GET'', condition_token = 5, match_value = ''Get''\<rparr>,
                   \<lparr>condition = '''', condition_token = 0, match_value = ''Other''\<rparr>]\<rparr>], tokens := [5]\<rparr>,
      (6, {5}), [])"
  by (simp add: onConfigure_def cleanupAttributeGen_def initAttributeGen_def no_generators_def
      initial_attributegen_root_def example_attribute_def host_create_def Let_def)

theorem onConfigure_all_or_nothing_witness:
  "\<exists>gs. list_all2 compiles (config_attributes example_attribute) gs \<and>
     map output_attribute gs = [''operation'']"
proof -
  let ?gs = "[\<lparr>phase = OnRequest, output_attribute = ''operation'',
        matches = [\<lparr>condition = ''request.method == GET'', condition_token = 5, match_value = ''Get''\<rparr>,
                   \<lparr>condition = '''', condition_token = 0, match_value = ''Other''\<rparr>]\<rparr>]"
  have "list_all2 compiles (config_attributes example_attribute) ?gs"
    using onConfigure_all_or_nothing [OF example_attribute_configured] by simp
  then show ?thesis by (intro exI [of _ ?gs]) simp
qed

text \<open>A sequence of configurations.\<close>

definition configure_all :: "(string \<Rightarrow> PluginConfig option) \<Rightarrow> (string \<Rightarrow> 'h \<Rightarrow> WasmResult \<times> u32 \<times> 'h) \<Rightarrow>
    (u32 \<Rightarrow> 'h \<Rightarrow> 'h) \<Rightarrow> string list \<Rightarrow> attributegen_root \<times> 'h \<Rightarrow> attributegen_root \<times> 'h" where
  "configure_all parse create expr_delete datas st =
     fold (\<lambda>data (root, h). case onConfigure parse create expr_delete data root h of
             (_, root, h, _) \<Rightarrow> (root, h)) datas st"

context expression_service
begin

lemma configure_all_ok:
  "attributegen_ok base root h \<Longrightarrow> configure_all parse create expr_delete datas (root, h) = (root', h') \<Longrightarrow>
   attributegen_ok base root' h'"
proof (induction datas arbitrary: root h)
  case (Cons data datas)
  obtain r root1 h1 acts where c: "onConfigure parse create expr_delete data root h = (r, root1, h1, acts)"
    by (cases "onConfigure parse create expr_delete data root h") auto
  from Cons.IH [OF configure_ok [OF Cons.prems(1) c]] Cons.prems(2) c show ?case
    by (simp add: configure_all_def)
qed (simp add: configure_all_def)

lemma tokens_owned:
  assumes "configure_all parse create expr_delete datas (root0, h0) = (root, h)" "tokens root0 = []" "gen root0 = []"
  shows "distinct (tokens root) \<and> set (tokens root) \<inter> live h0 = {} \<and> live h = live h0 \<union> set (tokens root) \<and>
    covered (tokens root) (gen root) \<and> live (snd (snd (onDone expr_delete root h))) = live h0"
proof -
  have "attributegen_ok (live h0) root0 h0" using assms by (simp add: attributegen_ok_def owns_def covered_def)
  from configure_all_ok [OF this assms(1)] have ok: "attributegen_ok (live h0) root h" .
  obtain r' h' where c: "cleanupAttributeGen expr_delete root h = (r', h')" by (cases "cleanupAttributeGen expr_delete root h")
  from cleanup_ok [OF ok c] ok c show ?thesis by (auto simp: onDone_def attributegen_ok_def owns_def)
qed

end

text \<open>
  C29: compiled expressions are neither leaked nor used after deletion, on a host whose service behaves
  as documented: after any sequence of configurations, the tokens in use are those of before and
  exactly the ones the extension remembers, without repetition, every condition it may evaluate has
  one of these, and \<open>onDone\<close> gives all of them back.
\<close>

theorem attributegen_tokens:
  assumes "expression_service create expr_delete live"
    and "configure_all parse create expr_delete datas (initial_attributegen_root garbage resolve, h0) = (root, h)"
  shows "distinct (tokens root) \<and> set (tokens root) \<inter> live h0 = {} \<and> live h = live h0 \<union> set (tokens root) \<and>
    (\<forall>g \<in> set (gen root). \<forall>m \<in> set (matches g). condition m = '''' \<or> condition_token m \<in> set (tokens root)) \<and>
    live (snd (snd (onDone expr_delete root h))) = live h0"
  using expression_service.tokens_owned [OF assms]
  by (simp add: initial_attributegen_root_def covered_def match_covered_def)

theorem attributegen_tokens_witness:
  "\<exists>root h. configure_all (\<lambda>_. Some example_attribute) host_create host_delete [''{}''] (no_generators, (5, {})) = (root, h) \<and>
     tokens root = [5] \<and> snd h = {5} \<and> snd (snd (snd (onDone host_delete root h))) = {}"
proof -
  obtain root h where c: "configure_all (\<lambda>_. Some example_attribute) host_create host_delete [''{}''] (no_generators, (5, {})) = (root, h)"
    by (cases "configure_all (\<lambda>_. Some example_attribute) host_create host_delete [''{}''] (no_generators, (5, {}))")
  from c have t: "tokens root = [5]" by (auto simp: configure_all_def example_attribute_configured)
  from attributegen_tokens [OF numbered.expression_service_axioms c [unfolded no_generators_def]] t c
  show ?thesis by auto
qed

end
