(* ===== verification/Node_Info.thy ===== *)
theory Node_Info
  imports Proxy_Host "HOL-Library.List_Lexorder" "HOL-Library.Char_ord"
begin

text \<open>
  The node metadata of \<open>extensions/common/context.{h,cc}\<close>: the node of the proxy itself, read from
  the bootstrap metadata, and the node of the peer, read from the filter state or from the labels
  of the upstream endpoint.

  A node is a flatbuffer of the schema \<open>node_info.fbs\<close>. The flatbuffers library is outside the
  repository: a finished buffer is the \<open>FlatNode\<close> it encodes, where a field that was not added is
  absent, and three functions of the library are arguments. \<open>CreateVectorOfSortedTables\<close> and
  \<open>LookupByKey\<close> have a contract, stated as a locale: on a vector built from entries with different
  keys, the lookup finds the entry with the key. Keys are compared with \<open>strcmp\<close>, hence the
  contract is for keys without a NUL byte.
\<close>

section \<open>Nodes\<close>

record KeyVal =
  kv_key :: string
  kv_value :: "string option"

record FlatNode =
  node_name :: "string option"
  node_namespace :: "string option"
  node_labels :: "KeyVal list option"
  node_owner :: "string option"
  node_workload_name :: "string option"
  node_platform_metadata :: "KeyVal list option"
  node_istio_version :: "string option"
  node_mesh_id :: "string option"
  node_app_containers :: "string list option"
  node_cluster_id :: "string option"
  node_instance_ips :: "string list option"

record flatbuffers_lib =
  CreateVectorOfSortedTables :: "KeyVal list \<Rightarrow> KeyVal list"
  LookupByKey :: "KeyVal list \<Rightarrow> string \<Rightarrow> KeyVal option"
  GetRoot :: "string \<Rightarrow> FlatNode" \<comment> \<open>the node a received buffer encodes\<close>

definition kMetadataNotFoundValue :: string where
  "kMetadataNotFoundValue = ''envoy.wasm.metadata_exchange.peer_unknown''"

definition kDownstreamMetadataIdKey :: string where "kDownstreamMetadataIdKey = ''downstream_peer_id''"
definition kDownstreamMetadataKey :: string where "kDownstreamMetadataKey = ''downstream_peer''"
definition kUpstreamMetadataIdKey :: string where "kUpstreamMetadataIdKey = ''upstream_peer_id''"
definition kUpstreamMetadataKey :: string where "kUpstreamMetadataKey = ''upstream_peer''"

definition kCanonicalServiceLabelName :: string where
  "kCanonicalServiceLabelName = ''service.istio.io/canonical-name''"

definition kCanonicalServiceRevisionLabelName :: string where
  "kCanonicalServiceRevisionLabelName = ''service.istio.io/canonical-revision''"

definition GetFromFbStringView :: "string option \<Rightarrow> string" where
  "GetFromFbStringView str = (case str of Some s \<Rightarrow> s | None \<Rightarrow> '''')"

text \<open>A builder to which nothing was added.\<close>

definition extractEmptyNodeFlatBuffer :: FlatNode where
  "extractEmptyNodeFlatBuffer = \<lparr>node_name = None, node_namespace = None, node_labels = None,
     node_owner = None, node_workload_name = None, node_platform_metadata = None,
     node_istio_version = None, node_mesh_id = None, node_app_containers = None,
     node_cluster_id = None, node_instance_ips = None\<rparr>"

section \<open>The local node\<close>

text \<open>
  \<open>props\<close> are the properties that are strings, \<open>maps\<close> those that are maps, as the list of their
  pairs. A string offset stays null when the property is missing.
\<close>

definition string_offset :: "string properties \<Rightarrow> string list \<Rightarrow> string option" where
  "string_offset props path = (case getValue props path '''' of (found, value) \<Rightarrow> if found then Some value else None)"

definition pairs_vector :: "(string \<times> string) list properties \<Rightarrow> string list \<Rightarrow> KeyVal list" where
  "pairs_vector maps path =
     (case maps path of None \<Rightarrow> [] | Some pairs \<Rightarrow> map (\<lambda>(key, val). \<lparr>kv_key = key, kv_value = Some val\<rparr>) pairs)"

definition split_vector :: "string properties \<Rightarrow> string list \<Rightarrow> string list" where
  "split_vector props path = (case getValue props path '''' of (found, value) \<Rightarrow>
     if found then StrSplit value (CHR '','') else [])"

definition extractLocalNodeFlatBuffer :: "flatbuffers_lib \<Rightarrow> string properties \<Rightarrow>
    (string \<times> string) list properties \<Rightarrow> FlatNode" where
  "extractLocalNodeFlatBuffer fb props maps =
     (let labels = pairs_vector maps [''node'', ''metadata'', ''LABELS''];
          platform_metadata = pairs_vector maps [''node'', ''metadata'', ''PLATFORM_METADATA'']
      in \<lparr>node_name = string_offset props [''node'', ''metadata'', ''NAME''],
          node_namespace = string_offset props [''node'', ''metadata'', ''NAMESPACE''],
          node_labels = Some (CreateVectorOfSortedTables fb labels),
          node_owner = string_offset props [''node'', ''metadata'', ''OWNER''],
          node_workload_name = string_offset props [''node'', ''metadata'', ''WORKLOAD_NAME''],
          node_platform_metadata = Some (CreateVectorOfSortedTables fb platform_metadata),
          node_istio_version = string_offset props [''node'', ''metadata'', ''ISTIO_VERSION''],
          node_mesh_id = string_offset props [''node'', ''metadata'', ''MESH_ID''],
          node_app_containers = Some (split_vector props [''node'', ''metadata'', ''APP_CONTAINERS'']),
          node_cluster_id = string_offset props [''node'', ''metadata'', ''CLUSTER_ID''],
          node_instance_ips = Some (split_vector props [''node'', ''metadata'', ''INSTANCE_IPS''])\<rparr>)"

text \<open>\<open>getServiceNameFallback\<close>: the first pair with the canonical name label.\<close>

definition getServiceNameFallback :: "(string \<times> string) list properties \<Rightarrow> string" where
  "getServiceNameFallback maps =
     (case maps [''node'', ''metadata'', ''LABELS''] of
        Some pairs \<Rightarrow> (case List.find (\<lambda>(key, val). key = kCanonicalServiceLabelName) pairs of
            Some (key, val) \<Rightarrow> val
          | None \<Rightarrow> ''unknown'')
      | None \<Rightarrow> ''unknown'')"

section \<open>The peer\<close>

text \<open>
  \<open>None\<close> is the result false. The number of parts is tested twice in the code; the second test is
  always true.
\<close>

definition extractPeerMetadataFromUpstreamMetadata :: "flatbuffers_lib \<Rightarrow> string properties \<Rightarrow> string \<Rightarrow> FlatNode option" where
  "extractPeerMetadataFromUpstreamMetadata fb props metadata_type =
     (case getValue props [metadata_type, ''filter_metadata'', ''istio'', ''workload''] '''' of (found, endpoint_labels) \<Rightarrow>
      if \<not> found then None
      else let parts = StrSplit endpoint_labels (CHR '';'') in
        if length parts < 5 then None
        else let labels = [];
             labels = (if parts ! 2 \<noteq> '''' then labels @ [\<lparr>kv_key = kCanonicalServiceLabelName, kv_value = Some (parts ! 2)\<rparr>] else labels);
             labels = (if parts ! 3 \<noteq> '''' then labels @ [\<lparr>kv_key = kCanonicalServiceRevisionLabelName, kv_value = Some (parts ! 3)\<rparr>] else labels);
             cluster_id = (if length parts \<ge> 5 then Some (parts ! 4) else None)
        in Some (extractEmptyNodeFlatBuffer\<lparr>node_workload_name := Some (parts ! 0), node_namespace := Some (parts ! 1),
             node_cluster_id := cluster_id, node_labels := Some (CreateVectorOfSortedTables fb labels)\<rparr>))"

definition extractPeerMetadataFromUpstreamClusterMetadata :: "flatbuffers_lib \<Rightarrow> string properties \<Rightarrow> FlatNode option" where
  "extractPeerMetadataFromUpstreamClusterMetadata fb props =
     extractPeerMetadataFromUpstreamMetadata fb props ''cluster_metadata''"

definition extractPeerMetadataFromUpstreamHostMetadata :: "flatbuffers_lib \<Rightarrow> string properties \<Rightarrow> FlatNode option" where
  "extractPeerMetadataFromUpstreamHostMetadata fb props =
     extractPeerMetadataFromUpstreamMetadata fb props ''upstream_host_metadata''"

text \<open>\<open>fallback_peer_node_\<close> owns no buffer until it is assigned.\<close>

record PeerNodeInfo =
  peer_found :: bool
  peer_id :: string
  peer_node :: string
  fallback_peer_node :: "FlatNode option"

text \<open>The constructor.\<close>

definition peer_node_info :: "flatbuffers_lib \<Rightarrow> string properties \<Rightarrow> string \<Rightarrow> string \<Rightarrow> PeerNodeInfo" where
  "peer_node_info fb props peer_metadata_id_key peer_metadata_key =
     (case getValue props [peer_metadata_id_key] '''' of (id_found, pid) \<Rightarrow>
      case (if id_found \<and> pid \<noteq> kMetadataNotFoundValue then getValue props [peer_metadata_key] '''' else (False, '''')) of
        (node_found, node) \<Rightarrow>
      if node_found then \<lparr>peer_found = id_found, peer_id = pid, peer_node = node, fallback_peer_node = None\<rparr>
      else if peer_metadata_id_key = kDownstreamMetadataIdKey then
        \<lparr>peer_found = False, peer_id = pid, peer_node = node, fallback_peer_node = Some extractEmptyNodeFlatBuffer\<rparr>
      else \<lparr>peer_found = False, peer_id = pid, peer_node = node,
             fallback_peer_node = (case extractPeerMetadataFromUpstreamHostMetadata fb props of
                 Some n \<Rightarrow> Some n
               | None \<Rightarrow> Some extractEmptyNodeFlatBuffer)\<rparr>)"

definition maybeWaiting :: "PeerNodeInfo \<Rightarrow> bool" where
  "maybeWaiting p \<longleftrightarrow> \<not> peer_found p \<and> peer_id p \<noteq> kMetadataNotFoundValue"

text \<open>\<open>get\<close>: a buffer that was never assigned is dereferenced as a null pointer.\<close>

definition peer_get :: "flatbuffers_lib \<Rightarrow> PeerNodeInfo \<Rightarrow> ub + FlatNode" where
  "peer_get fb p =
     (if peer_found p then Inr (GetRoot fb (peer_node p))
      else case fallback_peer_node p of None \<Rightarrow> Inl DanglingReference | Some n \<Rightarrow> Inr n)"

section \<open>The contract of the key lookup\<close>

definition keys_ok :: "KeyVal list \<Rightarrow> bool" where
  "keys_ok kvs \<longleftrightarrow> distinct (map kv_key kvs) \<and> (\<forall>kv \<in> set kvs. CHR 0x00 \<notin> set (kv_key kv))"

locale flatbuffers =
  fixes sort_tables :: "KeyVal list \<Rightarrow> KeyVal list" and lookup :: "KeyVal list \<Rightarrow> string \<Rightarrow> KeyVal option"
  assumes lookup_sorted: "keys_ok kvs \<Longrightarrow> CHR 0x00 \<notin> set key \<Longrightarrow>
      lookup (sort_tables kvs) key = List.find (\<lambda>kv. kv_key kv = key) kvs"
begin

lemma lookup_pairs:
  assumes "distinct (map fst pairs)" "\<forall>p \<in> set pairs. CHR 0x00 \<notin> set (fst p)" "CHR 0x00 \<notin> set key"
  shows "lookup (sort_tables (map (\<lambda>(key, val). \<lparr>kv_key = key, kv_value = Some val\<rparr>) pairs)) key =
     map_option (\<lambda>val. \<lparr>kv_key = key, kv_value = Some val\<rparr>) (map_of pairs key)"
proof -
  let ?f = "\<lambda>(key, val). \<lparr>kv_key = key, kv_value = Some val\<rparr>"
  have "keys_ok (map ?f pairs)"
    using assms(1,2) by (auto simp: keys_ok_def comp_def case_prod_unfold)
  then have "lookup (sort_tables (map ?f pairs)) key = List.find (\<lambda>kv. kv_key kv = key) (map ?f pairs)"
    using lookup_sorted assms(3) by blast
  also have "\<dots> = map_option (\<lambda>val. \<lparr>kv_key = key, kv_value = Some val\<rparr>) (map_of pairs key)"
    by (induction pairs) auto
  finally show ?thesis .
qed

end

text \<open>
  The library as its documentation describes it: the vector is sorted by key, in the order of the
  bytes, and an entry is found by its key.
\<close>

definition reference_sort :: "KeyVal list \<Rightarrow> KeyVal list" where
  "reference_sort kvs = sort_key kv_key kvs"

definition reference_lookup :: "KeyVal list \<Rightarrow> string \<Rightarrow> KeyVal option" where
  "reference_lookup kvs key = List.find (\<lambda>kv. kv_key kv = key) kvs"

lemma find_unique:
  "distinct (map f xs) \<Longrightarrow> set ys = set xs \<Longrightarrow> distinct (map f ys) \<Longrightarrow>
   List.find (\<lambda>x. f x = k) ys = List.find (\<lambda>x. f x = k) xs"
proof -
  assume d: "distinct (map f xs)" "set ys = set xs" "distinct (map f ys)"
  have *: "List.find (\<lambda>x. f x = k) zs = Some z \<longleftrightarrow> z \<in> set zs \<and> f z = k" if "distinct (map f zs)" for zs z
    using that by (induction zs) (auto simp: rev_image_eqI)
  then show ?thesis using d by (metis not_None_eq)
qed

interpretation reference: flatbuffers reference_sort reference_lookup
proof
  fix kvs :: "KeyVal list" and key :: string
  assume "keys_ok kvs" "CHR 0x00 \<notin> set key"
  then have d: "distinct (map kv_key kvs)" by (simp add: keys_ok_def)
  moreover have "distinct (map kv_key (reference_sort kvs))"
    using d by (simp add: reference_sort_def distinct_map)
  ultimately show "reference_lookup (reference_sort kvs) key = List.find (\<lambda>kv. kv_key kv = key) kvs"
    unfolding reference_lookup_def by (intro find_unique) (auto simp: reference_sort_def)
qed

definition reference_lib :: flatbuffers_lib where
  "reference_lib = \<lparr>CreateVectorOfSortedTables = reference_sort, LookupByKey = reference_lookup,
     GetRoot = \<lambda>_. extractEmptyNodeFlatBuffer\<rparr>"

section \<open>Properties\<close>

text \<open>What a constructed \<open>PeerNodeInfo\<close> holds, by cases.\<close>

definition fallback_node :: "flatbuffers_lib \<Rightarrow> string properties \<Rightarrow> string \<Rightarrow> FlatNode" where
  "fallback_node fb props id_key =
     (if id_key = kDownstreamMetadataIdKey then extractEmptyNodeFlatBuffer
      else case extractPeerMetadataFromUpstreamHostMetadata fb props of
        Some n \<Rightarrow> n | None \<Rightarrow> extractEmptyNodeFlatBuffer)"

lemma peer_node_info_cases:
  "peer_node_info fb props id_key key =
     (case (props [id_key], props [key]) of
        (Some pid, Some node) \<Rightarrow>
          if pid \<noteq> kMetadataNotFoundValue
          then \<lparr>peer_found = True, peer_id = pid, peer_node = node, fallback_peer_node = None\<rparr>
          else \<lparr>peer_found = False, peer_id = pid, peer_node = '''', fallback_peer_node = Some (fallback_node fb props id_key)\<rparr>
      | (pid, _) \<Rightarrow> \<lparr>peer_found = False, peer_id = case_option '''' id pid, peer_node = '''',
          fallback_peer_node = Some (fallback_node fb props id_key)\<rparr>)"
  by (simp add: peer_node_info_def getValue_def fallback_node_def split: option.splits)

lemma peer_get_defined: "\<exists>node. peer_get fb (peer_node_info fb props id_key key) = Inr node"
  unfolding peer_node_info_cases
  by (cases "props [id_key]"; cases "props [key]") (simp_all add: peer_get_def)

text \<open>
  The peer of a stream: the node of the filter state is used exactly when the host has both the
  peer id and the peer node and the id is not the marker for a peer without metadata. Otherwise the
  node is, downstream, the empty one and, upstream, the one of the endpoint's labels or the empty
  one. Reading the node never dereferences a buffer that was not assigned. The extension goes on
  waiting unless the node was found or the marker was received.
\<close>

lemma peer_node_info_get:
  "let p = peer_node_info fb props id_key key;
       found = (\<exists>pid node. props [id_key] = Some pid \<and> pid \<noteq> kMetadataNotFoundValue \<and> props [key] = Some node)
   in peer_found p = found \<and>
      peer_get fb p = Inr (if found then GetRoot fb (the (props [key]))
        else if id_key = kDownstreamMetadataIdKey then extractEmptyNodeFlatBuffer
        else case_option extractEmptyNodeFlatBuffer id (extractPeerMetadataFromUpstreamHostMetadata fb props)) \<and>
      (maybeWaiting p \<longleftrightarrow> \<not> found \<and> props [id_key] \<noteq> Some kMetadataNotFoundValue)"
  unfolding Let_def peer_node_info_cases
  by (cases "props [id_key]"; cases "props [key]")
    (auto simp: peer_get_def maybeWaiting_def fallback_node_def kMetadataNotFoundValue_def split: option.split)

lemma endpoint_parts:
  assumes "\<forall>p \<in> {w, n, s, r, c}. CHR '';'' \<notin> set p"
    and "props [ty, ''filter_metadata'', ''istio'', ''workload''] = Some (join_with (CHR '';'') [w, n, s, r, c])"
  shows "extractPeerMetadataFromUpstreamMetadata fb props ty =
     Some (extractEmptyNodeFlatBuffer\<lparr>node_workload_name := Some w, node_namespace := Some n, node_cluster_id := Some c,
        node_labels := Some (CreateVectorOfSortedTables fb
          (map (\<lambda>(key, val). \<lparr>kv_key = key, kv_value = Some val\<rparr>)
             (filter (\<lambda>(key, val). val \<noteq> '''') [(kCanonicalServiceLabelName, s), (kCanonicalServiceRevisionLabelName, r)])))\<rparr>)"
proof -
  have "StrSplit (join_with (CHR '';'') [w, n, s, r, c]) (CHR '';'') = [w, n, s, r, c]"
    using assms(1) by (intro StrSplit_join_with) auto
  then show ?thesis
    unfolding extractPeerMetadataFromUpstreamMetadata_def getValue_def assms(2)
    by (simp only: Let_def option.case prod.case) simp
qed

lemma label_names:
  "kCanonicalServiceLabelName \<noteq> kCanonicalServiceRevisionLabelName"
  "CHR 0x00 \<notin> set kCanonicalServiceLabelName" "CHR 0x00 \<notin> set kCanonicalServiceRevisionLabelName"
  by (simp_all add: kCanonicalServiceLabelName_def kCanonicalServiceRevisionLabelName_def)

text \<open>
  The labels of an upstream endpoint, \<open>workload;namespace;service;revision;cluster\<close>, are
  recovered: with a flatbuffers library that keeps its contract, the fallback node has the workload,
  the namespace and the cluster, and looking up the two canonical labels gives the service and the
  revision, where an empty part is an absent label.
\<close>

lemma endpoint_labels_roundtrip:
  assumes "flatbuffers (CreateVectorOfSortedTables fb) (LookupByKey fb)"
    and "\<forall>p \<in> {w, n, s, r, c}. CHR '';'' \<notin> set p"
    and "props [''upstream_host_metadata'', ''filter_metadata'', ''istio'', ''workload''] =
           Some (join_with (CHR '';'') [w, n, s, r, c])"
  shows "\<exists>node labels. extractPeerMetadataFromUpstreamHostMetadata fb props = Some node \<and>
     node_workload_name node = Some w \<and> node_namespace node = Some n \<and> node_cluster_id node = Some c \<and>
     node_labels node = Some labels \<and>
     map_option kv_value (LookupByKey fb labels kCanonicalServiceLabelName) = (if s = '''' then None else Some (Some s)) \<and>
     map_option kv_value (LookupByKey fb labels kCanonicalServiceRevisionLabelName) = (if r = '''' then None else Some (Some r))"
proof -
  let ?pairs = "filter (\<lambda>(key, val). val \<noteq> '''') [(kCanonicalServiceLabelName, s), (kCanonicalServiceRevisionLabelName, r)]"
  let ?labels = "CreateVectorOfSortedTables fb (map (\<lambda>(key, val). \<lparr>kv_key = key, kv_value = Some val\<rparr>) ?pairs)"
  have "LookupByKey fb ?labels key = map_option (\<lambda>val. \<lparr>kv_key = key, kv_value = Some val\<rparr>) (map_of ?pairs key)"
    if "CHR 0x00 \<notin> set key" for key
    by (rule flatbuffers.lookup_pairs [OF assms(1) _ _ that]) (auto simp: label_names)
  note lookup = this [OF label_names(2)] this [OF label_names(3)]
  have s: "map_option kv_value (LookupByKey fb ?labels kCanonicalServiceLabelName) = (if s = '''' then None else Some (Some s))"
    using label_names(1) by (simp only: lookup(1)) auto
  have r: "map_option kv_value (LookupByKey fb ?labels kCanonicalServiceRevisionLabelName) = (if r = '''' then None else Some (Some r))"
    using label_names(1) by (simp only: lookup(2)) auto
  show ?thesis
    unfolding extractPeerMetadataFromUpstreamHostMetadata_def
      endpoint_parts [of w n s r c props "''upstream_host_metadata''" fb, OF assms(2,3)]
    by (rule exI, rule exI [of _ ?labels], intro conjI, rule refl, simp_all only: s r) simp_all
qed

lemma endpoint_labels_roundtrip_example:
  "\<exists>node. extractPeerMetadataFromUpstreamHostMetadata reference_lib
      [[''upstream_host_metadata'', ''filter_metadata'', ''istio'', ''workload''] \<mapsto> ''ratings-v1;default;ratings;;c1''] = Some node \<and>
     node_workload_name node = Some ''ratings-v1''"
  using endpoint_labels_roundtrip [of reference_lib "''ratings-v1''" "''default''" "''ratings''" "''''" "''c1''"
      "[[''upstream_host_metadata'', ''filter_metadata'', ''istio'', ''workload''] \<mapsto> ''ratings-v1;default;ratings;;c1'']"]
    reference.flatbuffers_axioms
  by (auto simp: reference_lib_def)

text \<open>Endpoint labels with fewer than five parts, as older control planes send them, are ignored.\<close>

lemma endpoint_labels_four_parts:
  "props [ty, ''filter_metadata'', ''istio'', ''workload''] = Some (join_with (CHR '';'') [w, n, s, r]) \<Longrightarrow>
   \<forall>p \<in> {w, n, s, r}. CHR '';'' \<notin> set p \<Longrightarrow>
   extractPeerMetadataFromUpstreamMetadata fb props ty = None"
  using StrSplit_join_with [of "[w, n, s, r]" "CHR '';''"]
  by (simp add: extractPeerMetadataFromUpstreamMetadata_def getValue_def)

end
