(* ===== verification/Flat_Node.thy ===== *)
theory Flat_Node
  imports Node_Info
begin

text \<open>
  The code generated from the schema of a node (\<open>extensions/common/node_info_generated.h\<close>): the
  tables \<open>KeyVal\<close> and \<open>FlatNode\<close> with their accessors and builders, and the extraction of a node
  (\<open>extensions/common/context.cc\<close>) as the sequence of builder calls it is. The flatbuffers library
  is an argument, with its contract as a locale; under the contract, what these calls build is read
  back as the node that \<open>Node_Info\<close> describes.

  An offset into the buffer is a number, 0 being the null offset. A field that was not added to a
  table is absent.
\<close>

section \<open>The library\<close>

record 'b fbb =
  fbb_StartTable :: "'b \<Rightarrow> nat \<times> 'b"
  fbb_AddOffset :: "nat \<Rightarrow> nat \<Rightarrow> 'b \<Rightarrow> 'b"
  fbb_EndTable :: "nat \<Rightarrow> 'b \<Rightarrow> nat \<times> 'b"
  fbb_Required :: "nat \<Rightarrow> nat \<Rightarrow> 'b \<Rightarrow> ub + unit"
  fbb_CreateString :: "string \<Rightarrow> 'b \<Rightarrow> nat \<times> 'b"
  fbb_CreateVector :: "nat list \<Rightarrow> 'b \<Rightarrow> nat \<times> 'b"
  fbb_CreateVectorOfSortedTables :: "nat list \<Rightarrow> 'b \<Rightarrow> nat \<times> 'b"
  fbb_Finish :: "nat \<Rightarrow> 'b \<Rightarrow> 'b"
  fbb_FinishSizePrefixed :: "nat \<Rightarrow> 'b \<Rightarrow> 'b"
  fbb_GetPointer :: "'b \<Rightarrow> nat \<Rightarrow> nat \<Rightarrow> nat option" \<comment> \<open>of a table and a field\<close>
  fbb_string :: "'b \<Rightarrow> nat \<Rightarrow> string" \<comment> \<open>the string at an offset\<close>
  fbb_vector :: "'b \<Rightarrow> nat \<Rightarrow> nat list" \<comment> \<open>the elements of the vector at an offset\<close>
  fbb_GetRoot :: "'b \<Rightarrow> nat"
  fbb_GetSizePrefixedRoot :: "'b \<Rightarrow> nat"

text \<open>A verifier keeps a state of its own. \<open>&&\<close> stops at the first check that fails.\<close>

record ('b, 'v) verifier =
  VerifyTableStart :: "'b \<Rightarrow> nat \<Rightarrow> 'v \<Rightarrow> bool \<times> 'v"
  VerifyOffset :: "'b \<Rightarrow> nat \<Rightarrow> nat \<Rightarrow> 'v \<Rightarrow> bool \<times> 'v"
  VerifyOffsetRequired :: "'b \<Rightarrow> nat \<Rightarrow> nat \<Rightarrow> 'v \<Rightarrow> bool \<times> 'v"
  VerifyString :: "'b \<Rightarrow> nat option \<Rightarrow> 'v \<Rightarrow> bool \<times> 'v"
  VerifyVector :: "'b \<Rightarrow> nat option \<Rightarrow> 'v \<Rightarrow> bool \<times> 'v"
  VerifyVectorOfTables :: "'b \<Rightarrow> nat option \<Rightarrow> 'v \<Rightarrow> bool \<times> 'v"
  VerifyVectorOfStrings :: "'b \<Rightarrow> nat option \<Rightarrow> 'v \<Rightarrow> bool \<times> 'v"
  verifier_EndTable :: "'v \<Rightarrow> bool \<times> 'v"

fun all_checks :: "('v \<Rightarrow> bool \<times> 'v) list \<Rightarrow> 'v \<Rightarrow> bool \<times> 'v" where
  "all_checks [] v = (True, v)"
| "all_checks (c # cs) v = (case c v of (ok, v) \<Rightarrow> if ok then all_checks cs v else (False, v))"

section \<open>Pairs\<close>

definition KeyVal_VT_KEY :: nat where "KeyVal_VT_KEY = 4"
definition KeyVal_VT_VALUE :: nat where "KeyVal_VT_VALUE = 6"

definition KeyVal_key :: "'b fbb \<Rightarrow> 'b \<Rightarrow> nat \<Rightarrow> nat option" where
  "KeyVal_key L b t = fbb_GetPointer L b t KeyVal_VT_KEY"

definition KeyVal_value :: "'b fbb \<Rightarrow> 'b \<Rightarrow> nat \<Rightarrow> nat option" where
  "KeyVal_value L b t = fbb_GetPointer L b t KeyVal_VT_VALUE"

text \<open>Both comparisons follow the key without a check. Strings are ordered by their bytes.\<close>

definition KeyCompareLessThan :: "'b fbb \<Rightarrow> 'b \<Rightarrow> nat \<Rightarrow> nat \<Rightarrow> ub + bool" where
  "KeyCompareLessThan L b t t' =
     (case (KeyVal_key L b t, KeyVal_key L b t') of
        (Some k, Some k') \<Rightarrow> Inr (fbb_string L b k < fbb_string L b k')
      | _ \<Rightarrow> Inl DanglingReference)"

text \<open>\<open>strcmp\<close> reads up to the first NUL.\<close>

definition c_str :: "string \<Rightarrow> string" where
  "c_str s = takeWhile (\<lambda>c. c \<noteq> CHR 0x00) s"

definition strcmp :: "string \<Rightarrow> string \<Rightarrow> int" where
  "strcmp s s' = (if c_str s < c_str s' then -1 else if c_str s = c_str s' then 0 else 1)"

definition KeyCompareWithValue :: "'b fbb \<Rightarrow> 'b \<Rightarrow> nat \<Rightarrow> string \<Rightarrow> ub + int" where
  "KeyCompareWithValue L b t val =
     (case KeyVal_key L b t of Some k \<Rightarrow> Inr (strcmp (fbb_string L b k) val) | None \<Rightarrow> Inl DanglingReference)"

definition KeyVal_Verify :: "'b fbb \<Rightarrow> ('b, 'v) verifier \<Rightarrow> 'b \<Rightarrow> nat \<Rightarrow> 'v \<Rightarrow> bool \<times> 'v" where
  "KeyVal_Verify L V b t = all_checks
     [VerifyTableStart V b t,
      VerifyOffsetRequired V b t KeyVal_VT_KEY, VerifyString V b (KeyVal_key L b t),
      VerifyOffset V b t KeyVal_VT_VALUE, VerifyString V b (KeyVal_value L b t),
      verifier_EndTable V]"

text \<open>A builder is the buffer and the start of the table.\<close>

definition KeyVal_add_key :: "'b fbb \<Rightarrow> nat \<Rightarrow> 'b \<Rightarrow> 'b" where
  "KeyVal_add_key L key b = fbb_AddOffset L KeyVal_VT_KEY key b"

definition KeyVal_add_value :: "'b fbb \<Rightarrow> nat \<Rightarrow> 'b \<Rightarrow> 'b" where
  "KeyVal_add_value L val b = fbb_AddOffset L KeyVal_VT_VALUE val b"

definition KeyVal_Finish :: "'b fbb \<Rightarrow> nat \<Rightarrow> 'b \<Rightarrow> ub + (nat \<times> 'b)" where
  "KeyVal_Finish L start b =
     (case fbb_EndTable L start b of (t, b) \<Rightarrow> and_then (fbb_Required L t KeyVal_VT_KEY b) (\<lambda>_. Inr (t, b)))"

definition CreateKeyVal :: "'b fbb \<Rightarrow> nat \<Rightarrow> nat \<Rightarrow> 'b \<Rightarrow> ub + (nat \<times> 'b)" where
  "CreateKeyVal L key val b =
     (case fbb_StartTable L b of (start, b) \<Rightarrow>
      let b = KeyVal_add_value L val b; b = KeyVal_add_key L key b in KeyVal_Finish L start b)"

text \<open>A null pointer is \<open>None\<close>, and gives the null offset.\<close>

definition create_string_if :: "'b fbb \<Rightarrow> string option \<Rightarrow> 'b \<Rightarrow> nat \<times> 'b" where
  "create_string_if L s b = (case s of Some s \<Rightarrow> fbb_CreateString L (c_str s) b | None \<Rightarrow> (0, b))"

definition CreateKeyValDirect :: "'b fbb \<Rightarrow> string option \<Rightarrow> string option \<Rightarrow> 'b \<Rightarrow> ub + (nat \<times> 'b)" where
  "CreateKeyValDirect L key val b =
     (case create_string_if L key b of (key_offset, b) \<Rightarrow>
      case create_string_if L val b of (val_offset, b) \<Rightarrow>
      CreateKeyVal L key_offset val_offset b)"

section \<open>Nodes\<close>

datatype FlatNode_VT =
    VT_NAME
  | VT_NAMESPACE
  | VT_LABELS
  | VT_OWNER
  | VT_WORKLOAD_NAME
  | VT_PLATFORM_METADATA
  | VT_ISTIO_VERSION
  | VT_MESH_ID
  | VT_APP_CONTAINERS
  | VT_CLUSTER_ID
  | VT_INSTANCE_IPS

primrec vt_offset :: "FlatNode_VT \<Rightarrow> nat" where
  "vt_offset VT_NAME = 4"
| "vt_offset VT_NAMESPACE = 6"
| "vt_offset VT_LABELS = 8"
| "vt_offset VT_OWNER = 10"
| "vt_offset VT_WORKLOAD_NAME = 12"
| "vt_offset VT_PLATFORM_METADATA = 14"
| "vt_offset VT_ISTIO_VERSION = 16"
| "vt_offset VT_MESH_ID = 18"
| "vt_offset VT_APP_CONTAINERS = 20"
| "vt_offset VT_CLUSTER_ID = 22"
| "vt_offset VT_INSTANCE_IPS = 24"

definition FlatNode_name :: "'b fbb \<Rightarrow> 'b \<Rightarrow> nat \<Rightarrow> nat option" where
  "FlatNode_name L b t = fbb_GetPointer L b t (vt_offset VT_NAME)"

definition FlatNode_namespace :: "'b fbb \<Rightarrow> 'b \<Rightarrow> nat \<Rightarrow> nat option" where
  "FlatNode_namespace L b t = fbb_GetPointer L b t (vt_offset VT_NAMESPACE)"

definition FlatNode_labels :: "'b fbb \<Rightarrow> 'b \<Rightarrow> nat \<Rightarrow> nat option" where
  "FlatNode_labels L b t = fbb_GetPointer L b t (vt_offset VT_LABELS)"

definition FlatNode_owner :: "'b fbb \<Rightarrow> 'b \<Rightarrow> nat \<Rightarrow> nat option" where
  "FlatNode_owner L b t = fbb_GetPointer L b t (vt_offset VT_OWNER)"

definition FlatNode_workload_name :: "'b fbb \<Rightarrow> 'b \<Rightarrow> nat \<Rightarrow> nat option" where
  "FlatNode_workload_name L b t = fbb_GetPointer L b t (vt_offset VT_WORKLOAD_NAME)"

definition FlatNode_platform_metadata :: "'b fbb \<Rightarrow> 'b \<Rightarrow> nat \<Rightarrow> nat option" where
  "FlatNode_platform_metadata L b t = fbb_GetPointer L b t (vt_offset VT_PLATFORM_METADATA)"

definition FlatNode_istio_version :: "'b fbb \<Rightarrow> 'b \<Rightarrow> nat \<Rightarrow> nat option" where
  "FlatNode_istio_version L b t = fbb_GetPointer L b t (vt_offset VT_ISTIO_VERSION)"

definition FlatNode_mesh_id :: "'b fbb \<Rightarrow> 'b \<Rightarrow> nat \<Rightarrow> nat option" where
  "FlatNode_mesh_id L b t = fbb_GetPointer L b t (vt_offset VT_MESH_ID)"

definition FlatNode_app_containers :: "'b fbb \<Rightarrow> 'b \<Rightarrow> nat \<Rightarrow> nat option" where
  "FlatNode_app_containers L b t = fbb_GetPointer L b t (vt_offset VT_APP_CONTAINERS)"

definition FlatNode_cluster_id :: "'b fbb \<Rightarrow> 'b \<Rightarrow> nat \<Rightarrow> nat option" where
  "FlatNode_cluster_id L b t = fbb_GetPointer L b t (vt_offset VT_CLUSTER_ID)"

definition FlatNode_instance_ips :: "'b fbb \<Rightarrow> 'b \<Rightarrow> nat \<Rightarrow> nat option" where
  "FlatNode_instance_ips L b t = fbb_GetPointer L b t (vt_offset VT_INSTANCE_IPS)"

definition add_name :: "'b fbb \<Rightarrow> nat \<Rightarrow> 'b \<Rightarrow> 'b" where
  "add_name L off b = fbb_AddOffset L (vt_offset VT_NAME) off b"

definition add_namespace :: "'b fbb \<Rightarrow> nat \<Rightarrow> 'b \<Rightarrow> 'b" where
  "add_namespace L off b = fbb_AddOffset L (vt_offset VT_NAMESPACE) off b"

definition add_labels :: "'b fbb \<Rightarrow> nat \<Rightarrow> 'b \<Rightarrow> 'b" where
  "add_labels L off b = fbb_AddOffset L (vt_offset VT_LABELS) off b"

definition add_owner :: "'b fbb \<Rightarrow> nat \<Rightarrow> 'b \<Rightarrow> 'b" where
  "add_owner L off b = fbb_AddOffset L (vt_offset VT_OWNER) off b"

definition add_workload_name :: "'b fbb \<Rightarrow> nat \<Rightarrow> 'b \<Rightarrow> 'b" where
  "add_workload_name L off b = fbb_AddOffset L (vt_offset VT_WORKLOAD_NAME) off b"

definition add_platform_metadata :: "'b fbb \<Rightarrow> nat \<Rightarrow> 'b \<Rightarrow> 'b" where
  "add_platform_metadata L off b = fbb_AddOffset L (vt_offset VT_PLATFORM_METADATA) off b"

definition add_istio_version :: "'b fbb \<Rightarrow> nat \<Rightarrow> 'b \<Rightarrow> 'b" where
  "add_istio_version L off b = fbb_AddOffset L (vt_offset VT_ISTIO_VERSION) off b"

definition add_mesh_id :: "'b fbb \<Rightarrow> nat \<Rightarrow> 'b \<Rightarrow> 'b" where
  "add_mesh_id L off b = fbb_AddOffset L (vt_offset VT_MESH_ID) off b"

definition add_app_containers :: "'b fbb \<Rightarrow> nat \<Rightarrow> 'b \<Rightarrow> 'b" where
  "add_app_containers L off b = fbb_AddOffset L (vt_offset VT_APP_CONTAINERS) off b"

definition add_cluster_id :: "'b fbb \<Rightarrow> nat \<Rightarrow> 'b \<Rightarrow> 'b" where
  "add_cluster_id L off b = fbb_AddOffset L (vt_offset VT_CLUSTER_ID) off b"

definition add_instance_ips :: "'b fbb \<Rightarrow> nat \<Rightarrow> 'b \<Rightarrow> 'b" where
  "add_instance_ips L off b = fbb_AddOffset L (vt_offset VT_INSTANCE_IPS) off b"

definition FlatNode_Verify :: "'b fbb \<Rightarrow> ('b, 'v) verifier \<Rightarrow> 'b \<Rightarrow> nat \<Rightarrow> 'v \<Rightarrow> bool \<times> 'v" where
  "FlatNode_Verify L V b t = all_checks
     [VerifyTableStart V b t,
      VerifyOffset V b t (vt_offset VT_NAME), VerifyString V b (FlatNode_name L b t),
      VerifyOffset V b t (vt_offset VT_NAMESPACE), VerifyString V b (FlatNode_namespace L b t),
      VerifyOffset V b t (vt_offset VT_LABELS), VerifyVector V b (FlatNode_labels L b t), VerifyVectorOfTables V b (FlatNode_labels L b t),
      VerifyOffset V b t (vt_offset VT_OWNER), VerifyString V b (FlatNode_owner L b t),
      VerifyOffset V b t (vt_offset VT_WORKLOAD_NAME), VerifyString V b (FlatNode_workload_name L b t),
      VerifyOffset V b t (vt_offset VT_PLATFORM_METADATA), VerifyVector V b (FlatNode_platform_metadata L b t), VerifyVectorOfTables V b (FlatNode_platform_metadata L b t),
      VerifyOffset V b t (vt_offset VT_ISTIO_VERSION), VerifyString V b (FlatNode_istio_version L b t),
      VerifyOffset V b t (vt_offset VT_MESH_ID), VerifyString V b (FlatNode_mesh_id L b t),
      VerifyOffset V b t (vt_offset VT_APP_CONTAINERS), VerifyVector V b (FlatNode_app_containers L b t), VerifyVectorOfStrings V b (FlatNode_app_containers L b t),
      VerifyOffset V b t (vt_offset VT_CLUSTER_ID), VerifyString V b (FlatNode_cluster_id L b t),
      VerifyOffset V b t (vt_offset VT_INSTANCE_IPS), VerifyVector V b (FlatNode_instance_ips L b t), VerifyVectorOfStrings V b (FlatNode_instance_ips L b t),
      verifier_EndTable V]"

definition FlatNode_Finish :: "'b fbb \<Rightarrow> nat \<Rightarrow> 'b \<Rightarrow> nat \<times> 'b" where
  "FlatNode_Finish L start b = fbb_EndTable L start b"

text \<open>The arguments of \<open>CreateFlatNode\<close>, offsets, and of \<open>CreateFlatNodeDirect\<close>, pointers.\<close>

record node_offsets =
  off_name :: nat
  off_namespace :: nat
  off_labels :: nat
  off_owner :: nat
  off_workload_name :: nat
  off_platform_metadata :: nat
  off_istio_version :: nat
  off_mesh_id :: nat
  off_app_containers :: nat
  off_cluster_id :: nat
  off_instance_ips :: nat

record node_pointers =
  ptr_name :: "string option"
  ptr_namespace :: "string option"
  ptr_labels :: "nat list option"
  ptr_owner :: "string option"
  ptr_workload_name :: "string option"
  ptr_platform_metadata :: "nat list option"
  ptr_istio_version :: "string option"
  ptr_mesh_id :: "string option"
  ptr_app_containers :: "nat list option"
  ptr_cluster_id :: "string option"
  ptr_instance_ips :: "nat list option"

definition CreateFlatNode :: "'b fbb \<Rightarrow> node_offsets \<Rightarrow> 'b \<Rightarrow> nat \<times> 'b" where
  "CreateFlatNode L a b =
     (case fbb_StartTable L b of (start, b) \<Rightarrow>
      let b = add_instance_ips L (off_instance_ips a) b;
          b = add_cluster_id L (off_cluster_id a) b;
          b = add_app_containers L (off_app_containers a) b;
          b = add_mesh_id L (off_mesh_id a) b;
          b = add_istio_version L (off_istio_version a) b;
          b = add_platform_metadata L (off_platform_metadata a) b;
          b = add_workload_name L (off_workload_name a) b;
          b = add_owner L (off_owner a) b;
          b = add_labels L (off_labels a) b;
          b = add_namespace L (off_namespace a) b;
          b = add_name L (off_name a) b
      in FlatNode_Finish L start b)"

definition create_sorted_if :: "'b fbb \<Rightarrow> nat list option \<Rightarrow> 'b \<Rightarrow> nat \<times> 'b" where
  "create_sorted_if L v b = (case v of Some v \<Rightarrow> fbb_CreateVectorOfSortedTables L v b | None \<Rightarrow> (0, b))"

definition create_vector_if :: "'b fbb \<Rightarrow> nat list option \<Rightarrow> 'b \<Rightarrow> nat \<times> 'b" where
  "create_vector_if L v b = (case v of Some v \<Rightarrow> fbb_CreateVector L v b | None \<Rightarrow> (0, b))"

definition CreateFlatNodeDirect :: "'b fbb \<Rightarrow> node_pointers \<Rightarrow> 'b \<Rightarrow> nat \<times> 'b" where
  "CreateFlatNodeDirect L a b =
     (case create_string_if L (ptr_name a) b of (name_offset, b) \<Rightarrow>
      case create_string_if L (ptr_namespace a) b of (namespace_offset, b) \<Rightarrow>
      case create_sorted_if L (ptr_labels a) b of (labels_offset, b) \<Rightarrow>
      case create_string_if L (ptr_owner a) b of (owner_offset, b) \<Rightarrow>
      case create_string_if L (ptr_workload_name a) b of (workload_name_offset, b) \<Rightarrow>
      case create_sorted_if L (ptr_platform_metadata a) b of (platform_metadata_offset, b) \<Rightarrow>
      case create_string_if L (ptr_istio_version a) b of (istio_version_offset, b) \<Rightarrow>
      case create_string_if L (ptr_mesh_id a) b of (mesh_id_offset, b) \<Rightarrow>
      case create_vector_if L (ptr_app_containers a) b of (app_containers_offset, b) \<Rightarrow>
      case create_string_if L (ptr_cluster_id a) b of (cluster_id_offset, b) \<Rightarrow>
      case create_vector_if L (ptr_instance_ips a) b of (instance_ips_offset, b) \<Rightarrow>
      CreateFlatNode L \<lparr>off_name = name_offset, off_namespace = namespace_offset, off_labels = labels_offset, off_owner = owner_offset, off_workload_name = workload_name_offset, off_platform_metadata = platform_metadata_offset, off_istio_version = istio_version_offset, off_mesh_id = mesh_id_offset, off_app_containers = app_containers_offset, off_cluster_id = cluster_id_offset, off_instance_ips = instance_ips_offset\<rparr> b)"

definition GetFlatNode :: "'b fbb \<Rightarrow> 'b \<Rightarrow> nat" where
  "GetFlatNode L buf = fbb_GetRoot L buf"

definition GetSizePrefixedFlatNode :: "'b fbb \<Rightarrow> 'b \<Rightarrow> nat" where
  "GetSizePrefixedFlatNode L buf = fbb_GetSizePrefixedRoot L buf"

definition FinishFlatNodeBuffer :: "'b fbb \<Rightarrow> nat \<Rightarrow> 'b \<Rightarrow> 'b" where
  "FinishFlatNodeBuffer L root b = fbb_Finish L root b"

definition FinishSizePrefixedFlatNodeBuffer :: "'b fbb \<Rightarrow> nat \<Rightarrow> 'b \<Rightarrow> 'b" where
  "FinishSizePrefixedFlatNodeBuffer L root b = fbb_FinishSizePrefixed L root b"

section \<open>Reading\<close>

text \<open>The pair and the node that the accessors of a table yield.\<close>

definition read_KeyVal :: "'b fbb \<Rightarrow> 'b \<Rightarrow> nat \<Rightarrow> KeyVal" where
  "read_KeyVal L b t = \<lparr>kv_key = fbb_string L b (the (KeyVal_key L b t)), kv_value = map_option (fbb_string L b) (KeyVal_value L b t)\<rparr>"

definition read_FlatNode :: "'b fbb \<Rightarrow> 'b \<Rightarrow> nat \<Rightarrow> FlatNode" where
  "read_FlatNode L b t =
     (let str = fbb_string L b;
          strs = (\<lambda>v. map str (fbb_vector L b v));
          pairs = (\<lambda>v. map (read_KeyVal L b) (fbb_vector L b v))
      in \<lparr>node_name = map_option str (FlatNode_name L b t),
          node_namespace = map_option str (FlatNode_namespace L b t),
          node_labels = map_option pairs (FlatNode_labels L b t),
          node_owner = map_option str (FlatNode_owner L b t),
          node_workload_name = map_option str (FlatNode_workload_name L b t),
          node_platform_metadata = map_option pairs (FlatNode_platform_metadata L b t),
          node_istio_version = map_option str (FlatNode_istio_version L b t),
          node_mesh_id = map_option str (FlatNode_mesh_id L b t),
          node_app_containers = map_option strs (FlatNode_app_containers L b t),
          node_cluster_id = map_option str (FlatNode_cluster_id L b t),
          node_instance_ips = map_option strs (FlatNode_instance_ips L b t)\<rparr>)"

section \<open>Extraction by builder calls\<close>

text \<open>
  The pieces of \<open>extractLocalNodeFlatBuffer\<close>. The order in which the arguments of a call are
  evaluated is not specified: \<open>value_first\<close> tells which of the two strings of a pair is created
  first.
\<close>

definition build_string :: "'b fbb \<Rightarrow> string properties \<Rightarrow> string list \<Rightarrow> 'b \<Rightarrow> nat \<times> 'b" where
  "build_string L props path b =
     (case getValue props path '''' of (found, value) \<Rightarrow> if found then fbb_CreateString L value b else (0, b))"

definition build_pair :: "'b fbb \<Rightarrow> bool \<Rightarrow> string \<Rightarrow> string \<Rightarrow> 'b \<Rightarrow> ub + (nat \<times> 'b)" where
  "build_pair L value_first key val b =
     (if value_first then
        case fbb_CreateString L val b of (v, b) \<Rightarrow> case fbb_CreateString L key b of (k, b) \<Rightarrow> CreateKeyVal L k v b
      else case fbb_CreateString L key b of (k, b) \<Rightarrow> case fbb_CreateString L val b of (v, b) \<Rightarrow> CreateKeyVal L k v b)"

fun build_pairs :: "'b fbb \<Rightarrow> bool \<Rightarrow> (string \<times> string) list \<Rightarrow> 'b \<Rightarrow> ub + (nat list \<times> 'b)" where
  "build_pairs L value_first [] b = Inr ([], b)"
| "build_pairs L value_first ((key, val) # pairs) b =
     and_then (build_pair L value_first key val b) (\<lambda>(t, b).
     and_then (build_pairs L value_first pairs b) (\<lambda>(ts, b). Inr (t # ts, b)))"

fun build_strings :: "'b fbb \<Rightarrow> string list \<Rightarrow> 'b \<Rightarrow> nat list \<times> 'b" where
  "build_strings L [] b = ([], b)"
| "build_strings L (s # ss) b =
     (case fbb_CreateString L s b of (off, b) \<Rightarrow> case build_strings L ss b of (offs, b) \<Rightarrow> (off # offs, b))"

definition build_split :: "'b fbb \<Rightarrow> string properties \<Rightarrow> string list \<Rightarrow> 'b \<Rightarrow> nat list \<times> 'b" where
  "build_split L props path b =
     (case getValue props path '''' of (found, value) \<Rightarrow>
        if found then build_strings L (StrSplit value (CHR '','')) b else ([], b))"

fun build_properties :: "'b fbb \<Rightarrow> string properties \<Rightarrow> string list \<Rightarrow> 'b \<Rightarrow> nat list \<times> 'b" where
  "build_properties L props [] b = ([], b)"
| "build_properties L props (key # keys) b =
     (case build_string L props [''node'', ''metadata'', key] b of (x, b) \<Rightarrow>
      case build_properties L props keys b of (xs, b) \<Rightarrow> (x # xs, b))"

text \<open>The strings, the pairs and the vectors, in the order of the code; then the node.\<close>

definition local_node_parts :: "'b fbb \<Rightarrow> bool \<Rightarrow> string properties \<Rightarrow> (string \<times> string) list properties \<Rightarrow> 'b \<Rightarrow>
    ub + (node_offsets \<times> 'b)" where
  "local_node_parts L value_first props maps b =
     (case build_properties L props [''NAME'', ''NAMESPACE'', ''OWNER'', ''WORKLOAD_NAME'', ''ISTIO_VERSION'', ''MESH_ID'', ''CLUSTER_ID''] b of (xs, b) \<Rightarrow>
      and_then (build_pairs L value_first (case maps [''node'', ''metadata'', ''LABELS''] of Some pairs \<Rightarrow> pairs | None \<Rightarrow> []) b) (\<lambda>(labels, b).
      and_then (build_pairs L value_first (case maps [''node'', ''metadata'', ''PLATFORM_METADATA''] of Some pairs \<Rightarrow> pairs | None \<Rightarrow> []) b) (\<lambda>(platform_metadata, b).
      case build_split L props [''node'', ''metadata'', ''APP_CONTAINERS''] b of (app_containers, b) \<Rightarrow>
      case build_split L props [''node'', ''metadata'', ''INSTANCE_IPS''] b of (ip_addrs, b) \<Rightarrow>
      case fbb_CreateVectorOfSortedTables L labels b of (labels_offset, b) \<Rightarrow>
      case fbb_CreateVectorOfSortedTables L platform_metadata b of (platform_metadata_offset, b) \<Rightarrow>
      case fbb_CreateVector L app_containers b of (app_containers_offset, b) \<Rightarrow>
      case fbb_CreateVector L ip_addrs b of (ip_addrs_offset, b) \<Rightarrow>
      Inr (\<lparr>off_name = xs ! 0, off_namespace = xs ! 1, off_labels = labels_offset, off_owner = xs ! 2, off_workload_name = xs ! 3,
        off_platform_metadata = platform_metadata_offset, off_istio_version = xs ! 4, off_mesh_id = xs ! 5,
        off_app_containers = app_containers_offset, off_cluster_id = xs ! 6, off_instance_ips = ip_addrs_offset\<rparr>, b))))"

definition local_node_build :: "'b fbb \<Rightarrow> bool \<Rightarrow> string properties \<Rightarrow> (string \<times> string) list properties \<Rightarrow> 'b \<Rightarrow> ub + 'b" where
  "local_node_build L value_first props maps b =
     and_then (local_node_parts L value_first props maps b) (\<lambda>(a, b).
      case fbb_StartTable L b of (start, b) \<Rightarrow>
      let b = add_name L (off_name a) b; b = add_namespace L (off_namespace a) b; b = add_owner L (off_owner a) b;
          b = add_workload_name L (off_workload_name a) b; b = add_istio_version L (off_istio_version a) b;
          b = add_mesh_id L (off_mesh_id a) b; b = add_cluster_id L (off_cluster_id a) b; b = add_labels L (off_labels a) b;
          b = add_platform_metadata L (off_platform_metadata a) b; b = add_app_containers L (off_app_containers a) b;
          b = add_instance_ips L (off_instance_ips a) b
      in case FlatNode_Finish L start b of (data, b) \<Rightarrow> Inr (fbb_Finish L data b))"

definition empty_node_build :: "'b fbb \<Rightarrow> 'b \<Rightarrow> 'b" where
  "empty_node_build L b =
     (case fbb_StartTable L b of (start, b) \<Rightarrow> case FlatNode_Finish L start b of (data, b) \<Rightarrow> fbb_Finish L data b)"

text \<open>
  The node of an upstream endpoint; \<open>None\<close> is the result false. The null offset of a cluster id that
  was not created is tested before it is added.
\<close>

definition endpoint_pairs :: "string list \<Rightarrow> (string \<times> string) list" where
  "endpoint_pairs parts =
     (if parts ! 2 \<noteq> '''' then [(kCanonicalServiceLabelName, parts ! 2)] else []) @
     (if parts ! 3 \<noteq> '''' then [(kCanonicalServiceRevisionLabelName, parts ! 3)] else [])"

definition peer_node_build :: "'b fbb \<Rightarrow> bool \<Rightarrow> string properties \<Rightarrow> string \<Rightarrow> 'b \<Rightarrow> ub + 'b option" where
  "peer_node_build L value_first props metadata_type b =
     (case getValue props [metadata_type, ''filter_metadata'', ''istio'', ''workload''] '''' of (found, endpoint_labels) \<Rightarrow>
      if \<not> found then Inr None
      else let parts = StrSplit endpoint_labels (CHR '';'') in
        if length parts < 5 then Inr None
        else case fbb_CreateString L (parts ! 0) b of (workload_name, b) \<Rightarrow>
             case fbb_CreateString L (parts ! 1) b of (namespace, b) \<Rightarrow>
             and_then (build_pairs L value_first (endpoint_pairs parts) b) (\<lambda>(labels, b).
             case (if length parts \<ge> 5 then fbb_CreateString L (parts ! 4) b else (0, b)) of (cluster_id, b) \<Rightarrow>
             case fbb_CreateVectorOfSortedTables L labels b of (labels_offset, b) \<Rightarrow>
             case fbb_StartTable L b of (start, b) \<Rightarrow>
             let b = add_workload_name L workload_name b; b = add_namespace L namespace b;
                 b = (if cluster_id \<noteq> 0 then add_cluster_id L cluster_id b else b); b = add_labels L labels_offset b
             in case FlatNode_Finish L start b of (data, b) \<Rightarrow> Inr (Some (fbb_Finish L data b))))"

section \<open>The contract of the library\<close>

text \<open>
  \<open>live b\<close> are the offsets of the objects in the buffer. Later calls leave these alone. An optional
  string is null or an object; a pair is a table with a key.
\<close>

definition fbb_keeps :: "'b fbb \<Rightarrow> ('b \<Rightarrow> nat set) \<Rightarrow> 'b \<Rightarrow> 'b \<Rightarrow> bool" where
  "fbb_keeps L live b b' \<longleftrightarrow> (\<forall>x \<in> live b. x \<in> live b' \<and> fbb_GetPointer L b' x = fbb_GetPointer L b x \<and>
     fbb_string L b' x = fbb_string L b x \<and> fbb_vector L b' x = fbb_vector L b x)"

definition pointer :: "nat \<Rightarrow> nat option" where
  "pointer off = (if off = 0 then None else Some off)"

definition string_at :: "'b fbb \<Rightarrow> ('b \<Rightarrow> nat set) \<Rightarrow> 'b \<Rightarrow> nat option \<Rightarrow> string option \<Rightarrow> bool" where
  "string_at L live b p s \<longleftrightarrow> (case p of None \<Rightarrow> s = None | Some x \<Rightarrow> x \<in> live b \<and> s = Some (fbb_string L b x))"

definition kv_at :: "'b fbb \<Rightarrow> ('b \<Rightarrow> nat set) \<Rightarrow> 'b \<Rightarrow> nat \<Rightarrow> KeyVal \<Rightarrow> bool" where
  "kv_at L live b t kv \<longleftrightarrow> t \<in> live b \<and> string_at L live b (KeyVal_key L b t) (Some (kv_key kv)) \<and>
     string_at L live b (KeyVal_value L b t) (kv_value kv)"

locale flat_library =
  fixes L :: "'b fbb" and sort_tables :: "KeyVal list \<Rightarrow> KeyVal list"
    and live :: "'b \<Rightarrow> nat set" and added :: "'b \<Rightarrow> nat \<rightharpoonup> nat"
  assumes null: "0 \<notin> live b"
    and start_table: "fbb_StartTable L b = (start, b') \<Longrightarrow> fbb_keeps L live b b' \<and> added b' = Map.empty"
    and add_offset: "fbb_keeps L live b (fbb_AddOffset L f off b) \<and>
      added (fbb_AddOffset L f off b) = (if off = 0 then added b else (added b)(f \<mapsto> off))"
    and end_table: "fbb_EndTable L start b = (t, b') \<Longrightarrow> fbb_keeps L live b b' \<and> t \<in> live b' \<and> fbb_GetPointer L b' t = added b"
    and required: "fbb_Required L t f b = (if fbb_GetPointer L b t f = None then Inl AssertFailed else Inr ())"
    and create_string: "fbb_CreateString L s b = (x, b') \<Longrightarrow> fbb_keeps L live b b' \<and> x \<in> live b' \<and> fbb_string L b' x = s"
    and create_vector: "fbb_CreateVector L xs b = (x, b') \<Longrightarrow> fbb_keeps L live b b' \<and> x \<in> live b' \<and> fbb_vector L b' x = xs"
    and create_sorted: "fbb_CreateVectorOfSortedTables L ts b = (x, b') \<Longrightarrow> list_all2 (kv_at L live b) ts kvs \<Longrightarrow>
      fbb_keeps L live b b' \<and> x \<in> live b' \<and> list_all2 (kv_at L live b') (fbb_vector L b' x) (sort_tables kvs)"
    and finish: "fbb_keeps L live b (fbb_Finish L t b) \<and> fbb_GetRoot L (fbb_Finish L t b) = t"
begin

abbreviation keeps :: "'b \<Rightarrow> 'b \<Rightarrow> bool" where
  "keeps \<equiv> fbb_keeps L live"

lemma keeps_refl [simp]: "keeps b b"
  by (simp add: fbb_keeps_def)

lemma keeps_trans: "keeps a b \<Longrightarrow> keeps b c \<Longrightarrow> keeps a c"
  by (simp add: fbb_keeps_def)

lemma string_at_keeps: "string_at L live b p s \<Longrightarrow> keeps b b' \<Longrightarrow> string_at L live b' p s"
  by (auto simp: string_at_def fbb_keeps_def split: option.splits)

lemma kv_at_keeps: "kv_at L live b t kv \<Longrightarrow> keeps b b' \<Longrightarrow> kv_at L live b' t kv"
  using string_at_keeps [of b] by (auto simp: kv_at_def fbb_keeps_def KeyVal_key_def KeyVal_value_def)

lemma read_string_at: "string_at L live b p s \<Longrightarrow> map_option (fbb_string L b) p = s"
  by (auto simp: string_at_def split: option.splits)

lemma read_kv_at: "kv_at L live b t kv \<Longrightarrow> read_KeyVal L b t = kv"
  by (auto simp: kv_at_def read_KeyVal_def read_string_at) (auto simp: string_at_def split: option.splits)

lemma live_pointer: "x \<in> live b \<Longrightarrow> pointer x = Some x"
  using null [of b] by (metis pointer_def)

lemma added_if: "(if off = 0 then m else m(f \<mapsto> off)) x = (if x = f \<and> off \<noteq> 0 then Some off else m x)"
  by simp

text \<open>A pair is created with its key and value.\<close>

lemma CreateKeyVal_at:
  assumes "k \<in> live b" "string_at L live b (pointer v) s"
  obtains t b' where "CreateKeyVal L k v b = Inr (t, b')" "keeps b b'" "kv_at L live b' t \<lparr>kv_key = fbb_string L b k, kv_value = s\<rparr>"
proof -
  obtain start b1 where 1: "fbb_StartTable L b = (start, b1)" by (cases "fbb_StartTable L b")
  define b2 where "b2 = fbb_AddOffset L KeyVal_VT_VALUE v b1"
  define b3 where "b3 = fbb_AddOffset L KeyVal_VT_KEY k b2"
  obtain t b4 where 4: "fbb_EndTable L start b3 = (t, b4)" by (cases "fbb_EndTable L start b3")
  have k0: "k \<noteq> 0" using assms(1) null [of b] by metis
  have a: "added b3 = (if v = 0 then Map.empty else [KeyVal_VT_VALUE \<mapsto> v])(KeyVal_VT_KEY \<mapsto> k)"
    using start_table [OF 1] add_offset [of b1 KeyVal_VT_VALUE v] add_offset [of b2 KeyVal_VT_KEY k] k0
    by (simp add: b2_def [symmetric] b3_def [symmetric])
  have "keeps b1 b2" "keeps b2 b3" unfolding b2_def b3_def using add_offset by simp_all
  then have e: "keeps b b4" using start_table [OF 1] end_table [OF 4] by (blast intro: keeps_trans)
  have p: "KeyVal_key L b4 t = Some k" "KeyVal_value L b4 t = pointer v"
    using end_table [OF 4] by (simp_all add: a KeyVal_key_def KeyVal_value_def KeyVal_VT_KEY_def KeyVal_VT_VALUE_def pointer_def)
  have "CreateKeyVal L k v b = Inr (t, b4)"
    using p(1) by (simp add: CreateKeyVal_def 1 KeyVal_add_key_def KeyVal_add_value_def Let_def b2_def [symmetric] b3_def [symmetric]
        KeyVal_Finish_def 4 required KeyVal_key_def)
  moreover have "kv_at L live b4 t \<lparr>kv_key = fbb_string L b k, kv_value = s\<rparr>"
    using assms string_at_keeps [OF assms(2) e] e end_table [OF 4]
    by (simp add: kv_at_def p string_at_def fbb_keeps_def)
  ultimately show ?thesis using e that by blast
qed

lemma create_string_at:
  assumes "fbb_CreateString L s b = (x, b')"
  shows "keeps b b'" "string_at L live b' (pointer x) (Some s)" "x \<in> live b'" "fbb_string L b' x = s"
  using create_string [OF assms] live_pointer [of x b'] by (simp_all add: string_at_def)

end

section \<open>What the calls build\<close>

context flat_library
begin

lemma build_string_at:
  assumes "build_string L props path b = (x, b')"
  shows "keeps b b'" "string_at L live b' (pointer x) (string_offset props path)"
  using assms create_string_at(1,2)
  by (auto simp: build_string_def string_offset_def getValue_def split: option.splits) (simp add: string_at_def pointer_def)

lemma build_pair_at:
  obtains t b' where "build_pair L value_first key val b = Inr (t, b')" "keeps b b'" "kv_at L live b' t \<lparr>kv_key = key, kv_value = Some val\<rparr>"
proof (cases value_first)
  case True
  obtain v b1 where v: "fbb_CreateString L val b = (v, b1)" by (cases "fbb_CreateString L val b")
  obtain k b2 where k: "fbb_CreateString L key b1 = (k, b2)" by (cases "fbb_CreateString L key b1")
  note 1 = create_string_at [OF v] and 2 = create_string_at [OF k]
  obtain t b' where c: "CreateKeyVal L k v b2 = Inr (t, b')" "keeps b2 b'" "kv_at L live b' t \<lparr>kv_key = key, kv_value = Some val\<rparr>"
    using CreateKeyVal_at [OF 2(3) string_at_keeps [OF 1(2) 2(1)]] 2(4) by metis
  show ?thesis
    by (rule that [of t b']) (use True c keeps_trans [OF 1(1) keeps_trans [OF 2(1) c(2)]] in \<open>simp_all add: build_pair_def v k\<close>)
next
  case False
  obtain k b1 where k: "fbb_CreateString L key b = (k, b1)" by (cases "fbb_CreateString L key b")
  obtain v b2 where v: "fbb_CreateString L val b1 = (v, b2)" by (cases "fbb_CreateString L val b1")
  note 1 = create_string_at [OF k] and 2 = create_string_at [OF v]
  have "k \<in> live b2" "fbb_string L b2 k = key" using 1(3,4) 2(1) by (simp_all add: fbb_keeps_def)
  with CreateKeyVal_at [OF _ 2(2)] obtain t b' where
    c: "CreateKeyVal L k v b2 = Inr (t, b')" "keeps b2 b'" "kv_at L live b' t \<lparr>kv_key = key, kv_value = Some val\<rparr>" by metis
  show ?thesis
    by (rule that [of t b']) (use False c keeps_trans [OF 1(1) keeps_trans [OF 2(1) c(2)]] in \<open>simp_all add: build_pair_def v k\<close>)
qed

lemma build_pairs_at:
  "\<exists>ts b'. build_pairs L value_first pairs b = Inr (ts, b') \<and> keeps b b' \<and>
     list_all2 (kv_at L live b') ts (map (\<lambda>(key, val). \<lparr>kv_key = key, kv_value = Some val\<rparr>) pairs)"
proof (induction pairs arbitrary: b)
  case (Cons p pairs)
  obtain key val where p: "p = (key, val)" by (cases p)
  obtain t b1 where 1: "build_pair L value_first key val b = Inr (t, b1)" "keeps b b1" "kv_at L live b1 t \<lparr>kv_key = key, kv_value = Some val\<rparr>"
    using build_pair_at .
  obtain ts b2 where "build_pairs L value_first pairs b1 = Inr (ts, b2)" "keeps b1 b2"
    "list_all2 (kv_at L live b2) ts (map (\<lambda>(key, val). \<lparr>kv_key = key, kv_value = Some val\<rparr>) pairs)"
    using Cons.IH [of b1] by blast
  with 1 kv_at_keeps [OF 1(3)] keeps_trans [OF 1(2)] show ?case by (auto simp: p)
qed simp

definition strings_at :: "'b \<Rightarrow> nat list \<Rightarrow> string list \<Rightarrow> bool" where
  "strings_at b xs ss \<longleftrightarrow> set xs \<subseteq> live b \<and> map (fbb_string L b) xs = ss"

lemma strings_at_keeps: "strings_at b xs ss \<Longrightarrow> keeps b b' \<Longrightarrow> strings_at b' xs ss"
  by (fastforce simp: strings_at_def fbb_keeps_def)

lemma build_strings_at:
  "build_strings L ss b = (xs, b') \<Longrightarrow> keeps b b' \<and> strings_at b' xs ss"
proof (induction ss arbitrary: b xs b')
  case (Cons s ss)
  obtain x b1 where 1: "fbb_CreateString L s b = (x, b1)" by (cases "fbb_CreateString L s b")
  obtain xs' b2 where 2: "build_strings L ss b1 = (xs', b2)" by (cases "build_strings L ss b1")
  from Cons.IH [OF 2] have r: "keeps b1 b2" "strings_at b2 xs' ss" by simp_all
  have "x \<in> live b2" "fbb_string L b2 x = s" using create_string_at(3,4) [OF 1] r(1) by (simp_all add: fbb_keeps_def)
  with r keeps_trans [OF create_string_at(1) [OF 1] r(1)] Cons.prems 1 2 show ?case by (auto simp: strings_at_def)
qed (simp add: strings_at_def)

lemma build_split_at: "build_split L props path b = (xs, b') \<Longrightarrow> keeps b b' \<and> strings_at b' xs (split_vector props path)"
  using build_strings_at by (auto simp: build_split_def split_vector_def getValue_def strings_at_def split: option.splits)

text \<open>A finished node: what its offsets refer to is what is read.\<close>

definition node_at :: "'b \<Rightarrow> node_offsets \<Rightarrow> FlatNode \<Rightarrow> bool" where
  "node_at b a n \<longleftrightarrow>
     (\<forall>(off, s) \<in> {(off_name a, node_name n), (off_namespace a, node_namespace n), (off_owner a, node_owner n),
         (off_workload_name a, node_workload_name n), (off_istio_version a, node_istio_version n),
         (off_mesh_id a, node_mesh_id n), (off_cluster_id a, node_cluster_id n)}. string_at L live b (pointer off) s) \<and>
     (\<forall>(off, kvs) \<in> {(off_labels a, node_labels n), (off_platform_metadata a, node_platform_metadata n)}.
         rel_option (\<lambda>x kvs. x \<in> live b \<and> list_all2 (kv_at L live b) (fbb_vector L b x) kvs) (pointer off) kvs) \<and>
     (\<forall>(off, ss) \<in> {(off_app_containers a, node_app_containers n), (off_instance_ips a, node_instance_ips n)}.
         rel_option (\<lambda>x ss. x \<in> live b \<and> strings_at b (fbb_vector L b x) ss) (pointer off) ss)"

definition node_fields :: "node_offsets \<Rightarrow> nat \<rightharpoonup> nat" where
  "node_fields a f = Option.bind (map_of [(4, off_name a), (6, off_namespace a), (8, off_labels a), (10, off_owner a), (12, off_workload_name a),
     (14, off_platform_metadata a), (16, off_istio_version a), (18, off_mesh_id a), (20, off_app_containers a),
     (22, off_cluster_id a), (24, off_instance_ips a)] f) pointer"

lemma read_pairs: "rel_option (\<lambda>x kvs. x \<in> live b \<and> list_all2 (kv_at L live b) (fbb_vector L b x) kvs) p kvs \<Longrightarrow>
   map_option (\<lambda>x. map (read_KeyVal L b) (fbb_vector L b x)) p = kvs"
proof (cases p; cases kvs)
  fix x ks
  assume "rel_option (\<lambda>x kvs. x \<in> live b \<and> list_all2 (kv_at L live b) (fbb_vector L b x) kvs) p kvs" "p = Some x" "kvs = Some ks"
  then have "list_all2 (kv_at L live b) (fbb_vector L b x) ks" by simp
  then have "map (read_KeyVal L b) (fbb_vector L b x) = ks" by (induction rule: list_all2_induct) (simp_all add: read_kv_at)
  then show ?thesis using \<open>p = Some x\<close> \<open>kvs = Some ks\<close> by simp
qed auto

lemma read_strings: "rel_option (\<lambda>x ss. x \<in> live b \<and> strings_at b (fbb_vector L b x) ss) p ss \<Longrightarrow>
   map_option (\<lambda>x. map (fbb_string L b) (fbb_vector L b x)) p = ss"
  by (cases p; cases ss) (simp_all add: strings_at_def)

lemma read_node:
  assumes "node_at b a n" "fbb_GetPointer L b t = node_fields a"
  shows "read_FlatNode L b t = n"
proof -
  have s: "map_option (fbb_string L b) (pointer (off_name a)) = node_name n" "map_option (fbb_string L b) (pointer (off_namespace a)) = node_namespace n"
    "map_option (fbb_string L b) (pointer (off_owner a)) = node_owner n" "map_option (fbb_string L b) (pointer (off_workload_name a)) = node_workload_name n"
    "map_option (fbb_string L b) (pointer (off_istio_version a)) = node_istio_version n"
    "map_option (fbb_string L b) (pointer (off_mesh_id a)) = node_mesh_id n" "map_option (fbb_string L b) (pointer (off_cluster_id a)) = node_cluster_id n"
    "map_option (\<lambda>x. map (read_KeyVal L b) (fbb_vector L b x)) (pointer (off_labels a)) = node_labels n"
    "map_option (\<lambda>x. map (read_KeyVal L b) (fbb_vector L b x)) (pointer (off_platform_metadata a)) = node_platform_metadata n"
    "map_option (\<lambda>x. map (fbb_string L b) (fbb_vector L b x)) (pointer (off_app_containers a)) = node_app_containers n"
    "map_option (\<lambda>x. map (fbb_string L b) (fbb_vector L b x)) (pointer (off_instance_ips a)) = node_instance_ips n"
    using assms(1) unfolding node_at_def by (simp_all add: read_string_at read_pairs read_strings)
  show ?thesis
    by (simp add: read_FlatNode_def Let_def assms(2) node_fields_def FlatNode_name_def FlatNode_namespace_def FlatNode_labels_def
        FlatNode_owner_def FlatNode_workload_name_def FlatNode_platform_metadata_def FlatNode_istio_version_def FlatNode_mesh_id_def
        FlatNode_app_containers_def FlatNode_cluster_id_def FlatNode_instance_ips_def s)
qed

end

context flat_library
begin

lemma fold_adds:
  "distinct (map fst fs) \<Longrightarrow> keeps b (fold (\<lambda>(f, off). fbb_AddOffset L f off) fs b) \<and>
   added (fold (\<lambda>(f, off). fbb_AddOffset L f off) fs b) = (\<lambda>x. case Option.bind (map_of fs x) pointer of None \<Rightarrow> added b x | Some off \<Rightarrow> Some off)"
proof (induction fs arbitrary: b)
  case (Cons p fs)
  obtain f off where p: "p = (f, off)" by (cases p)
  have f: "map_of fs f = None" using Cons.prems by (simp add: p map_of_eq_None_iff)
  note a = add_offset [of b f off]
  from Cons.IH [of "fbb_AddOffset L f off b"] Cons.prems a f keeps_trans show ?case
    by (auto simp: p fun_eq_iff pointer_def split: option.splits)
qed simp

text \<open>A table that is started, filled and finished.\<close>

lemma table_built:
  assumes "fbb_StartTable L b = (start, b1)" "fbb_EndTable L start (fold (\<lambda>(f, off). fbb_AddOffset L f off) fs b1) = (t, b2)"
    and "distinct (map fst fs)"
  shows "keeps b b2" "t \<in> live b2" "fbb_GetPointer L b2 t = (\<lambda>x. Option.bind (map_of fs x) pointer)"
proof -
  note s = start_table [OF assms(1)] and f = fold_adds [OF assms(3), of b1] and e = end_table [OF assms(2)]
  show "keeps b b2" using s f e by (blast intro: keeps_trans)
  show "t \<in> live b2" using e by simp
  show "fbb_GetPointer L b2 t = (\<lambda>x. Option.bind (map_of fs x) pointer)"
    using s f e by (simp add: fun_eq_iff split: option.split)
qed

lemma rel_vector_keeps:
  assumes "rel_option (\<lambda>x ss. x \<in> live b \<and> strings_at b (fbb_vector L b x) ss) p ss" "keeps b b'"
  shows "rel_option (\<lambda>x ss. x \<in> live b' \<and> strings_at b' (fbb_vector L b' x) ss) p ss"
  using assms(1)
proof (cases rule: option.rel_cases)
  case (Some x ks)
  then have "fbb_vector L b' x = fbb_vector L b x" "x \<in> live b'" using assms(2) by (simp_all add: fbb_keeps_def)
  with Some strings_at_keeps [OF _ assms(2)] show ?thesis by simp
qed simp

lemma rel_sorted_keeps:
  assumes "rel_option (\<lambda>x kvs. x \<in> live b \<and> list_all2 (kv_at L live b) (fbb_vector L b x) kvs) p kvs" "keeps b b'"
  shows "rel_option (\<lambda>x kvs. x \<in> live b' \<and> list_all2 (kv_at L live b') (fbb_vector L b' x) kvs) p kvs"
  using assms(1)
proof (cases rule: option.rel_cases)
  case (Some x ks)
  then have "fbb_vector L b' x = fbb_vector L b x" "x \<in> live b'" using assms(2) by (simp_all add: fbb_keeps_def)
  with Some kv_at_keeps [OF _ assms(2)] show ?thesis by (auto elim: list_all2_mono)
qed simp

lemma node_at_keeps: "node_at b a n \<Longrightarrow> keeps b b' \<Longrightarrow> node_at b' a n"
  using string_at_keeps [of b _ _ b'] rel_sorted_keeps [of b _ _ b'] rel_vector_keeps [of b _ _ b'] by (simp add: node_at_def)

lemma node_read:
  assumes "node_at b a n" "fbb_StartTable L b = (start, b1)"
    and "fbb_EndTable L start (fold (\<lambda>(f, off). fbb_AddOffset L f off) fs b1) = (t, b2)"
    and "distinct (map fst fs)" "\<And>x. Option.bind (map_of fs x) pointer = node_fields a x"
  shows "keeps b b2" "t \<in> live b2" "read_FlatNode L b2 t = n"
    "read_FlatNode L (fbb_Finish L t b2) (fbb_GetRoot L (fbb_Finish L t b2)) = n"
proof -
  note tb = table_built [OF assms(2-4)]
  have f: "fbb_GetPointer L b2 t = node_fields a" using tb(3) assms(5) by simp
  show "keeps b b2" "t \<in> live b2" by (rule tb)+
  show "read_FlatNode L b2 t = n" by (rule read_node [OF node_at_keeps [OF assms(1) tb(1)] f])
  have k: "keeps b2 (fbb_Finish L t b2)" using finish [of b2 t] by simp
  with f tb(2) have "fbb_GetPointer L (fbb_Finish L t b2) t = node_fields a" by (simp add: fbb_keeps_def)
  from read_node [OF node_at_keeps [OF node_at_keeps [OF assms(1) tb(1)] k] this] finish [of b2 t]
  show "read_FlatNode L (fbb_Finish L t b2) (fbb_GetRoot L (fbb_Finish L t b2)) = n" by simp
qed

lemma CreateFlatNode_reads:
  assumes "node_at b a n" "CreateFlatNode L a b = (t, b')"
  shows "keeps b b'" "t \<in> live b'" "read_FlatNode L b' t = n"
proof -
  obtain start b1 where 1: "fbb_StartTable L b = (start, b1)" by (cases "fbb_StartTable L b")
  let ?fs = "[(24, off_instance_ips a), (22, off_cluster_id a), (20, off_app_containers a), (18, off_mesh_id a), (16, off_istio_version a),
     (14, off_platform_metadata a), (12, off_workload_name a), (10, off_owner a), (8, off_labels a), (6, off_namespace a), (4, off_name a)]"
  have e: "fbb_EndTable L start (fold (\<lambda>(f, off). fbb_AddOffset L f off) ?fs b1) = (t, b')"
    using assms(2) by (simp add: CreateFlatNode_def 1 Let_def FlatNode_Finish_def add_name_def add_namespace_def add_labels_def add_owner_def
        add_workload_name_def add_platform_metadata_def add_istio_version_def add_mesh_id_def add_app_containers_def
        add_cluster_id_def add_instance_ips_def)
  have f: "Option.bind (map_of ?fs x) pointer = node_fields a x" for x by (auto simp: node_fields_def)
  show "keeps b b'" "t \<in> live b'" "read_FlatNode L b' t = n"
    using node_read [OF assms(1) 1 e _ f] by simp_all
qed

end

lemma seven: "list_all2 P xs [k0, k1, k2, k3, k4, k5, k6] \<Longrightarrow>
    P (xs ! 0) k0 \<and> P (xs ! 1) k1 \<and> P (xs ! 2) k2 \<and> P (xs ! 3) k3 \<and> P (xs ! 4) k4 \<and> P (xs ! 5) k5 \<and> P (xs ! 6) k6"
  by (auto simp: list_all2_Cons2)

context flat_library
begin

lemma build_properties_at:
  "build_properties L props keys b = (xs, b') \<Longrightarrow>
   keeps b b' \<and> list_all2 (\<lambda>x key. string_at L live b' (pointer x) (string_offset props [''node'', ''metadata'', key])) xs keys"
proof (induction keys arbitrary: b xs b')
  case (Cons key keys)
  obtain x b1 where 1: "build_string L props [''node'', ''metadata'', key] b = (x, b1)" by (cases "build_string L props [''node'', ''metadata'', key] b")
  obtain xs' b2 where 2: "build_properties L props keys b1 = (xs', b2)" by (cases "build_properties L props keys b1")
  note r = build_string_at [OF 1] and ih = Cons.IH [OF 2]
  from r ih string_at_keeps [OF r(2)] keeps_trans [OF r(1)] Cons.prems 1 2 show ?case by auto
qed simp

text \<open>Vectors that were created are read back, also after further calls.\<close>

lemma vector_at:
  assumes "fbb_CreateVector L xs b = (x, b1)" "strings_at b xs ss"
  shows "keeps b b1" "rel_option (\<lambda>x ss. x \<in> live b1 \<and> strings_at b1 (fbb_vector L b1 x) ss) (pointer x) (Some ss)"
  using create_vector [OF assms(1)] strings_at_keeps [OF assms(2)] live_pointer [of x b1] by simp_all

lemma sorted_at:
  assumes "fbb_CreateVectorOfSortedTables L ts b = (x, b1)" "list_all2 (kv_at L live b) ts kvs"
  shows "keeps b b1"
    "rel_option (\<lambda>x kvs. x \<in> live b1 \<and> list_all2 (kv_at L live b1) (fbb_vector L b1 x) kvs) (pointer x) (Some (sort_tables kvs))"
  using create_sorted [OF assms] live_pointer [of x b1] by simp_all

lemma local_node_parts_at:
  assumes "CreateVectorOfSortedTables fb = sort_tables"
  obtains a b' where "local_node_parts L value_first props maps b = Inr (a, b')" "node_at b' a (extractLocalNodeFlatBuffer fb props maps)"
proof -
  let ?keys = "[''NAME'', ''NAMESPACE'', ''OWNER'', ''WORKLOAD_NAME'', ''ISTIO_VERSION'', ''MESH_ID'', ''CLUSTER_ID'']"
  let ?p = "\<lambda>k. [''node'', ''metadata'', k]"
  let ?pairs = "\<lambda>k. case maps (?p k) of Some pairs \<Rightarrow> pairs | None \<Rightarrow> []"
  obtain xs b1 where 1: "build_properties L props ?keys b = (xs, b1)" by (cases "build_properties L props ?keys b")
  obtain ls b2 where 2: "build_pairs L value_first (?pairs ''LABELS'') b1 = Inr (ls, b2)" "keeps b1 b2"
    "list_all2 (kv_at L live b2) ls (pairs_vector maps (?p ''LABELS''))"
    using build_pairs_at [of value_first "?pairs ''LABELS''" b1] by (auto simp: pairs_vector_def split: option.splits)
  obtain ps b3 where 3: "build_pairs L value_first (?pairs ''PLATFORM_METADATA'') b2 = Inr (ps, b3)" "keeps b2 b3"
    "list_all2 (kv_at L live b3) ps (pairs_vector maps (?p ''PLATFORM_METADATA''))"
    using build_pairs_at [of value_first "?pairs ''PLATFORM_METADATA''" b2] by (auto simp: pairs_vector_def split: option.splits)
  obtain cs b4 where 4: "build_split L props (?p ''APP_CONTAINERS'') b3 = (cs, b4)" by (cases "build_split L props (?p ''APP_CONTAINERS'') b3")
  obtain ips b5 where 5: "build_split L props (?p ''INSTANCE_IPS'') b4 = (ips, b5)" by (cases "build_split L props (?p ''INSTANCE_IPS'') b4")
  obtain l b6 where 6: "fbb_CreateVectorOfSortedTables L ls b5 = (l, b6)" by (cases "fbb_CreateVectorOfSortedTables L ls b5")
  obtain p b7 where 7: "fbb_CreateVectorOfSortedTables L ps b6 = (p, b7)" by (cases "fbb_CreateVectorOfSortedTables L ps b6")
  obtain c b8 where 8: "fbb_CreateVector L cs b7 = (c, b8)" by (cases "fbb_CreateVector L cs b7")
  obtain i b9 where 9: "fbb_CreateVector L ips b8 = (i, b9)" by (cases "fbb_CreateVector L ips b8")
  note r1 = build_properties_at [OF 1] and r4 = build_split_at [OF 4] and r5 = build_split_at [OF 5]
  have k5: "keeps b3 b5" "keeps b2 b5" using r4 r5 3(2) by (blast intro: keeps_trans)+
  note r6 = sorted_at [OF 6 list_all2_mono [OF 2(3) kv_at_keeps [OF _ k5(2)]]]
  note r7 = sorted_at [OF 7 list_all2_mono [OF 3(3) kv_at_keeps [OF _ keeps_trans [OF k5(1) r6(1)]]]]
  have k7: "keeps b4 b7" "keeps b5 b7" using r5 r6(1) r7(1) by (blast intro: keeps_trans)+
  note r8 = vector_at [OF 8 strings_at_keeps [OF conjunct2 [OF r4] k7(1)]]
  note r9 = vector_at [OF 9 strings_at_keeps [OF conjunct2 [OF r5] keeps_trans [OF k7(2) r8(1)]]]
  have k9: "keeps b7 b9" "keeps b6 b9" "keeps b1 b9" using 2(2) k5 r6(1) r7(1) r8(1) r9(1) by (blast intro: keeps_trans)+
  have "list_all2 (\<lambda>x key. string_at L live b9 (pointer x) (string_offset props (?p key))) xs ?keys"
    using conjunct2 [OF r1] by (rule list_all2_mono) (rule string_at_keeps [OF _ k9(3)])
  note strs = seven [OF this]
  note vecs = rel_sorted_keeps [OF r6(2) k9(2)] rel_sorted_keeps [OF r7(2) k9(1)] rel_vector_keeps [OF r8(2) r9(1)] r9(2)
  show ?thesis
  proof (rule that)
    show "local_node_parts L value_first props maps b = Inr (\<lparr>off_name = xs ! 0, off_namespace = xs ! 1, off_labels = l, off_owner = xs ! 2,
        off_workload_name = xs ! 3, off_platform_metadata = p, off_istio_version = xs ! 4, off_mesh_id = xs ! 5,
        off_app_containers = c, off_cluster_id = xs ! 6, off_instance_ips = i\<rparr>, b9)"
      by (simp add: local_node_parts_def 1 2(1) 3(1) 4 5 6 7 8 9 del: build_properties.simps)
  qed (use strs vecs in \<open>simp add: node_at_def extractLocalNodeFlatBuffer_def Let_def assms\<close>)
qed

text \<open>The whole extraction of the local node.\<close>

lemma local_node_built:
  assumes "CreateVectorOfSortedTables fb = sort_tables"
  shows "\<exists>b'. local_node_build L value_first props maps b = Inr b' \<and>
     read_FlatNode L b' (GetFlatNode L b') = extractLocalNodeFlatBuffer fb props maps"
proof -
  obtain a b1 where a: "local_node_parts L value_first props maps b = Inr (a, b1)" "node_at b1 a (extractLocalNodeFlatBuffer fb props maps)"
    using local_node_parts_at [OF assms] .
  obtain start b2 where 2: "fbb_StartTable L b1 = (start, b2)" by (cases "fbb_StartTable L b1")
  let ?fs = "[(4, off_name a), (6, off_namespace a), (10, off_owner a), (12, off_workload_name a), (16, off_istio_version a), (18, off_mesh_id a),
    (22, off_cluster_id a), (8, off_labels a), (14, off_platform_metadata a), (20, off_app_containers a), (24, off_instance_ips a)]"
  obtain t b3 where 3: "fbb_EndTable L start (fold (\<lambda>(f, off). fbb_AddOffset L f off) ?fs b2) = (t, b3)"
    by (cases "fbb_EndTable L start (fold (\<lambda>(f, off). fbb_AddOffset L f off) ?fs b2)")
  have f: "Option.bind (map_of ?fs x) pointer = node_fields a x" for x by (auto simp: node_fields_def)
  have "local_node_build L value_first props maps b = Inr (fbb_Finish L t b3)"
    using 3 by (simp add: local_node_build_def a(1) 2 Let_def FlatNode_Finish_def
        add_name_def add_namespace_def add_labels_def add_owner_def add_workload_name_def add_platform_metadata_def
        add_istio_version_def add_mesh_id_def add_app_containers_def add_cluster_id_def add_instance_ips_def)
  with node_read(4) [OF a(2) 2 3 _ f] show ?thesis by (simp add: GetFlatNode_def)
qed

end

context flat_library
begin

lemma empty_node_built: "read_FlatNode L (empty_node_build L b) (GetFlatNode L (empty_node_build L b)) = extractEmptyNodeFlatBuffer"
proof -
  obtain start b1 where 1: "fbb_StartTable L b = (start, b1)" by (cases "fbb_StartTable L b")
  obtain t b2 where 2: "fbb_EndTable L start b1 = (t, b2)" by (cases "fbb_EndTable L start b1")
  let ?a = "\<lparr>off_name = 0, off_namespace = 0, off_labels = 0, off_owner = 0, off_workload_name = 0, off_platform_metadata = 0,
    off_istio_version = 0, off_mesh_id = 0, off_app_containers = 0, off_cluster_id = 0, off_instance_ips = 0\<rparr>"
  have n: "node_at b ?a extractEmptyNodeFlatBuffer"
    by (simp add: node_at_def extractEmptyNodeFlatBuffer_def string_at_def pointer_def)
  have f: "Option.bind (map_of [] x) pointer = node_fields ?a x" for x by (simp add: node_fields_def pointer_def)
  have e: "fbb_EndTable L start (fold (\<lambda>(f, off). fbb_AddOffset L f off) [] b1) = (t, b2)" using 2 by simp
  show ?thesis using node_read(4) [OF n 1 e _ f] by (simp add: empty_node_build_def 1 2 FlatNode_Finish_def GetFlatNode_def)
qed

lemma peer_node_built:
  assumes "CreateVectorOfSortedTables fb = sort_tables"
  shows "\<exists>r. peer_node_build L value_first props ty b = Inr r \<and>
     map_option (\<lambda>b'. read_FlatNode L b' (GetFlatNode L b')) r = extractPeerMetadataFromUpstreamMetadata fb props ty"
proof (cases "\<exists>endpoint. props [ty, ''filter_metadata'', ''istio'', ''workload''] = Some endpoint \<and> 5 \<le> length (StrSplit endpoint (CHR '';''))")
  case False
  then show ?thesis
    by (auto simp: peer_node_build_def extractPeerMetadataFromUpstreamMetadata_def getValue_def Let_def split: option.split)
next
  case True
  then obtain endpoint where e: "props [ty, ''filter_metadata'', ''istio'', ''workload''] = Some endpoint" "5 \<le> length (StrSplit endpoint (CHR '';''))" by blast
  define parts where "parts = StrSplit endpoint (CHR '';'')"
  let ?pairs = "endpoint_pairs parts"
  let ?kvs = "map (\<lambda>(key, val). \<lparr>kv_key = key, kv_value = Some val\<rparr>) ?pairs"
  obtain w b1 where 1: "fbb_CreateString L (parts ! 0) b = (w, b1)" by (cases "fbb_CreateString L (parts ! 0) b")
  obtain n b2 where 2: "fbb_CreateString L (parts ! 1) b1 = (n, b2)" by (cases "fbb_CreateString L (parts ! 1) b1")
  obtain ls b3 where 3: "build_pairs L value_first ?pairs b2 = Inr (ls, b3)" "keeps b2 b3" "list_all2 (kv_at L live b3) ls ?kvs"
    using build_pairs_at [of value_first ?pairs b2] by blast
  obtain c b4 where 4: "fbb_CreateString L (parts ! 4) b3 = (c, b4)" by (cases "fbb_CreateString L (parts ! 4) b3")
  obtain l b5 where 5: "fbb_CreateVectorOfSortedTables L ls b4 = (l, b5)" by (cases "fbb_CreateVectorOfSortedTables L ls b4")
  note r1 = create_string_at [OF 1] and r2 = create_string_at [OF 2] and r4 = create_string_at [OF 4]
  note r5 = sorted_at [OF 5 list_all2_mono [OF 3(3) kv_at_keeps [OF _ r4(1)]]]
  have k: "keeps b2 b5" "keeps b1 b5" using r2(1) 3(2) r4(1) r5(1) by (blast intro: keeps_trans)+
  let ?a = "\<lparr>off_name = 0, off_namespace = n, off_labels = l, off_owner = 0, off_workload_name = w, off_platform_metadata = 0,
    off_istio_version = 0, off_mesh_id = 0, off_app_containers = 0, off_cluster_id = c, off_instance_ips = 0\<rparr>"
  let ?node = "extractEmptyNodeFlatBuffer\<lparr>node_workload_name := Some (parts ! 0), node_namespace := Some (parts ! 1),
     node_cluster_id := Some (parts ! 4), node_labels := Some (sort_tables ?kvs)\<rparr>"
  have node: "node_at b5 ?a ?node"
    using string_at_keeps [OF r1(2) k(2)] string_at_keeps [OF r2(2) k(1)] string_at_keeps [OF r4(2) r5(1)] r5(2)
    by (simp add: node_at_def extractEmptyNodeFlatBuffer_def) (simp add: string_at_def pointer_def)
  obtain start b6 where 6: "fbb_StartTable L b5 = (start, b6)" by (cases "fbb_StartTable L b5")
  let ?fs = "[(12, w), (6, n), (22, c), (8, l)]"
  obtain t b7 where 7: "fbb_EndTable L start (fold (\<lambda>(f, off). fbb_AddOffset L f off) ?fs b6) = (t, b7)"
    by (cases "fbb_EndTable L start (fold (\<lambda>(f, off). fbb_AddOffset L f off) ?fs b6)")
  have f: "Option.bind (map_of ?fs x) pointer = node_fields ?a x" for x by (auto simp: node_fields_def pointer_def)
  have c0: "c \<noteq> 0" using r4(3) null [of b4] by metis
  have "peer_node_build L value_first props ty b = Inr (Some (fbb_Finish L t b7))"
    using 7 e c0 by (simp add: peer_node_build_def getValue_def Let_def parts_def [symmetric] 1 2 3(1) 4 5 6 FlatNode_Finish_def
        add_namespace_def add_labels_def add_workload_name_def add_cluster_id_def del: One_nat_def)
  moreover have "extractPeerMetadataFromUpstreamMetadata fb props ty = Some ?node"
    using e by (simp add: extractPeerMetadataFromUpstreamMetadata_def getValue_def Let_def parts_def [symmetric] assms endpoint_pairs_def)
  ultimately show ?thesis using node_read(4) [OF node 6 7 _ f] by (simp add: GetFlatNode_def)
qed

end

context flat_library
begin

lemma create_string_if_at:
  assumes "create_string_if L s b = (x, b')"
  shows "keeps b b'" "string_at L live b' (pointer x) (map_option c_str s)"
  using assms create_string_at(1,2) by (auto simp: create_string_if_def split: option.splits) (simp add: string_at_def pointer_def)

lemma create_sorted_if_at:
  assumes "create_sorted_if L v b = (x, b')" "rel_option (list_all2 (kv_at L live b)) v kvs"
  shows "keeps b b'"
    "rel_option (\<lambda>x kvs. x \<in> live b' \<and> list_all2 (kv_at L live b') (fbb_vector L b' x) kvs) (pointer x) (map_option sort_tables kvs)"
  using assms sorted_at [of _ b x b'] by (auto simp: create_sorted_if_def pointer_def option_rel_Some1 split: option.splits)

lemma create_vector_if_at:
  assumes "create_vector_if L v b = (x, b')" "rel_option (strings_at b) v ss"
  shows "keeps b b'" "rel_option (\<lambda>x ss. x \<in> live b' \<and> strings_at b' (fbb_vector L b' x) ss) (pointer x) ss"
  using assms vector_at [of _ b x b'] by (auto simp: create_vector_if_def pointer_def option_rel_Some1 split: option.splits)

lemma rel_pairs_keeps: "rel_option (list_all2 (kv_at L live b)) v kvs \<Longrightarrow> keeps b b' \<Longrightarrow> rel_option (list_all2 (kv_at L live b')) v kvs"
  by (erule option.rel_mono_strong) (auto elim: list_all2_mono kv_at_keeps)

lemma rel_strings_keeps: "rel_option (strings_at b) v ss \<Longrightarrow> keeps b b' \<Longrightarrow> rel_option (strings_at b') v ss"
  by (erule option.rel_mono_strong) (rule strings_at_keeps)

text \<open>\<open>CreateFlatNodeDirect\<close>: what its arguments point to is what is read back.\<close>

lemma CreateFlatNodeDirect_reads:
  assumes "rel_option (list_all2 (kv_at L live b)) (ptr_labels a) ls" "rel_option (list_all2 (kv_at L live b)) (ptr_platform_metadata a) ps"
    and "rel_option (strings_at b) (ptr_app_containers a) cs" "rel_option (strings_at b) (ptr_instance_ips a) ips"
    and "CreateFlatNodeDirect L a b = (t, b')"
  shows "read_FlatNode L b' t = \<lparr>node_name = map_option c_str (ptr_name a), node_namespace = map_option c_str (ptr_namespace a),
      node_labels = map_option sort_tables ls, node_owner = map_option c_str (ptr_owner a),
      node_workload_name = map_option c_str (ptr_workload_name a), node_platform_metadata = map_option sort_tables ps,
      node_istio_version = map_option c_str (ptr_istio_version a), node_mesh_id = map_option c_str (ptr_mesh_id a),
      node_app_containers = cs, node_cluster_id = map_option c_str (ptr_cluster_id a), node_instance_ips = ips\<rparr>"
proof -
  obtain x1 b1 where 1: "create_string_if L (ptr_name a) b = (x1, b1)" by (cases "create_string_if L (ptr_name a) b")
  obtain x2 b2 where 2: "create_string_if L (ptr_namespace a) b1 = (x2, b2)" by (cases "create_string_if L (ptr_namespace a) b1")
  obtain x3 b3 where 3: "create_sorted_if L (ptr_labels a) b2 = (x3, b3)" by (cases "create_sorted_if L (ptr_labels a) b2")
  obtain x4 b4 where 4: "create_string_if L (ptr_owner a) b3 = (x4, b4)" by (cases "create_string_if L (ptr_owner a) b3")
  obtain x5 b5 where 5: "create_string_if L (ptr_workload_name a) b4 = (x5, b5)" by (cases "create_string_if L (ptr_workload_name a) b4")
  obtain x6 b6 where 6: "create_sorted_if L (ptr_platform_metadata a) b5 = (x6, b6)" by (cases "create_sorted_if L (ptr_platform_metadata a) b5")
  obtain x7 b7 where 7: "create_string_if L (ptr_istio_version a) b6 = (x7, b7)" by (cases "create_string_if L (ptr_istio_version a) b6")
  obtain x8 b8 where 8: "create_string_if L (ptr_mesh_id a) b7 = (x8, b8)" by (cases "create_string_if L (ptr_mesh_id a) b7")
  obtain x9 b9 where 9: "create_vector_if L (ptr_app_containers a) b8 = (x9, b9)" by (cases "create_vector_if L (ptr_app_containers a) b8")
  obtain x10 b10 where 10: "create_string_if L (ptr_cluster_id a) b9 = (x10, b10)" by (cases "create_string_if L (ptr_cluster_id a) b9")
  obtain x11 b11 where 11: "create_vector_if L (ptr_instance_ips a) b10 = (x11, b11)" by (cases "create_vector_if L (ptr_instance_ips a) b10")
  note r1 = create_string_if_at [OF 1] and r2 = create_string_if_at [OF 2]
  have k2: "keeps b b2" using r1(1) r2(1) by (rule keeps_trans)
  note r3 = create_sorted_if_at [OF 3 rel_pairs_keeps [OF assms(1) k2]]
  note k3 = keeps_trans [OF k2 r3(1)]
  note r4 = create_string_if_at [OF 4]
  note k4 = keeps_trans [OF k3 r4(1)]
  note r5 = create_string_if_at [OF 5]
  note k5 = keeps_trans [OF k4 r5(1)]
  note r6 = create_sorted_if_at [OF 6 rel_pairs_keeps [OF assms(2) k5]]
  note k6 = keeps_trans [OF k5 r6(1)]
  note r7 = create_string_if_at [OF 7]
  note k7 = keeps_trans [OF k6 r7(1)]
  note r8 = create_string_if_at [OF 8]
  note k8 = keeps_trans [OF k7 r8(1)]
  note r9 = create_vector_if_at [OF 9 rel_strings_keeps [OF assms(3) k8]]
  note k9 = keeps_trans [OF k8 r9(1)]
  note r10 = create_string_if_at [OF 10]
  note k10 = keeps_trans [OF k9 r10(1)]
  note r11 = create_vector_if_at [OF 11 rel_strings_keeps [OF assms(4) k10]]
  note k11 = keeps_trans [OF k10 r11(1)]
  note e10 = r11(1)
  note e9 = keeps_trans [OF r10(1) e10]
  note e8 = keeps_trans [OF r9(1) e9]
  note e7 = keeps_trans [OF r8(1) e8]
  note e6 = keeps_trans [OF r7(1) e7]
  note e5 = keeps_trans [OF r6(1) e6]
  note e4 = keeps_trans [OF r5(1) e5]
  note e3 = keeps_trans [OF r4(1) e4]
  note e2 = keeps_trans [OF r3(1) e3]
  note e1 = keeps_trans [OF r2(1) e2]
  let ?a = "\<lparr>off_name = x1, off_namespace = x2, off_labels = x3, off_owner = x4, off_workload_name = x5, off_platform_metadata = x6, off_istio_version = x7, off_mesh_id = x8, off_app_containers = x9, off_cluster_id = x10, off_instance_ips = x11\<rparr>"
  show ?thesis
  proof (rule CreateFlatNode_reads(3))
    show "CreateFlatNode L ?a b11 = (t, b')"
      using assms(5) by (simp add: CreateFlatNodeDirect_def 1 2 3 4 5 6 7 8 9 10 11)
  qed (use string_at_keeps [OF r1(2) e1]
      string_at_keeps [OF r2(2) e2]
      rel_sorted_keeps [OF r3(2) e3]
      string_at_keeps [OF r4(2) e4]
      string_at_keeps [OF r5(2) e5]
      rel_sorted_keeps [OF r6(2) e6]
      string_at_keeps [OF r7(2) e7]
      string_at_keeps [OF r8(2) e8]
      rel_vector_keeps [OF r9(2) e9]
      string_at_keeps [OF r10(2) e10]
      r11(2) in \<open>simp add: node_at_def\<close>)
qed

end

section \<open>Sorted pairs\<close>

text \<open>
  The comparisons are those of the keys: a verified table has a key, so that they are defined, and on
  keys without a NUL the two agree.
\<close>

lemma all_checks_True: "fst (all_checks cs v) \<Longrightarrow> c \<in> set cs \<Longrightarrow> \<exists>v. fst (c v)"
proof (induction cs arbitrary: v)
  case (Cons d cs)
  obtain ok v' where d: "d v = (ok, v')" by (cases "d v")
  with Cons.prems(1) have ok: "ok" "fst (all_checks cs v')" by (auto split: if_splits)
  with d have "fst (d v)" by simp
  with Cons.prems(2) Cons.IH [OF ok(2)] show ?case by auto
qed simp

lemma KeyVal_Verify_key:
  assumes "\<And>v. fst (VerifyOffsetRequired V b t KeyVal_VT_KEY v) \<Longrightarrow> fbb_GetPointer L b t KeyVal_VT_KEY \<noteq> None"
    and "fst (KeyVal_Verify L V b t v)"
  shows "\<exists>n. KeyCompareWithValue L b t val = Inr n"
proof -
  obtain v' where "fst (VerifyOffsetRequired V b t KeyVal_VT_KEY v')"
    using all_checks_True [OF assms(2) [unfolded KeyVal_Verify_def], of "VerifyOffsetRequired V b t KeyVal_VT_KEY"] by auto
  from assms(1) [OF this] show ?thesis by (auto simp: KeyCompareWithValue_def KeyVal_key_def)
qed

lemma c_str_id: "CHR 0x00 \<notin> set s \<Longrightarrow> c_str s = s"
  by (auto simp: c_str_def takeWhile_eq_all_conv)

context flat_library
begin

lemma compare_at:
  assumes "kv_at L live b t kv" "kv_at L live b t' kv'"
  shows "KeyCompareLessThan L b t t' = Inr (kv_key kv < kv_key kv')"
    "CHR 0x00 \<notin> set (kv_key kv) \<Longrightarrow> CHR 0x00 \<notin> set val \<Longrightarrow>
     KeyCompareWithValue L b t val = Inr (if kv_key kv < val then -1 else if kv_key kv = val then 0 else 1)"
  using assms by (auto simp: kv_at_def string_at_def KeyCompareLessThan_def KeyCompareWithValue_def strcmp_def c_str_id split: option.splits)

lemma CreateKeyValDirect_reads:
  "\<exists>t b'. CreateKeyValDirect L (Some key) val b = Inr (t, b') \<and> keeps b b' \<and>
     read_KeyVal L b' t = \<lparr>kv_key = c_str key, kv_value = map_option c_str val\<rparr>"
proof -
  obtain k b1 where 1: "fbb_CreateString L (c_str key) b = (k, b1)" by (cases "fbb_CreateString L (c_str key) b")
  obtain v b2 where 2: "create_string_if L val b1 = (v, b2)" by (cases "create_string_if L val b1")
  note r = create_string_at [OF 1]
  have v: "keeps b1 b2" "string_at L live b2 (pointer v) (map_option c_str val)"
    using 2 create_string_at(1,2) [of _ b1 v b2] by (auto simp: create_string_if_def split: option.splits) (simp add: string_at_def pointer_def)
  have k: "k \<in> live b2" "fbb_string L b2 k = c_str key" using r(3,4) v(1) by (simp_all add: fbb_keeps_def)
  obtain t b3 where c: "CreateKeyVal L k v b2 = Inr (t, b3)" "keeps b2 b3" "kv_at L live b3 t \<lparr>kv_key = c_str key, kv_value = map_option c_str val\<rparr>"
    using CreateKeyVal_at [OF k(1) v(2)] k(2) by metis
  have "CreateKeyValDirect L (Some key) val b = Inr (t, b3)" using 2 c(1) by (simp add: CreateKeyValDirect_def create_string_if_def 1)
  moreover have "keeps b b3" using r(1) v(1) c(2) by (blast intro: keeps_trans)
  ultimately show ?thesis using read_kv_at [OF c(3)] by blast
qed

text \<open>Without a key the assertion of the library fails.\<close>

lemma CreateKeyValDirect_no_key: "CreateKeyValDirect L None val b = Inl AssertFailed"
proof -
  obtain v b1 where 1: "create_string_if L val b = (v, b1)" by (cases "create_string_if L val b")
  obtain start b2 where 2: "fbb_StartTable L b1 = (start, b2)" by (cases "fbb_StartTable L b1")
  let ?fs = "[(KeyVal_VT_VALUE, v), (KeyVal_VT_KEY, 0)]"
  obtain t b3 where 3: "fbb_EndTable L start (fold (\<lambda>(f, off). fbb_AddOffset L f off) ?fs b2) = (t, b3)"
    by (cases "fbb_EndTable L start (fold (\<lambda>(f, off). fbb_AddOffset L f off) ?fs b2)")
  have "fbb_GetPointer L b3 t KeyVal_VT_KEY = None"
    using table_built(3) [OF 2 3] by (simp add: KeyVal_VT_KEY_def KeyVal_VT_VALUE_def pointer_def)
  with 3 show ?thesis
    by (simp add: CreateKeyValDirect_def create_string_if_def [of L None] 1 CreateKeyVal_def 2 KeyVal_add_key_def KeyVal_add_value_def
        KeyVal_Finish_def Let_def required)
qed

end

section \<open>A buffer\<close>

text \<open>A buffer as its documentation describes it: objects in the order of their creation.\<close>

datatype flat_object = StringObject string | VectorObject "nat list" | TableObject "(nat \<times> nat) list"

record flat_heap =
  heap_objects :: "flat_object list"
  heap_table :: "(nat \<times> nat) list" \<comment> \<open>the table under construction, the last field first\<close>
  heap_root :: nat

definition heap_push :: "flat_object \<Rightarrow> flat_heap \<Rightarrow> nat \<times> flat_heap" where
  "heap_push ob h = (Suc (length (heap_objects h)), h\<lparr>heap_objects := heap_objects h @ [ob]\<rparr>)"

definition heap_live :: "flat_heap \<Rightarrow> nat set" where
  "heap_live h = {x. 0 < x \<and> x \<le> length (heap_objects h)}"

definition heap_pointer :: "flat_heap \<Rightarrow> nat \<Rightarrow> nat \<Rightarrow> nat option" where
  "heap_pointer h t f = (case heap_objects h ! (t - 1) of TableObject m \<Rightarrow> map_of m f | _ \<Rightarrow> None)"

definition heap_string :: "flat_heap \<Rightarrow> nat \<Rightarrow> string" where
  "heap_string h x = (case heap_objects h ! (x - 1) of StringObject s \<Rightarrow> s | _ \<Rightarrow> '''')"

definition heap_vector :: "flat_heap \<Rightarrow> nat \<Rightarrow> nat list" where
  "heap_vector h x = (case heap_objects h ! (x - 1) of VectorObject v \<Rightarrow> v | _ \<Rightarrow> [])"

definition heap_key :: "flat_heap \<Rightarrow> nat \<Rightarrow> string" where
  "heap_key h t = (case heap_pointer h t KeyVal_VT_KEY of Some k \<Rightarrow> heap_string h k | None \<Rightarrow> '''')"

definition heap_lib :: "flat_heap fbb" where
  "heap_lib = \<lparr>fbb_StartTable = \<lambda>h. (0, h\<lparr>heap_table := []\<rparr>),
     fbb_AddOffset = \<lambda>f off h. if off = 0 then h else h\<lparr>heap_table := (f, off) # heap_table h\<rparr>,
     fbb_EndTable = \<lambda>start h. heap_push (TableObject (heap_table h)) h,
     fbb_Required = \<lambda>t f h. if heap_pointer h t f = None then Inl AssertFailed else Inr (),
     fbb_CreateString = \<lambda>s. heap_push (StringObject s),
     fbb_CreateVector = \<lambda>xs. heap_push (VectorObject xs),
     fbb_CreateVectorOfSortedTables = \<lambda>ts h. heap_push (VectorObject (sort_key (heap_key h) ts)) h,
     fbb_Finish = \<lambda>t h. h\<lparr>heap_root := t\<rparr>, fbb_FinishSizePrefixed = \<lambda>t h. h\<lparr>heap_root := t\<rparr>,
     fbb_GetPointer = heap_pointer, fbb_string = heap_string, fbb_vector = heap_vector,
     fbb_GetRoot = heap_root, fbb_GetSizePrefixedRoot = heap_root\<rparr>"

lemma heap_push_keeps:
  assumes "heap_push ob h = (x, h')"
  shows "fbb_keeps heap_lib heap_live h h'" "x \<in> heap_live h'" "heap_objects h' ! (x - 1) = ob"
  using assms by (auto simp: heap_push_def fbb_keeps_def heap_lib_def heap_live_def heap_pointer_def heap_string_def heap_vector_def nth_append fun_eq_iff)

lemma heap_keeps_same:
  "fbb_keeps heap_lib heap_live h (h\<lparr>heap_table := m\<rparr>)" "fbb_keeps heap_lib heap_live h (h\<lparr>heap_root := t\<rparr>)" "fbb_keeps heap_lib heap_live h h"
  by (simp_all add: fbb_keeps_def heap_lib_def heap_live_def heap_pointer_def heap_string_def heap_vector_def fun_eq_iff)

lemma sort_key_map: "sort_key f (map g xs) = map g (sort_key (f \<circ> g) xs)"
proof -
  have "insort_key f (g x) (map g ys) = map g (insort_key (f \<circ> g) x ys)" for x ys by (induction ys) auto
  then show ?thesis by (induction xs) simp_all
qed

lemma sort_key_same: "\<forall>x \<in> set xs. f x = g x \<Longrightarrow> sort_key f xs = sort_key g xs"
proof -
  have "insort_key f x ys = insort_key g x ys" if "\<forall>y \<in> set (x # ys). f y = g y" for x ys
    using that by (induction ys) auto
  then show "\<forall>x \<in> set xs. f x = g x \<Longrightarrow> sort_key f xs = sort_key g xs" by (induction xs) simp_all
qed

lemma heap_sorted_at:
  assumes "list_all2 (kv_at heap_lib heap_live h) ts kvs" "heap_push (VectorObject (sort_key (heap_key h) ts)) h = (x, h')"
  shows "list_all2 (kv_at heap_lib heap_live h') (heap_vector h' x) (reference_sort kvs)"
proof -
  have kv: "kv_at heap_lib heap_live h t kv \<Longrightarrow> kv = read_KeyVal heap_lib h t \<and> heap_key h t = kv_key kv" for t kv
    by (auto simp: kv_at_def string_at_def read_KeyVal_def KeyVal_key_def heap_key_def heap_lib_def split: option.splits)
  have eq: "kvs = map (read_KeyVal heap_lib h) ts" "\<forall>t \<in> set ts. heap_key h t = (kv_key \<circ> read_KeyVal heap_lib h) t \<and>
      kv_at heap_lib heap_live h t (read_KeyVal heap_lib h t)"
    using assms(1) by (induction rule: list_all2_induct) (use kv in fastforce)+
  have s: "sort_key (heap_key h) ts = sort_key (kv_key \<circ> read_KeyVal heap_lib h) ts" using eq(2) by (intro sort_key_same) auto
  have v: "heap_vector h' x = sort_key (kv_key \<circ> read_KeyVal heap_lib h) ts"
    using heap_push_keeps(3) [OF assms(2)] by (simp add: heap_vector_def s)
  have "kv_at heap_lib heap_live h' t kv" if "kv_at heap_lib heap_live h t kv" for t kv
    using that heap_push_keeps(1) [OF assms(2)]
    by (auto simp: kv_at_def string_at_def fbb_keeps_def KeyVal_key_def KeyVal_value_def split: option.splits)
  then have "\<forall>t \<in> set (heap_vector h' x). kv_at heap_lib heap_live h' t (read_KeyVal heap_lib h t)" using eq(2) by (simp add: v)
  then show ?thesis by (simp add: reference_sort_def eq(1) sort_key_map v [symmetric] list_all2_map2 list_all2_same)
qed

interpretation heap: flat_library heap_lib reference_sort heap_live "\<lambda>h. map_of (heap_table h)"
proof
  fix ts :: "nat list" and h h' :: flat_heap and x :: nat and kvs
  assume "fbb_CreateVectorOfSortedTables heap_lib ts h = (x, h')" "list_all2 (kv_at heap_lib heap_live h) ts kvs"
  with heap_sorted_at [of h ts kvs x h'] heap_push_keeps [of "VectorObject (sort_key (heap_key h) ts)" h x h']
  show "fbb_keeps heap_lib heap_live h h' \<and> x \<in> heap_live h' \<and>
      list_all2 (kv_at heap_lib heap_live h') (fbb_vector heap_lib h' x) (reference_sort kvs)"
    by (simp add: heap_lib_def)
next
  fix start t :: nat and h h' :: flat_heap
  assume "fbb_EndTable heap_lib start h = (t, h')"
  then have "heap_push (TableObject (heap_table h)) h = (t, h')" by (simp add: heap_lib_def)
  from heap_push_keeps [OF this]
  show "fbb_keeps heap_lib heap_live h h' \<and> t \<in> heap_live h' \<and> fbb_GetPointer heap_lib h' t = map_of (heap_table h)"
    by (simp add: fun_eq_iff) (simp add: heap_lib_def heap_pointer_def)
next
  fix s :: string and h h' :: flat_heap and x :: nat
  assume "fbb_CreateString heap_lib s h = (x, h')"
  then have "heap_push (StringObject s) h = (x, h')" by (simp add: heap_lib_def)
  from heap_push_keeps [OF this] show "fbb_keeps heap_lib heap_live h h' \<and> x \<in> heap_live h' \<and> fbb_string heap_lib h' x = s"
    by simp (simp add: heap_lib_def heap_string_def)
next
  fix xs :: "nat list" and h h' :: flat_heap and x :: nat
  assume "fbb_CreateVector heap_lib xs h = (x, h')"
  then have "heap_push (VectorObject xs) h = (x, h')" by (simp add: heap_lib_def)
  from heap_push_keeps [OF this] show "fbb_keeps heap_lib heap_live h h' \<and> x \<in> heap_live h' \<and> fbb_vector heap_lib h' x = xs"
    by simp (simp add: heap_lib_def heap_vector_def)
next
  fix start :: nat and h h' :: flat_heap
  assume "fbb_StartTable heap_lib h = (start, h')"
  then have "h' = h\<lparr>heap_table := []\<rparr>" by (simp add: heap_lib_def)
  then show "fbb_keeps heap_lib heap_live h h' \<and> map_of (heap_table h') = Map.empty" by (simp add: heap_keeps_same)
next
  fix h :: flat_heap and f off :: nat
  have "fbb_AddOffset heap_lib f off h = (if off = 0 then h else h\<lparr>heap_table := (f, off) # heap_table h\<rparr>)" by (simp add: heap_lib_def)
  then show "fbb_keeps heap_lib heap_live h (fbb_AddOffset heap_lib f off h) \<and>
      map_of (heap_table (fbb_AddOffset heap_lib f off h)) = (if off = 0 then map_of (heap_table h) else (map_of (heap_table h))(f \<mapsto> off))"
    by (simp add: heap_keeps_same)
next
  fix h :: flat_heap and t :: nat
  have "fbb_Finish heap_lib t h = h\<lparr>heap_root := t\<rparr>" by (simp add: heap_lib_def)
  then show "fbb_keeps heap_lib heap_live h (fbb_Finish heap_lib t h) \<and> fbb_GetRoot heap_lib (fbb_Finish heap_lib t h) = t"
    by (simp add: heap_keeps_same) (simp add: heap_lib_def)
qed (simp_all add: heap_live_def heap_lib_def)

section \<open>Properties\<close>

text \<open>
  C18: the node descriptions used throughout the development are what the code builds and reads: with
  a flatbuffers library that keeps its contract, the calls of \<open>extractLocalNodeFlatBuffer\<close>, of
  \<open>extractPeerMetadataFromUpstreamMetadata\<close> and of \<open>extractEmptyNodeFlatBuffer\<close> meet no failed
  assertion, in whichever order the arguments of a call are evaluated, and the generated accessors
  read back from the finished buffer exactly the node that the abstract extraction describes: every
  field under its own slot, missing properties as absent fields, labels as sorted pairs.
\<close>

theorem nodes_refine:
  assumes "flat_library L (CreateVectorOfSortedTables fb) live added"
  shows "(\<exists>b'. local_node_build L value_first props maps b = Inr b' \<and>
       read_FlatNode L b' (GetFlatNode L b') = extractLocalNodeFlatBuffer fb props maps) \<and>
     (\<exists>r. peer_node_build L value_first props ty b = Inr r \<and>
       map_option (\<lambda>b'. read_FlatNode L b' (GetFlatNode L b')) r = extractPeerMetadataFromUpstreamMetadata fb props ty) \<and>
     read_FlatNode L (empty_node_build L b) (GetFlatNode L (empty_node_build L b)) = extractEmptyNodeFlatBuffer"
  using flat_library.local_node_built [OF assms refl] flat_library.peer_node_built [OF assms refl] flat_library.empty_node_built [OF assms]
  by blast

theorem nodes_refine_witness:
  "\<exists>b'. local_node_build heap_lib True [[''node'', ''metadata'', ''NAME''] \<mapsto> ''pod''] Map.empty \<lparr>heap_objects = [], heap_table = [], heap_root = 0\<rparr> = Inr b' \<and>
     node_name (read_FlatNode heap_lib b' (GetFlatNode heap_lib b')) = Some ''pod''"
proof -
  have "flat_library heap_lib (CreateVectorOfSortedTables reference_lib) heap_live (\<lambda>h. map_of (heap_table h))"
    using heap.flat_library_axioms by (simp add: reference_lib_def)
  from nodes_refine [OF this, of True "[[''node'', ''metadata'', ''NAME''] \<mapsto> ''pod'']" Map.empty
      "\<lparr>heap_objects = [], heap_table = [], heap_root = 0\<rparr>" "''''"]
  show ?thesis by (auto simp: extractLocalNodeFlatBuffer_def string_offset_def getValue_def Let_def)
qed

end
