(* ===== verification/Request_Info.thy ===== *)
theory Request_Info
  imports Node_Info Response_Flags "HOL-Library.Monad_Syntax"
begin

text \<open>
  The request information of \<open>extensions/common/context.{h,cc}\<close>: what the extensions collect about a
  stream from the properties and headers of the host, for metrics and logs.

  Abseil's \<open>SimpleAtoi\<close> and flatbuffers' \<open>FromUTF8\<close> are outside the repository and are arguments:
  the former yields its verdict and what it stores, the latter the number of bytes it consumes, if
  the bytes up to the end of the buffer start with a valid sequence. The 64-bit signed integers are
  kept as words.
\<close>

section \<open>Data\<close>

datatype ServiceAuthenticationPolicy = Policy_Unspecified | Policy_None | Policy_MutualTLS

datatype TCPConnectionState = State_Unspecified | State_Open | State_Connected | State_Close

datatype Protocol = Protocol_Unspecified | Protocol_TCP | Protocol_HTTP | Protocol_GRPC

fun protocol_bits :: "Protocol \<Rightarrow> u32" where
  "protocol_bits Protocol_Unspecified = 0x0"
| "protocol_bits Protocol_TCP = 0x1"
| "protocol_bits Protocol_HTTP = 0x2"
| "protocol_bits Protocol_GRPC = 0x4"

definition AuthenticationPolicyString :: "ServiceAuthenticationPolicy \<Rightarrow> string" where
  "AuthenticationPolicyString policy =
     (case policy of Policy_None \<Rightarrow> ''NONE'' | Policy_MutualTLS \<Rightarrow> ''MUTUAL_TLS'' | _ \<Rightarrow> '''')"

definition TCPConnectionStateString :: "TCPConnectionState \<Rightarrow> string" where
  "TCPConnectionStateString state =
     (case state of State_Open \<Rightarrow> ''OPEN'' | State_Connected \<Rightarrow> ''CONNECTED'' | State_Close \<Rightarrow> ''CLOSE'' | _ \<Rightarrow> '''')"

definition ProtocolString :: "Protocol \<Rightarrow> string" where
  "ProtocolString protocol =
     (case protocol of Protocol_TCP \<Rightarrow> ''tcp'' | Protocol_HTTP \<Rightarrow> ''http'' | Protocol_GRPC \<Rightarrow> ''grpc'' | _ \<Rightarrow> '''')"

record RequestInfo =
  start_time :: u64
  duration :: u64
  request_size :: u64
  response_size :: u64
  destination_port :: u32
  source_port :: u64
  request_protocol :: Protocol
  response_code :: u32
  grpc_status :: u32
  response_flag :: string
  destination_service_host :: string
  destination_service_name :: string
  request_operation :: string
  upstream_transport_failure_reason :: string
  service_auth_policy :: ServiceAuthenticationPolicy
  source_principal :: string
  destination_principal :: string
  connection_id :: u64
  source_address :: string
  destination_address :: string
  response_details :: string
  route_name :: string
  upstream_host :: string
  upstream_cluster :: string
  requested_server_name :: string
  x_envoy_original_path :: string
  x_envoy_original_dst_host :: string
  referer :: string
  user_agent :: string
  request_id :: string
  b3_trace_id :: string
  b3_span_id :: string
  b3_trace_sampled :: bool
  path :: string
  url_path :: string
  url_host :: string
  url_scheme :: string
  tcp_connections_opened :: u8
  tcp_connections_closed :: u8
  tcp_sent_bytes :: u64
  tcp_received_bytes :: u64
  tcp_total_sent_bytes :: u64
  tcp_total_received_bytes :: u64
  tcp_connection_state :: TCPConnectionState
  is_populated :: bool
  log_sampled :: bool
  request_message_count :: u64
  response_message_count :: u64
  last_request_message_count :: u64
  last_response_message_count :: u64

text \<open>The members have initial values, but for three: \<open>garbage\<close> is what these hold.\<close>

definition initial_RequestInfo :: "u64 \<times> u64 \<times> u64 \<Rightarrow> RequestInfo" where
  "initial_RequestInfo garbage = (case garbage of (g_start, g_duration, g_connection) \<Rightarrow>
     \<lparr>start_time = g_start, duration = g_duration, request_size = 0, response_size = 0,
      destination_port = 0, source_port = 0, request_protocol = Protocol_Unspecified,
      response_code = 0, grpc_status = 2, response_flag = '''', destination_service_host = '''',
      destination_service_name = '''', request_operation = '''', upstream_transport_failure_reason = '''',
      service_auth_policy = Policy_Unspecified, source_principal = '''', destination_principal = '''',
      connection_id = g_connection, source_address = '''', destination_address = '''', response_details = '''',
      route_name = '''', upstream_host = '''', upstream_cluster = '''', requested_server_name = '''',
      x_envoy_original_path = '''', x_envoy_original_dst_host = '''', referer = '''', user_agent = '''',
      request_id = '''', b3_trace_id = '''', b3_span_id = '''', b3_trace_sampled = False, path = '''',
      url_path = '''', url_host = '''', url_scheme = '''', tcp_connections_opened = 0,
      tcp_connections_closed = 0, tcp_sent_bytes = 0, tcp_received_bytes = 0, tcp_total_sent_bytes = 0,
      tcp_total_received_bytes = 0, tcp_connection_state = State_Unspecified, is_populated = False,
      log_sampled = False, request_message_count = 0, response_message_count = 0,
      last_request_message_count = 0, last_response_message_count = 0\<rparr>)"

text \<open>What the host answers about a stream. A missing header is the empty string.\<close>

record stream_host =
  strings :: "string properties"
  integers :: "u64 properties"
  bools :: "bool properties"
  maps :: "(string \<times> string) list properties"
  request_header :: "string \<Rightarrow> string"

record string_lib =
  SimpleAtoi :: "string \<Rightarrow> bool \<times> u64"
  FromUTF8 :: "string \<Rightarrow> nat option"

section \<open>Destination service\<close>

definition kBlackHoleCluster :: string where "kBlackHoleCluster = ''BlackHoleCluster''"
definition kPassThroughCluster :: string where "kPassThroughCluster = ''PassthroughCluster''"
definition kBlackHoleRouteName :: string where "kBlackHoleRouteName = ''block_all''"
definition kPassThroughRouteName :: string where "kPassThroughRouteName = ''allow_any''"
definition kInboundPassthroughClusterIpv4 :: string where "kInboundPassthroughClusterIpv4 = ''InboundPassthroughClusterIpv4''"
definition kInboundPassthroughClusterIpv6 :: string where "kInboundPassthroughClusterIpv6 = ''InboundPassthroughClusterIpv6''"

definition populateDestinationService :: "stream_host \<Rightarrow> bool \<Rightarrow> bool \<Rightarrow> RequestInfo \<Rightarrow> RequestInfo" where
  "populateDestinationService H outbound use_host_header r =
     (let r = (if use_host_header then r\<lparr>destination_service_host := url_host r\<rparr>
               else r\<lparr>destination_service_host := if outbound then ''unknown'' else getServiceNameFallback (maps H)\<rparr>);
          cluster_name = upstream_cluster r
      in if route_name r = kBlackHoleRouteName then r\<lparr>destination_service_name := kBlackHoleCluster\<rparr>
         else if route_name r = kPassThroughRouteName then r\<lparr>destination_service_name := kPassThroughCluster\<rparr>
         else if cluster_name = kBlackHoleCluster \<or> cluster_name = kPassThroughCluster \<or>
                 cluster_name = kInboundPassthroughClusterIpv4 \<or> cluster_name = kInboundPassthroughClusterIpv6
              then r\<lparr>destination_service_name := cluster_name\<rparr>
         else case getValue (strings H) [''cluster_metadata'', ''filter_metadata'', ''istio'', ''services'', ''0'', ''name'']
                     (destination_service_name r) of (found, name) \<Rightarrow>
           let r = r\<lparr>destination_service_name := name\<rparr> in
           if found then
             r\<lparr>destination_service_host := snd (getValue (strings H)
                 [''cluster_metadata'', ''filter_metadata'', ''istio'', ''services'', ''0'', ''host''] (destination_service_host r))\<rparr>
           else r\<lparr>destination_service_name := destination_service_host r\<rparr>)"

definition populateRequestInfo :: "stream_host \<Rightarrow> bool \<Rightarrow> bool \<Rightarrow> RequestInfo \<Rightarrow> RequestInfo" where
  "populateRequestInfo H outbound use_host_header_fallback r =
     (if is_populated r then r
      else
        let r = r\<lparr>is_populated := True\<rparr>;
            r = r\<lparr>upstream_cluster := snd (getValue (strings H) [''cluster_name''] (upstream_cluster r))\<rparr>;
            r = r\<lparr>route_name := snd (getValue (strings H) [''route_name''] (route_name r))\<rparr>;
            r = populateDestinationService H outbound use_host_header_fallback r
        in if outbound then
             let port = snd (getValue (integers H) [''upstream'', ''port''] 0);
                 r = r\<lparr>destination_principal := snd (getValue (strings H) [''upstream'', ''uri_san_peer_certificate''] (destination_principal r))\<rparr>;
                 r = r\<lparr>source_principal := snd (getValue (strings H) [''upstream'', ''uri_san_local_certificate''] (source_principal r))\<rparr>
             in r\<lparr>destination_port := ucast port\<rparr>
           else
             let port = snd (getValue (integers H) [''destination'', ''port''] 0);
                 r = (case getValue (bools H) [''connection'', ''mtls''] False of (found, mtls) \<Rightarrow>
                        if found then r\<lparr>service_auth_policy := if mtls then Policy_MutualTLS else Policy_None\<rparr> else r);
                 r = r\<lparr>destination_principal := snd (getValue (strings H) [''connection'', ''uri_san_local_certificate''] (destination_principal r))\<rparr>;
                 r = r\<lparr>source_principal := snd (getValue (strings H) [''connection'', ''uri_san_peer_certificate''] (source_principal r))\<rparr>
             in r\<lparr>destination_port := ucast port\<rparr>)"

text \<open>The traffic direction: any 64-bit value the host has is taken as an enumerator.\<close>

definition TrafficDirection_Unspecified :: u64 where "TrafficDirection_Unspecified = 0"
definition TrafficDirection_Inbound :: u64 where "TrafficDirection_Inbound = 1"
definition TrafficDirection_Outbound :: u64 where "TrafficDirection_Outbound = 2"

definition getTrafficDirection :: "stream_host \<Rightarrow> u64" where
  "getTrafficDirection H =
     (case getValue (integers H) [''listener_direction''] 0 of (found, direction) \<Rightarrow>
        if found then direction else TrafficDirection_Unspecified)"

section \<open>Protocols\<close>

definition kGrpcContentTypes :: "string list" where
  "kGrpcContentTypes = [''application/grpc'', ''application/grpc+proto'', ''application/grpc+json'']"

definition populateRequestProtocol :: "stream_host \<Rightarrow> RequestInfo \<Rightarrow> RequestInfo" where
  "populateRequestProtocol H r =
     (if request_header H ''content-type'' \<in> set kGrpcContentTypes then r\<lparr>request_protocol := Protocol_GRPC\<rparr>
      else r\<lparr>request_protocol := Protocol_HTTP\<rparr>)"

definition populateGRPCInfo :: "string_lib \<Rightarrow> stream_host \<Rightarrow> RequestInfo \<Rightarrow> bool \<times> RequestInfo" where
  "populateGRPCInfo S H r =
     (case getValue (strings H) [''filter_state'', ''envoy.filters.http.grpc_stats''] '''' of (found, value) \<Rightarrow>
      if \<not> found then (False, r)
      else let parts = StrSplit value (CHR '','') in
        if length parts = 2 then
          case SimpleAtoi S (parts ! 0) of (ok, n) \<Rightarrow>
          let r = r\<lparr>request_message_count := n\<rparr> in
          if \<not> ok then (False, r)
          else case SimpleAtoi S (parts ! 1) of (ok, n) \<Rightarrow> (ok, r\<lparr>response_message_count := n\<rparr>)
        else (False, r))"

definition populateTCPRequestInfo :: "stream_host \<Rightarrow> bool \<Rightarrow> RequestInfo \<Rightarrow> RequestInfo" where
  "populateTCPRequestInfo H outbound r =
     (let r = populateRequestInfo H outbound False r;
          r = (case getValue (integers H) [''response'', ''flags''] 0 of (found, flags) \<Rightarrow>
                 if found then r\<lparr>response_flag := parseResponseFlag flags\<rparr> else r)
      in r\<lparr>request_protocol := Protocol_TCP\<rparr>)"

definition populateHTTPRequestInfo :: "string_lib \<Rightarrow> stream_host \<Rightarrow> bool \<Rightarrow> bool \<Rightarrow> RequestInfo \<Rightarrow> RequestInfo" where
  "populateHTTPRequestInfo S H outbound use_host_header_fallback r =
     (let r = populateRequestProtocol H r;
          r = r\<lparr>url_path := snd (getValue (strings H) [''request'', ''url_path''] (url_path r))\<rparr>;
          r = populateRequestInfo H outbound use_host_header_fallback r;
          r = (case getValue (integers H) [''response'', ''code''] 0 of (found, code) \<Rightarrow>
                 if found then r\<lparr>response_code := ucast code\<rparr> else r);
          r = (case getValue (integers H) [''response'', ''flags''] 0 of (found, flags) \<Rightarrow>
                 if found then r\<lparr>response_flag := parseResponseFlag flags\<rparr> else r);
          r = (if request_protocol r = Protocol_GRPC then
                 let grpc_status_code = snd (getValue (integers H) [''response'', ''grpc_status''] 2)
                 in snd (populateGRPCInfo S H (r\<lparr>grpc_status := ucast grpc_status_code\<rparr>))
               else r);
          r = (case getValue (strings H) [''istio_operationId''] '''' of (found, operation_id) \<Rightarrow>
                 r\<lparr>request_operation := if found then operation_id else request_header H '':method''\<rparr>);
          r = r\<lparr>start_time := snd (getValue (integers H) [''request'', ''time''] (start_time r))\<rparr>;
          r = r\<lparr>duration := snd (getValue (integers H) [''request'', ''duration''] (duration r))\<rparr>;
          r = r\<lparr>request_size := snd (getValue (integers H) [''request'', ''total_size''] (request_size r))\<rparr>
      in r\<lparr>response_size := snd (getValue (integers H) [''response'', ''total_size''] (response_size r))\<rparr>)"

definition getAuditPolicy :: "stream_host \<Rightarrow> bool" where
  "getAuditPolicy H =
     (case getValue (bools H) [''metadata'', ''filter_metadata'', ''envoy.common'', ''access_log_hint''] False of
        (found, shouldAudit) \<Rightarrow> if \<not> found then False else shouldAudit)"

section \<open>Sanitized strings\<close>

text \<open>
  The loop of \<open>sanitizeBytes\<close>: \<open>done\<close> are the bytes before \<open>start\<close>, \<open>rest\<close> those from \<open>start\<close> to
  \<open>end\<close>. A loop that never ends is \<open>None\<close>.
\<close>

partial_function (option) sanitize_loop :: "(string \<Rightarrow> nat option) \<Rightarrow> string \<Rightarrow> string \<Rightarrow> bool \<Rightarrow> (string \<times> bool) option" where
  "sanitize_loop from_utf8 before rest modified =
     (if rest = [] then Some (before, modified)
      else case from_utf8 rest of
          None \<Rightarrow> sanitize_loop from_utf8 (before @ '' '') (tl rest) True
        | Some n \<Rightarrow> sanitize_loop from_utf8 (before @ take n rest) (drop n rest) modified)"

definition sanitizeBytes :: "(string \<Rightarrow> nat option) \<Rightarrow> string \<Rightarrow> (string \<times> bool) option" where
  "sanitizeBytes from_utf8 buf = sanitize_loop from_utf8 [] buf False"

text \<open>The sanitized value of a field; and a property read into a field, sanitized if it is there.\<close>

definition sanitize_field :: "string_lib \<Rightarrow> (RequestInfo \<Rightarrow> string) \<Rightarrow>
    ((string \<Rightarrow> string) \<Rightarrow> RequestInfo \<Rightarrow> RequestInfo) \<Rightarrow> RequestInfo \<Rightarrow> RequestInfo option" where
  "sanitize_field S field field_update r =
     (case sanitizeBytes (FromUTF8 S) (field r) of
        None \<Rightarrow> None
      | Some (buf, modified) \<Rightarrow> Some (field_update (\<lambda>_. buf) r))"

definition read_sanitized :: "string_lib \<Rightarrow> stream_host \<Rightarrow> string list \<Rightarrow> (RequestInfo \<Rightarrow> string) \<Rightarrow>
    ((string \<Rightarrow> string) \<Rightarrow> RequestInfo \<Rightarrow> RequestInfo) \<Rightarrow> RequestInfo \<Rightarrow> RequestInfo option" where
  "read_sanitized S H pth field field_update r =
     (case getValue (strings H) pth (field r) of (found, value) \<Rightarrow>
        let r = field_update (\<lambda>_. value) r in
        if found then sanitize_field S field field_update r else Some r)"

definition populateExtendedRequestInfo :: "string_lib \<Rightarrow> stream_host \<Rightarrow> RequestInfo \<Rightarrow> RequestInfo option" where
  "populateExtendedRequestInfo S H r =
     (let r = r\<lparr>source_address := snd (getValue (strings H) [''source'', ''address''] (source_address r))\<rparr>;
          r = r\<lparr>destination_address := snd (getValue (strings H) [''destination'', ''address''] (destination_address r))\<rparr>;
          r = r\<lparr>source_port := snd (getValue (integers H) [''source'', ''port''] (source_port r))\<rparr>;
          r = r\<lparr>connection_id := snd (getValue (integers H) [''connection_id''] (connection_id r))\<rparr>;
          r = r\<lparr>upstream_host := snd (getValue (strings H) [''upstream'', ''address''] (upstream_host r))\<rparr>;
          r = r\<lparr>requested_server_name := snd (getValue (strings H) [''connection'', ''requested_server_name''] (requested_server_name r))\<rparr>;
          r = r\<lparr>x_envoy_original_path := request_header H ''x-envoy-original-path''\<rparr>
      in do {
        r \<leftarrow> sanitize_field S x_envoy_original_path x_envoy_original_path_update r;
        r \<leftarrow> sanitize_field S x_envoy_original_dst_host x_envoy_original_dst_host_update
               (r\<lparr>x_envoy_original_dst_host := request_header H ''x-envoy-original-dst-host''\<rparr>);
        let r = r\<lparr>upstream_transport_failure_reason := snd (getValue (strings H) [''upstream'', ''transport_failure_reason'']
                    (upstream_transport_failure_reason r))\<rparr>;
        let details = snd (getValue (strings H) [''connection'', ''termination_details''] '''');
        Some (if details \<noteq> '''' then r\<lparr>response_details := details\<rparr> else r)
      })"

definition populateExtendedHTTPRequestInfo :: "string_lib \<Rightarrow> stream_host \<Rightarrow> RequestInfo \<Rightarrow> RequestInfo option" where
  "populateExtendedHTTPRequestInfo S H r = do {
     r \<leftarrow> populateExtendedRequestInfo S H r;
     r \<leftarrow> read_sanitized S H [''request'', ''referer''] referer referer_update r;
     r \<leftarrow> read_sanitized S H [''request'', ''useragent''] user_agent user_agent_update r;
     r \<leftarrow> read_sanitized S H [''request'', ''id''] request_id request_id_update r;
     r \<leftarrow> (case getValue (strings H) [''request'', ''headers'', ''x-b3-sampled''] '''' of (found, trace_sampled) \<Rightarrow>
            if found \<and> trace_sampled = ''1'' then do {
              r \<leftarrow> read_sanitized S H [''request'', ''headers'', ''x-b3-traceid''] b3_trace_id b3_trace_id_update r;
              r \<leftarrow> read_sanitized S H [''request'', ''headers'', ''x-b3-spanid''] b3_span_id b3_span_id_update r;
              Some (r\<lparr>b3_trace_sampled := True\<rparr>)
            } else Some r);
     let r = r\<lparr>path := snd (getValue (strings H) [''request'', ''path''] (path r))\<rparr>;
     let r = r\<lparr>url_host := snd (getValue (strings H) [''request'', ''host''] (url_host r))\<rparr>;
     let r = r\<lparr>url_scheme := snd (getValue (strings H) [''request'', ''scheme''] (url_scheme r))\<rparr>;
     let details = snd (getValue (strings H) [''response'', ''code_details''] '''');
     Some (if details \<noteq> '''' then r\<lparr>response_details := details\<rparr> else r)
   }"

section \<open>Sanitizing terminates and cleans\<close>

text \<open>
  A decoder of UTF-8 as documented: a sequence has at least one byte and lies within the buffer,
  its decoding does not depend on what follows it, and a space is a sequence of its own.
\<close>

definition utf8_decoder :: "(string \<Rightarrow> nat option) \<Rightarrow> bool" where
  "utf8_decoder f \<longleftrightarrow>
     (\<forall>buf n. f buf = Some n \<longrightarrow> 0 < n \<and> n \<le> length buf \<and> (\<forall>t. f (take n buf @ t) = Some n)) \<and>
     (\<forall>t. f (CHR '' '' # t) = Some 1)"

text \<open>The strings a decoder accepts as a whole.\<close>

inductive utf8_valid :: "(string \<Rightarrow> nat option) \<Rightarrow> string \<Rightarrow> bool" for f where
  empty: "utf8_valid f []"
| sequence: "f (s @ t) = Some (length s) \<Longrightarrow> s \<noteq> [] \<Longrightarrow> utf8_valid f t \<Longrightarrow> utf8_valid f (s @ t)"

text \<open>What is left of a buffer: its bytes, some replaced by spaces.\<close>

definition spaced :: "string \<Rightarrow> string \<Rightarrow> bool" where
  "spaced buf out \<longleftrightarrow> list_all2 (\<lambda>b c. c = b \<or> c = CHR '' '') buf out"

lemma sanitize_loop_total:
  assumes "utf8_decoder f"
  shows "\<exists>out m. sanitize_loop f before rest modified = Some (before @ out, m) \<and> utf8_valid f out \<and>
    spaced rest out \<and> (m \<longleftrightarrow> modified \<or> out \<noteq> rest)"
proof (induction "length rest" arbitrary: before rest modified rule: less_induct)
  case less
  show ?case
  proof (cases "f rest")
    case None
    show ?thesis
    proof (cases rest)
      case Nil
      then show ?thesis by (subst sanitize_loop.simps) (auto simp: spaced_def intro: utf8_valid.empty)
    next
      case (Cons c cs)
      obtain out m where out: "sanitize_loop f (before @ '' '') cs True = Some ((before @ '' '') @ out, m)"
        "utf8_valid f out" "spaced cs out" "m"
        using less [of cs "before @ '' ''" True] Cons by auto
      have "c \<noteq> CHR '' ''" using None Cons assms by (auto simp: utf8_decoder_def)
      moreover have "utf8_valid f ('' '' @ out)"
        using assms out(2) by (intro utf8_valid.sequence) (auto simp: utf8_decoder_def)
      ultimately show ?thesis
        using None Cons out by (subst sanitize_loop.simps) (auto simp: spaced_def intro!: exI [of _ "'' '' @ out"])
    qed
  next
    case (Some n)
    with assms have n: "0 < n" "n \<le> length rest" "\<And>t. f (take n rest @ t) = Some n" by (auto simp: utf8_decoder_def)
    then have "length (drop n rest) < length rest" "rest \<noteq> []" by auto
    with less [of "drop n rest" "before @ take n rest" modified]
    obtain out m where out: "sanitize_loop f (before @ take n rest) (drop n rest) modified = Some ((before @ take n rest) @ out, m)"
        "utf8_valid f out" "spaced (drop n rest) out" "m \<longleftrightarrow> modified \<or> out \<noteq> drop n rest" by blast
    have "utf8_valid f (take n rest @ out)"
      using n out(2) by (intro utf8_valid.sequence) auto
    moreover have "spaced rest (take n rest @ out)"
      using list_all2_appendI [OF _ out(3) [unfolded spaced_def], of "take n rest" "take n rest"]
      by (simp add: spaced_def list_all2_refl)
    moreover have "out \<noteq> drop n rest \<longleftrightarrow> take n rest @ out \<noteq> rest"
      by (metis append_take_drop_id same_append_eq)
    ultimately show ?thesis
      using Some out \<open>rest \<noteq> []\<close> by (subst sanitize_loop.simps) auto
  qed
qed

lemma sanitize_loop_valid:
  "utf8_valid f rest \<Longrightarrow> sanitize_loop f before rest modified = Some (before @ rest, modified)"
proof (induction rest arbitrary: before rule: utf8_valid.induct)
  case empty
  show ?case by (subst sanitize_loop.simps) simp
next
  case (sequence s t)
  then show ?case by (subst sanitize_loop.simps) simp
qed

lemma sanitizeBytes_total: "utf8_decoder f \<Longrightarrow> \<exists>out m. sanitizeBytes f buf = Some (out, m)"
  using sanitize_loop_total [of f "[]" buf False] by (auto simp: sanitizeBytes_def)

text \<open>
  C25: \<open>sanitizeBytes\<close> terminates on every buffer, for a decoder as documented. Afterwards the buffer
  is valid UTF-8 of the same length in which some bytes were replaced by spaces; the result says
  whether any was; and a second call changes nothing.
\<close>

theorem sanitizeBytes_cleans:
  assumes "utf8_decoder f"
  shows "\<exists>out modified. sanitizeBytes f buf = Some (out, modified) \<and> utf8_valid f out \<and>
    list_all2 (\<lambda>b c. c = b \<or> c = CHR '' '') buf out \<and> (modified \<longleftrightarrow> out \<noteq> buf) \<and>
    sanitizeBytes f out = Some (out, False)"
  using sanitize_loop_total [OF assms, of "[]" buf False] sanitize_loop_valid [of f _ "[]" False]
  by (auto simp: sanitizeBytes_def spaced_def)

text \<open>A decoder: one-byte sequences, and two-byte sequences as UTF-8 has them.\<close>

definition two_byte_decoder :: "string \<Rightarrow> nat option" where
  "two_byte_decoder buf = (case buf of
      [] \<Rightarrow> None
    | c # cs \<Rightarrow> if (of_char c :: nat) < 128 then Some 1
        else if 194 \<le> (of_char c :: nat) \<and> (of_char c :: nat) < 224 then
          (case cs of d # _ \<Rightarrow> if 128 \<le> (of_char d :: nat) \<and> (of_char d :: nat) < 192 then Some 2 else None | [] \<Rightarrow> None)
        else None)"

lemma two_byte_decoder: "utf8_decoder two_byte_decoder"
  by (auto simp: utf8_decoder_def two_byte_decoder_def split: list.splits if_splits)

theorem sanitizeBytes_cleans_witness:
  "\<exists>out modified. sanitizeBytes two_byte_decoder [CHR ''a'', CHR 0xFF, CHR 0xC3, CHR 0xA9] = Some (out, modified) \<and>
     utf8_valid two_byte_decoder out \<and> length out = 4"
  using sanitizeBytes_cleans [OF two_byte_decoder, of "[CHR ''a'', CHR 0xFF, CHR 0xC3, CHR 0xA9]"]
  by (fastforce dest: list_all2_lengthD)

section \<open>The extended information\<close>

text \<open>The fields that are sanitized hold valid strings.\<close>

definition sanitized_fields :: "(string \<Rightarrow> nat option) \<Rightarrow> RequestInfo \<Rightarrow> bool" where
  "sanitized_fields f r \<longleftrightarrow> (\<forall>s \<in> {x_envoy_original_path r, x_envoy_original_dst_host r, referer r, user_agent r,
      request_id r, b3_trace_id r, b3_span_id r}. utf8_valid f s)"

lemma sanitize_field_some:
  assumes "utf8_decoder (FromUTF8 S)"
  obtains buf where "sanitize_field S field upd r = Some (upd (\<lambda>_. buf) r)" "utf8_valid (FromUTF8 S) buf"
  using sanitize_loop_total [OF assms, of "[]" "field r" False]
  by (auto simp: sanitize_field_def sanitizeBytes_def)

lemma read_sanitized_some:
  assumes "utf8_decoder (FromUTF8 S)" "\<And>x y. upd (\<lambda>_. x) (upd (\<lambda>_. y) r) = upd (\<lambda>_. x) r" "upd (\<lambda>_. field r) r = r"
    and "utf8_valid (FromUTF8 S) (field r)"
  obtains buf where "read_sanitized S H pth field upd r = Some (upd (\<lambda>_. buf) r)" "utf8_valid (FromUTF8 S) buf"
proof (cases "strings H pth")
  case None
  with that [of "field r"] assms(3,4) show ?thesis by (simp add: read_sanitized_def getValue_def)
next
  case (Some v)
  obtain buf where "sanitize_field S field upd (upd (\<lambda>_. v) r) = Some (upd (\<lambda>_. buf) (upd (\<lambda>_. v) r))" "utf8_valid (FromUTF8 S) buf"
    using sanitize_field_some [OF assms(1)] .
  with that [of buf] Some assms(2) show ?thesis by (simp add: read_sanitized_def getValue_def)
qed

lemma populateExtendedRequestInfo_some:
  assumes "utf8_decoder (FromUTF8 S)" "sanitized_fields (FromUTF8 S) r"
  obtains r' where "populateExtendedRequestInfo S H r = Some r'" "sanitized_fields (FromUTF8 S) r'"
proof -
  obtain b1 b2 where b: "sanitizeBytes (FromUTF8 S) (request_header H ''x-envoy-original-path'') = Some b1"
      "sanitizeBytes (FromUTF8 S) (request_header H ''x-envoy-original-dst-host'') = Some b2"
      "utf8_valid (FromUTF8 S) (fst b1)" "utf8_valid (FromUTF8 S) (fst b2)"
    using sanitize_loop_total [OF assms(1), of "[]" _ False] unfolding sanitizeBytes_def by (metis append_Nil fst_conv)
  show ?thesis
  proof (cases "populateExtendedRequestInfo S H r")
    case None
    with b show ?thesis
      by (simp add: populateExtendedRequestInfo_def sanitize_field_def Let_def split: prod.splits)
  next
    case (Some r')
    then have "sanitized_fields (FromUTF8 S) r'"
      using b assms(2) by (auto simp: populateExtendedRequestInfo_def sanitize_field_def Let_def sanitized_fields_def split: prod.splits)
    with that Some show ?thesis by blast
  qed
qed

lemma trace_fields_some:
  assumes "utf8_decoder (FromUTF8 S)" "sanitized_fields (FromUTF8 S) r"
  obtains r' where "do {
              r \<leftarrow> read_sanitized S H [''request'', ''headers'', ''x-b3-traceid''] b3_trace_id b3_trace_id_update r;
              r \<leftarrow> read_sanitized S H [''request'', ''headers'', ''x-b3-spanid''] b3_span_id b3_span_id_update r;
              Some (r\<lparr>b3_trace_sampled := True\<rparr>)
            } = Some r'" "sanitized_fields (FromUTF8 S) r'"
proof -
  obtain b1 where 1: "read_sanitized S H [''request'', ''headers'', ''x-b3-traceid''] b3_trace_id b3_trace_id_update r =
      Some (r\<lparr>b3_trace_id := b1\<rparr>)" "utf8_valid (FromUTF8 S) b1"
    using read_sanitized_some [OF assms(1), of b3_trace_id_update r b3_trace_id] assms(2) by (auto simp: sanitized_fields_def)
  obtain b2 where 2: "read_sanitized S H [''request'', ''headers'', ''x-b3-spanid''] b3_span_id b3_span_id_update (r\<lparr>b3_trace_id := b1\<rparr>) =
      Some (r\<lparr>b3_trace_id := b1, b3_span_id := b2\<rparr>)" "utf8_valid (FromUTF8 S) b2"
    using read_sanitized_some [OF assms(1), of b3_span_id_update "r\<lparr>b3_trace_id := b1\<rparr>" b3_span_id] assms(2)
    by (auto simp: sanitized_fields_def)
  show ?thesis
    by (rule that [of "r\<lparr>b3_trace_id := b1, b3_span_id := b2, b3_trace_sampled := True\<rparr>"])
      (use 1 2 assms(2) in \<open>simp_all add: sanitized_fields_def\<close>)
qed

text \<open>
  Collecting the extended information of an HTTP stream always returns, and the strings it takes
  from request headers (original path and destination, referer, user agent, request id, trace and
  span id) are valid UTF-8 whatever the client sent.
\<close>

lemma populateExtendedHTTPRequestInfo_valid:
  assumes "utf8_decoder (FromUTF8 S)"
  shows "\<exists>r. populateExtendedHTTPRequestInfo S H (initial_RequestInfo garbage) = Some r \<and>
    (\<forall>s \<in> {x_envoy_original_path r, x_envoy_original_dst_host r, referer r, user_agent r,
       request_id r, b3_trace_id r, b3_span_id r}. utf8_valid (FromUTF8 S) s)"
proof -
  have "sanitized_fields (FromUTF8 S) (initial_RequestInfo garbage)"
    by (simp add: sanitized_fields_def initial_RequestInfo_def utf8_valid.empty split: prod.split)
  from populateExtendedRequestInfo_some [OF assms this, of H]
  obtain r0 where 0: "populateExtendedRequestInfo S H (initial_RequestInfo garbage) = Some r0" "sanitized_fields (FromUTF8 S) r0" .
  obtain b1 where 1: "read_sanitized S H [''request'', ''referer''] referer referer_update r0 = Some (r0\<lparr>referer := b1\<rparr>)"
      "utf8_valid (FromUTF8 S) b1"
    using read_sanitized_some [OF assms, of referer_update r0 referer] 0(2) by (auto simp: sanitized_fields_def)
  define r1 where "r1 = r0\<lparr>referer := b1\<rparr>"
  have s1: "sanitized_fields (FromUTF8 S) r1" using 0(2) 1(2) by (simp add: r1_def sanitized_fields_def)
  obtain b2 where 2: "read_sanitized S H [''request'', ''useragent''] user_agent user_agent_update r1 = Some (r1\<lparr>user_agent := b2\<rparr>)"
      "utf8_valid (FromUTF8 S) b2"
    using read_sanitized_some [OF assms, of user_agent_update r1 user_agent] s1 by (auto simp: sanitized_fields_def)
  define r2 where "r2 = r1\<lparr>user_agent := b2\<rparr>"
  have s2: "sanitized_fields (FromUTF8 S) r2" using s1 2(2) by (simp add: r2_def sanitized_fields_def)
  obtain b3 where 3: "read_sanitized S H [''request'', ''id''] request_id request_id_update r2 = Some (r2\<lparr>request_id := b3\<rparr>)"
      "utf8_valid (FromUTF8 S) b3"
    using read_sanitized_some [OF assms, of request_id_update r2 request_id] s2 by (auto simp: sanitized_fields_def)
  define r3 where "r3 = r2\<lparr>request_id := b3\<rparr>"
  have s3: "sanitized_fields (FromUTF8 S) r3" using s2 3(2) by (simp add: r3_def sanitized_fields_def)
  obtain r4 where 4: "do {
              r \<leftarrow> read_sanitized S H [''request'', ''headers'', ''x-b3-traceid''] b3_trace_id b3_trace_id_update r3;
              r \<leftarrow> read_sanitized S H [''request'', ''headers'', ''x-b3-spanid''] b3_span_id b3_span_id_update r;
              Some (r\<lparr>b3_trace_sampled := True\<rparr>)
            } = Some r4" and s4: "sanitized_fields (FromUTF8 S) r4" using trace_fields_some [OF assms s3] .
  show ?thesis
    unfolding populateExtendedHTTPRequestInfo_def 0(1) bind.bind_lunit 1(1) r1_def [symmetric] 2(1) r2_def [symmetric] 3(1)
      r3_def [symmetric] 4 Let_def
    using s3 s4 by (simp add: sanitized_fields_def split: prod.split)
qed

lemma populateExtendedHTTPRequestInfo_valid_example:
  "\<exists>r. populateExtendedHTTPRequestInfo \<lparr>SimpleAtoi = (\<lambda>_. (False, 0)), FromUTF8 = two_byte_decoder\<rparr>
     \<lparr>strings = [[''request'', ''referer''] \<mapsto> [CHR 0xFF]], integers = (\<lambda>_. None), bools = (\<lambda>_. None),
      maps = (\<lambda>_. None), request_header = (\<lambda>_. '''')\<rparr> (initial_RequestInfo (0, 0, 0)) = Some r \<and>
     utf8_valid two_byte_decoder (referer r)"
  using populateExtendedHTTPRequestInfo_valid [of "\<lparr>SimpleAtoi = (\<lambda>_. (False, 0)), FromUTF8 = two_byte_decoder\<rparr>"
      "\<lparr>strings = [[''request'', ''referer''] \<mapsto> [CHR 0xFF]], integers = (\<lambda>_. None), bools = (\<lambda>_. None),
      maps = (\<lambda>_. None), request_header = (\<lambda>_. '''')\<rparr>" "(0, 0, 0)"] two_byte_decoder
  by auto

section \<open>The destination service\<close>

definition special_clusters :: "string set" where
  "special_clusters = {kBlackHoleCluster, kPassThroughCluster, kInboundPassthroughClusterIpv4, kInboundPassthroughClusterIpv6}"

lemma populated_id: "is_populated r \<Longrightarrow> populateRequestInfo H outbound hh r = r"
  by (simp add: populateRequestInfo_def)

lemma special_cluster_iff:
  "(c = kBlackHoleCluster \<or> c = kPassThroughCluster \<or> c = kInboundPassthroughClusterIpv4 \<or> c = kInboundPassthroughClusterIpv6)
     \<longleftrightarrow> c \<in> special_clusters"
  by (simp add: special_clusters_def)

lemma populateDestinationService_eq:
  "populateDestinationService H outbound hh r =
     (let fallback = if hh then url_host r else if outbound then ''unknown'' else getServiceNameFallback (maps H);
          service = \<lambda>field. strings H [''cluster_metadata'', ''filter_metadata'', ''istio'', ''services'', ''0'', field];
          pair = (if route_name r = kBlackHoleRouteName then (kBlackHoleCluster, fallback)
      else if route_name r = kPassThroughRouteName then (kPassThroughCluster, fallback)
      else if upstream_cluster r \<in> special_clusters then (upstream_cluster r, fallback)
      else case service ''name'' of
          Some name \<Rightarrow> (name, case_option fallback id (service ''host''))
        | None \<Rightarrow> (fallback, fallback))
      in r\<lparr>destination_service_name := fst pair, destination_service_host := snd pair\<rparr>)"
  by (cases "route_name r = kBlackHoleRouteName"; cases "route_name r = kPassThroughRouteName"; cases "upstream_cluster r \<in> special_clusters"; cases hh)
    (simp_all add: populateDestinationService_def Let_def getValue_def special_cluster_iff split: option.split)

lemma is_populated_destination [simp]: "is_populated (populateDestinationService H outbound hh r) = is_populated r"
  by (simp add: populateDestinationService_eq Let_def)

lemma populateRequestInfo_populated: "is_populated (populateRequestInfo H outbound hh r)"
  by (simp add: populateRequestInfo_def Let_def split: prod.split)


lemma populateRequestInfo_destination:
  fixes H :: stream_host and outbound hh :: bool
  assumes "\<not> is_populated r"
  defines "route \<equiv> case_option (route_name r) id (strings H [''route_name''])"
    and "cluster \<equiv> case_option (upstream_cluster r) id (strings H [''cluster_name''])"
    and "fallback \<equiv> if hh then url_host r else if outbound then ''unknown'' else getServiceNameFallback (maps H)"
    and "service \<equiv> \<lambda>field. strings H [''cluster_metadata'', ''filter_metadata'', ''istio'', ''services'', ''0'', field]"
  shows "(destination_service_name (populateRequestInfo H outbound hh r), destination_service_host (populateRequestInfo H outbound hh r)) =
     (if route = kBlackHoleRouteName then (kBlackHoleCluster, fallback)
      else if route = kPassThroughRouteName then (kPassThroughCluster, fallback)
      else if cluster \<in> special_clusters then (cluster, fallback)
      else case service ''name'' of
          Some name \<Rightarrow> (name, case_option fallback id (service ''host''))
        | None \<Rightarrow> (fallback, fallback))"
proof -
  let ?r = "r\<lparr>is_populated := True, upstream_cluster := cluster, route_name := route\<rparr>"
  have f: "getValue (strings H) [''cluster_name''] x = (strings H [''cluster_name''] \<noteq> None, case_option x id (strings H [''cluster_name'']))"
    "getValue (strings H) [''route_name''] x = (strings H [''route_name''] \<noteq> None, case_option x id (strings H [''route_name'']))" for x
    by (simp_all add: getValue_def split: option.split)
  have "destination_service_name (populateRequestInfo H outbound hh r) = destination_service_name (populateDestinationService H outbound hh ?r)"
    "destination_service_host (populateRequestInfo H outbound hh r) = destination_service_host (populateDestinationService H outbound hh ?r)"
    using assms(1) by (simp_all add: populateRequestInfo_def Let_def f route_def cluster_def cong: option.case_cong split: prod.split)
  then show ?thesis
    by (simp add: populateDestinationService_eq Let_def fallback_def service_def cong: if_cong option.case_cong)
qed

lemma populateTCP_identity:
  assumes "is_populated r"
  shows "destination_service_name (populateTCPRequestInfo H outbound r) = destination_service_name r"
    "destination_service_host (populateTCPRequestInfo H outbound r) = destination_service_host r"
    "source_principal (populateTCPRequestInfo H outbound r) = source_principal r"
    "destination_principal (populateTCPRequestInfo H outbound r) = destination_principal r"
  using assms by (simp_all add: populateTCPRequestInfo_def populated_id Let_def split: prod.split)

lemma populateGRPC_identity:
  "destination_service_name (snd (populateGRPCInfo S H r)) = destination_service_name r"
  "destination_service_host (snd (populateGRPCInfo S H r)) = destination_service_host r"
  "source_principal (snd (populateGRPCInfo S H r)) = source_principal r"
  "destination_principal (snd (populateGRPCInfo S H r)) = destination_principal r"
  by (simp_all add: populateGRPCInfo_def Let_def split: prod.split)

lemma populateHTTP_identity:
  assumes "is_populated r"
  shows "destination_service_name (populateHTTPRequestInfo S H outbound hh r) = destination_service_name r"
    "destination_service_host (populateHTTPRequestInfo S H outbound hh r) = destination_service_host r"
    "source_principal (populateHTTPRequestInfo S H outbound hh r) = source_principal r"
    "destination_principal (populateHTTPRequestInfo S H outbound hh r) = destination_principal r"
  using assms
  by (simp_all add: populateHTTPRequestInfo_def populateRequestProtocol_def populated_id Let_def populateGRPC_identity
      split: prod.split)

text \<open>
  C40: the destination service of a stream. Its host is the host header or, when that is not to be
  used, \<open>unknown\<close> at the client and the canonical name label at the server. Its name is, in order of
  preference: the black hole or the pass-through cluster if the route says so; the cluster if it is
  one of the four special ones; the name of the first service of the cluster, whose host is then
  taken as well; and the host itself. It is computed once: populating again, for any protocol and
  whatever the host says by then, changes neither name, host nor principals.
\<close>

theorem destination_service_once:
  fixes H :: stream_host and outbound hh :: bool
  assumes "\<not> is_populated r"
  defines "r' \<equiv> populateRequestInfo H outbound hh r"
    and "route \<equiv> case_option (route_name r) id (strings H [''route_name''])"
    and "cluster \<equiv> case_option (upstream_cluster r) id (strings H [''cluster_name''])"
    and "fallback \<equiv> if hh then url_host r else if outbound then ''unknown'' else getServiceNameFallback (maps H)"
    and "service \<equiv> \<lambda>field. strings H [''cluster_metadata'', ''filter_metadata'', ''istio'', ''services'', ''0'', field]"
  shows "(destination_service_name r', destination_service_host r') =
     (if route = ''block_all'' then (''BlackHoleCluster'', fallback)
      else if route = ''allow_any'' then (''PassthroughCluster'', fallback)
      else if cluster \<in> special_clusters then (cluster, fallback)
      else case service ''name'' of
          Some name \<Rightarrow> (name, case_option fallback id (service ''host''))
        | None \<Rightarrow> (fallback, fallback)) \<and>
     (\<forall>H2 o2 hh2 r2. r2 \<in> {populateRequestInfo H2 o2 hh2 r', populateTCPRequestInfo H2 o2 r', populateHTTPRequestInfo S H2 o2 hh2 r'} \<longrightarrow>
        destination_service_name r2 = destination_service_name r' \<and> destination_service_host r2 = destination_service_host r' \<and>
        source_principal r2 = source_principal r' \<and> destination_principal r2 = destination_principal r')"
proof
  show "(destination_service_name r', destination_service_host r') =
     (if route = ''block_all'' then (''BlackHoleCluster'', fallback)
      else if route = ''allow_any'' then (''PassthroughCluster'', fallback)
      else if cluster \<in> special_clusters then (cluster, fallback)
      else case service ''name'' of
          Some name \<Rightarrow> (name, case_option fallback id (service ''host''))
        | None \<Rightarrow> (fallback, fallback))"
    using populateRequestInfo_destination [OF assms(1), of H outbound hh]
    unfolding r'_def route_def cluster_def fallback_def service_def
      kBlackHoleRouteName_def kPassThroughRouteName_def kBlackHoleCluster_def kPassThroughCluster_def .
  have p: "is_populated r'" unfolding r'_def by (rule populateRequestInfo_populated)
  have q: "is_populated (r'\<lparr>request_protocol := p, url_path := u\<rparr>)" for p u using p by simp
  show "\<forall>H2 o2 hh2 r2. r2 \<in> {populateRequestInfo H2 o2 hh2 r', populateTCPRequestInfo H2 o2 r', populateHTTPRequestInfo S H2 o2 hh2 r'} \<longrightarrow>
        destination_service_name r2 = destination_service_name r' \<and> destination_service_host r2 = destination_service_host r' \<and>
        source_principal r2 = source_principal r' \<and> destination_principal r2 = destination_principal r'"
    using p populateTCP_identity [OF p] populateHTTP_identity [OF p] by (auto simp: populated_id)
qed

theorem destination_service_once_witness:
  "destination_service_host (populateRequestInfo \<lparr>strings = Map.empty, integers = Map.empty, bools = Map.empty, maps = Map.empty,
      request_header = (\<lambda>_. '''')\<rparr> True True ((initial_RequestInfo (0, 0, 0))\<lparr>url_host := ''reviews''\<rparr>)) = ''reviews''"
  using destination_service_once [of "(initial_RequestInfo (0, 0, 0))\<lparr>url_host := ''reviews''\<rparr>"
     "\<lparr>strings = Map.empty, integers = Map.empty, bools = Map.empty, maps = Map.empty, request_header = (\<lambda>_. '''')\<rparr>" True True]
  by (auto simp: initial_RequestInfo_def special_clusters_def kBlackHoleCluster_def kPassThroughCluster_def
      kInboundPassthroughClusterIpv4_def kInboundPassthroughClusterIpv6_def)

end
