(* ===== verification/Stats_Dimensions.thy ===== *)
theory Stats_Dimensions
  imports Request_Info
begin

text \<open>
  The dimensions of the statistics extension (\<open>extensions/stats/plugin.{h,cc}\<close>): a vector of strings,
  the standard labels first, and how the node of the proxy, the node of the peer and the request
  fill it. The vector is indexed without a check, so an index out of range is undefined behaviour.
\<close>

section \<open>Labels\<close>

text \<open>\<open>STD_ISTIO_DIMENSIONS\<close>, as the enumeration and as the names, in its order.\<close>

datatype StandardLabels =
    Reporter
  | Source_workload | Source_workload_namespace | Source_principal | Source_app | Source_version
  | Source_canonical_service | Source_canonical_revision | Source_cluster
  | Destination_workload | Destination_workload_namespace | Destination_principal | Destination_app
  | Destination_version | Destination_service | Destination_service_name | Destination_service_namespace
  | Destination_canonical_service | Destination_canonical_revision | Destination_cluster
  | Request_protocol | Response_flags_label | Connection_security_policy | Response_code
  | Grpc_response_status

definition STD_ISTIO_DIMENSIONS :: "(StandardLabels \<times> string) list" where
  "STD_ISTIO_DIMENSIONS =
    [(Reporter, ''reporter''),
     (Source_workload, ''source_workload''),
     (Source_workload_namespace, ''source_workload_namespace''),
     (Source_principal, ''source_principal''),
     (Source_app, ''source_app''),
     (Source_version, ''source_version''),
     (Source_canonical_service, ''source_canonical_service''),
     (Source_canonical_revision, ''source_canonical_revision''),
     (Source_cluster, ''source_cluster''),
     (Destination_workload, ''destination_workload''),
     (Destination_workload_namespace, ''destination_workload_namespace''),
     (Destination_principal, ''destination_principal''),
     (Destination_app, ''destination_app''),
     (Destination_version, ''destination_version''),
     (Destination_service, ''destination_service''),
     (Destination_service_name, ''destination_service_name''),
     (Destination_service_namespace, ''destination_service_namespace''),
     (Destination_canonical_service, ''destination_canonical_service''),
     (Destination_canonical_revision, ''destination_canonical_revision''),
     (Destination_cluster, ''destination_cluster''),
     (Request_protocol, ''request_protocol''),
     (Response_flags_label, ''response_flags''),
     (Connection_security_policy, ''connection_security_policy''),
     (Response_code, ''response_code''),
     (Grpc_response_status, ''grpc_response_status'')]"

text \<open>The value of an enumerator.\<close>

fun label_index :: "StandardLabels \<Rightarrow> nat" where
  "label_index Reporter = 0"
| "label_index Source_workload = 1"
| "label_index Source_workload_namespace = 2"
| "label_index Source_principal = 3"
| "label_index Source_app = 4"
| "label_index Source_version = 5"
| "label_index Source_canonical_service = 6"
| "label_index Source_canonical_revision = 7"
| "label_index Source_cluster = 8"
| "label_index Destination_workload = 9"
| "label_index Destination_workload_namespace = 10"
| "label_index Destination_principal = 11"
| "label_index Destination_app = 12"
| "label_index Destination_version = 13"
| "label_index Destination_service = 14"
| "label_index Destination_service_name = 15"
| "label_index Destination_service_namespace = 16"
| "label_index Destination_canonical_service = 17"
| "label_index Destination_canonical_revision = 18"
| "label_index Destination_cluster = 19"
| "label_index Request_protocol = 20"
| "label_index Response_flags_label = 21"
| "label_index Connection_security_policy = 22"
| "label_index Response_code = 23"
| "label_index Grpc_response_status = 24"

definition count_standard_labels :: nat where "count_standard_labels = 25"
definition count_peer_labels :: nat where "count_peer_labels = label_index Destination_cluster + 1"
definition count_tcp_labels :: nat where "count_tcp_labels = label_index Connection_security_policy + 1"

lemma label_index_order: "map (label_index \<circ> fst) STD_ISTIO_DIMENSIONS = [0..<count_standard_labels]"
  by (simp add: STD_ISTIO_DIMENSIONS_def count_standard_labels_def upt_rec)

lemma label_index_less [simp]: "label_index l < 25"
  by (cases l) simp_all

lemma label_index_inject [simp]: "label_index k = label_index l \<longleftrightarrow> k = l"
  by (cases k; cases l) simp_all

lemma label_index_neq [simp]: "25 \<le> i \<Longrightarrow> label_index l \<noteq> i" "25 \<le> i \<Longrightarrow> i \<noteq> label_index l"
  using label_index_less [of l] by linarith+

section \<open>Filling the dimensions\<close>

type_synonym IstioDimensions = "string list"

text \<open>A sequence of assignments \<open>instance[label] = value\<close>.\<close>

fun assign_all :: "(StandardLabels \<times> string) list \<Rightarrow> IstioDimensions \<Rightarrow> ub + IstioDimensions" where
  "assign_all [] d = Inr d"
| "assign_all ((label, value) # as) d =
     (if label_index label < length d then assign_all as (d[label_index label := value]) else Inl OutOfBounds)"

definition label_value :: "flatbuffers_lib \<Rightarrow> KeyVal list \<Rightarrow> string \<Rightarrow> string" where
  "label_value fb labels key =
     GetFromFbStringView (case LookupByKey fb labels key of Some kv \<Rightarrow> kv_value kv | None \<Rightarrow> None)"

definition label_value_or :: "flatbuffers_lib \<Rightarrow> KeyVal list \<Rightarrow> string \<Rightarrow> string \<Rightarrow> string" where
  "label_value_or fb labels key fallback =
     (case LookupByKey fb labels key of Some kv \<Rightarrow> GetFromFbStringView (kv_value kv) | None \<Rightarrow> fallback)"

definition kLatest :: string where "kLatest = ''latest''"

definition map_node_writes :: "flatbuffers_lib \<Rightarrow> bool \<Rightarrow> FlatNode \<Rightarrow> (StandardLabels \<times> string) list" where
  "map_node_writes fb is_source node =
     (if is_source then
        [(Source_workload, GetFromFbStringView (node_workload_name node)),
         (Source_workload_namespace, GetFromFbStringView (node_namespace node)),
         (Source_cluster, GetFromFbStringView (node_cluster_id node))] @
        (case node_labels node of
           Some labels \<Rightarrow>
             [(Source_app, label_value fb labels ''app''),
              (Source_version, label_value fb labels ''version''),
              (Source_canonical_service, label_value_or fb labels kCanonicalServiceLabelName
                 (GetFromFbStringView (node_workload_name node))),
              (Source_canonical_revision, label_value_or fb labels kCanonicalServiceRevisionLabelName kLatest)]
         | None \<Rightarrow>
             [(Source_app, ''''), (Source_version, ''''), (Source_canonical_service, ''''),
              (Source_canonical_revision, kLatest)])
      else
        [(Destination_workload, GetFromFbStringView (node_workload_name node)),
         (Destination_workload_namespace, GetFromFbStringView (node_namespace node)),
         (Destination_cluster, GetFromFbStringView (node_cluster_id node))] @
        (case node_labels node of
           Some labels \<Rightarrow>
             [(Destination_app, label_value fb labels ''app''),
              (Destination_version, label_value fb labels ''version''),
              (Destination_canonical_service, label_value_or fb labels kCanonicalServiceLabelName
                 (GetFromFbStringView (node_workload_name node))),
              (Destination_canonical_revision, label_value_or fb labels kCanonicalServiceRevisionLabelName kLatest)]
         | None \<Rightarrow>
             [(Destination_app, ''''), (Destination_version, ''''), (Destination_canonical_service, ''''),
              (Destination_canonical_revision, kLatest)]) @
        [(Destination_service_namespace, GetFromFbStringView (node_namespace node))])"

definition map_node :: "flatbuffers_lib \<Rightarrow> bool \<Rightarrow> FlatNode \<Rightarrow> IstioDimensions \<Rightarrow> ub + IstioDimensions" where
  "map_node fb is_source node d = assign_all (map_node_writes fb is_source node) d"

definition map_peer :: "flatbuffers_lib \<Rightarrow> bool \<Rightarrow> FlatNode \<Rightarrow> IstioDimensions \<Rightarrow> ub + IstioDimensions" where
  "map_peer fb outbound peer d = map_node fb (\<not> outbound) peer d"

text \<open>\<open>SET_IF_EMPTY\<close> for each label.\<close>

fun set_if_empty :: "StandardLabels list \<Rightarrow> IstioDimensions \<Rightarrow> ub + IstioDimensions" where
  "set_if_empty [] d = Inr d"
| "set_if_empty (label # ls) d =
     (if label_index label < length d then
        set_if_empty ls (if d ! label_index label = '''' then d[label_index label := ''unknown''] else d)
      else Inl OutOfBounds)"

definition map_unknown_if_empty :: "IstioDimensions \<Rightarrow> ub + IstioDimensions" where
  "map_unknown_if_empty d = set_if_empty (map fst STD_ISTIO_DIMENSIONS) d"

text \<open>\<open>absl::AsciiStrToLower\<close>.\<close>

definition AsciiStrToLower :: "string \<Rightarrow> string" where
  "AsciiStrToLower s = map (\<lambda>c. if 65 \<le> (of_char c :: nat) \<and> (of_char c :: nat) \<le> 90
      then char_of (of_char c + 32 :: nat) else c) s"

definition map_request_writes :: "RequestInfo \<Rightarrow> (StandardLabels \<times> string) list" where
  "map_request_writes request =
     [(Source_principal, source_principal request),
      (Destination_principal, destination_principal request),
      (Destination_service, destination_service_host request),
      (Destination_service_name, destination_service_name request),
      (Request_protocol, ProtocolString (request_protocol request)),
      (Response_code, to_string (unat (response_code request))),
      (Response_flags_label, response_flag request),
      (Connection_security_policy, AsciiStrToLower (AuthenticationPolicyString (service_auth_policy request)))]"

definition map_request :: "RequestInfo \<Rightarrow> IstioDimensions \<Rightarrow> ub + IstioDimensions" where
  "map_request request d = assign_all (map_request_writes request) d"

definition map_dimensions :: "flatbuffers_lib \<Rightarrow> bool \<Rightarrow> FlatNode \<Rightarrow> RequestInfo \<Rightarrow> IstioDimensions \<Rightarrow> ub + IstioDimensions" where
  "map_dimensions fb outbound peer request d =
     and_then (map_peer fb outbound peer d) (\<lambda>d.
     and_then (map_request request d) (\<lambda>d.
     and_then (map_unknown_if_empty d) (\<lambda>d.
       assign_all [(Grpc_response_status,
         if request_protocol request = Protocol_GRPC then to_string (unat (grpc_status request)) else '''')] d)))"

section \<open>What the dimensions hold\<close>

definition dim :: "IstioDimensions \<Rightarrow> StandardLabels \<Rightarrow> string" where
  "dim d l = d ! label_index l"

lemma assign_all_dims:
  assumes "25 \<le> length d"
  shows "\<exists>d'. assign_all as d = Inr d' \<and> length d' = length d \<and> (\<forall>i \<ge> 25. d' ! i = d ! i) \<and>
     (\<forall>l. dim d' l = (case map_of (rev as) l of Some v \<Rightarrow> v | None \<Rightarrow> dim d l))"
  using assms
proof (induction as arbitrary: d)
  case (Cons a as)
  obtain k v where a: "a = (k, v)" by (cases a)
  have k: "label_index k < length d" "label_index k < 25" using label_index_less [of k] Cons.prems by linarith+
  with Cons.IH [of "d[label_index k := v]"] Cons.prems obtain d' where d':
    "assign_all as (d[label_index k := v]) = Inr d'" "length d' = length d"
    "\<forall>i \<ge> 25. d' ! i = d[label_index k := v] ! i"
    "\<forall>l. dim d' l = (case map_of (rev as) l of Some v \<Rightarrow> v | None \<Rightarrow> dim (d[label_index k := v]) l)" by auto
  have "dim (d[label_index k := v]) l = (if l = k then v else dim d l)" for l
    using k by (auto simp: dim_def nth_list_update)
  with d' k show ?case by (auto simp: a map_add_def split: option.split)
qed simp

lemma set_if_empty_dims:
  assumes "25 \<le> length d"
  shows "\<exists>d'. set_if_empty ls d = Inr d' \<and> length d' = length d \<and> (\<forall>i \<ge> 25. d' ! i = d ! i) \<and>
     (\<forall>l. dim d' l = (if l \<in> set ls \<and> dim d l = '''' then ''unknown'' else dim d l))"
  using assms
proof (induction ls arbitrary: d)
  case (Cons k ls)
  define e where "e = (if d ! label_index k = '''' then d[label_index k := ''unknown''] else d)"
  have k: "label_index k < length d" "label_index k < 25" using label_index_less [of k] Cons.prems by linarith+
  have e: "length e = length d" "\<forall>i \<ge> 25. e ! i = d ! i"
    using k by (auto simp: e_def)
  with Cons.IH [of e] Cons.prems obtain d' where d':
    "set_if_empty ls e = Inr d'" "length d' = length d" "\<forall>i \<ge> 25. d' ! i = d ! i"
    "\<forall>l. dim d' l = (if l \<in> set ls \<and> dim e l = '''' then ''unknown'' else dim e l)" by auto
  have "dim e l = (if l = k \<and> dim d k = '''' then ''unknown'' else dim d l)" for l
    using k by (auto simp: e_def dim_def nth_list_update)
  with d' k show ?case by (auto simp: e_def [symmetric])
qed simp

lemma all_labels: "l \<in> set (map fst STD_ISTIO_DIMENSIONS)"
  by (cases l) (simp_all add: STD_ISTIO_DIMENSIONS_def)

definition or_unknown :: "string \<Rightarrow> string" where
  "or_unknown s = (if s = '''' then ''unknown'' else s)"

lemma or_unknown_nonempty [simp]: "or_unknown s \<noteq> ''''"
  by (simp add: or_unknown_def)

text \<open>The value of a label before empty ones are filled.\<close>

definition raw_dim :: "flatbuffers_lib \<Rightarrow> bool \<Rightarrow> FlatNode \<Rightarrow> RequestInfo \<Rightarrow> IstioDimensions \<Rightarrow> StandardLabels \<Rightarrow> string" where
  "raw_dim fb outbound peer request d l =
     (case map_of (rev (map_request_writes request)) l of Some v \<Rightarrow> v
      | None \<Rightarrow> (case map_of (rev (map_node_writes fb (\<not> outbound) peer)) l of Some v \<Rightarrow> v | None \<Rightarrow> dim d l))"

lemma map_dimensions_dims:
  assumes "25 \<le> length d"
  shows "\<exists>d'. map_dimensions fb outbound peer request d = Inr d' \<and> length d' = length d \<and> (\<forall>i \<ge> 25. d' ! i = d ! i) \<and>
     (\<forall>l. dim d' l = (if l = Grpc_response_status
        then if request_protocol request = Protocol_GRPC then to_string (unat (grpc_status request)) else ''''
        else or_unknown (raw_dim fb outbound peer request d l)))"
proof -
  obtain d1 where 1: "map_peer fb outbound peer d = Inr d1" "length d1 = length d" "\<forall>i \<ge> 25. d1 ! i = d ! i"
    "\<forall>l. dim d1 l = (case map_of (rev (map_node_writes fb (\<not> outbound) peer)) l of Some v \<Rightarrow> v | None \<Rightarrow> dim d l)"
    using assign_all_dims [OF assms] unfolding map_peer_def map_node_def by blast
  obtain d2 where 2: "map_request request d1 = Inr d2" "length d2 = length d" "\<forall>i \<ge> 25. d2 ! i = d ! i"
    "\<forall>l. dim d2 l = (case map_of (rev (map_request_writes request)) l of Some v \<Rightarrow> v | None \<Rightarrow> dim d1 l)"
    using assign_all_dims [of d1 "map_request_writes request"] 1 assms unfolding map_request_def by auto
  obtain d3 where 3: "map_unknown_if_empty d2 = Inr d3" "length d3 = length d" "\<forall>i \<ge> 25. d3 ! i = d ! i"
    "\<forall>l. dim d3 l = or_unknown (dim d2 l)"
    using set_if_empty_dims [of d2 "map fst STD_ISTIO_DIMENSIONS"] 2 assms all_labels
    unfolding map_unknown_if_empty_def or_unknown_def by auto
  obtain d4 where 4: "assign_all [(Grpc_response_status,
         if request_protocol request = Protocol_GRPC then to_string (unat (grpc_status request)) else '''')] d3 = Inr d4"
    "length d4 = length d" "\<forall>i \<ge> 25. d4 ! i = d ! i"
    "\<forall>l. dim d4 l = (case map_of (rev [(Grpc_response_status,
         if request_protocol request = Protocol_GRPC then to_string (unat (grpc_status request)) else '''')]) l of Some v \<Rightarrow> v | None \<Rightarrow> dim d3 l)"
    using assign_all_dims [of d3] 3 assms by metis
  have "dim d4 l = (if l = Grpc_response_status
        then if request_protocol request = Protocol_GRPC then to_string (unat (grpc_status request)) else ''''
        else or_unknown (raw_dim fb outbound peer request d l))" for l
    using 1(4) 2(4) 3(4) 4(4) by (simp add: raw_dim_def split: option.split)
  then show ?thesis
    using 1(1) 2(1) 3(1) 4(1-3) by (simp add: map_dimensions_def)
qed

section \<open>Properties\<close>

text \<open>The labels of the proxy itself, which are filled when the configuration is loaded.\<close>

definition local_labels :: "bool \<Rightarrow> StandardLabels list" where
  "local_labels outbound = Reporter #
     (if outbound then [Source_workload, Source_workload_namespace, Source_app, Source_version,
        Source_canonical_service, Source_canonical_revision, Source_cluster]
      else [Destination_workload, Destination_workload_namespace, Destination_app, Destination_version,
        Destination_canonical_service, Destination_canonical_revision, Destination_cluster, Destination_service_namespace])"

lemma raw_dim_local: "l \<in> set (local_labels outbound) \<Longrightarrow> raw_dim fb outbound peer request d l = dim d l"
  by (auto simp: local_labels_def raw_dim_def map_request_writes_def map_node_writes_def split: if_splits option.split)

lemma raw_dim_request:
  "raw_dim fb outbound peer request d Source_principal = source_principal request"
  "raw_dim fb outbound peer request d Destination_principal = destination_principal request"
  "raw_dim fb outbound peer request d Destination_service = destination_service_host request"
  "raw_dim fb outbound peer request d Request_protocol = ProtocolString (request_protocol request)"
  "raw_dim fb outbound peer request d Response_code = to_string (unat (response_code request))"
  by (simp_all add: raw_dim_def map_request_writes_def)

lemma raw_dim_peer:
  "raw_dim fb outbound peer request d (if outbound then Destination_workload else Source_workload) =
     GetFromFbStringView (node_workload_name peer)"
  "raw_dim fb outbound peer request d (if outbound then Destination_canonical_service else Source_canonical_service) =
     (case node_labels peer of None \<Rightarrow> ''''
      | Some labels \<Rightarrow> label_value_or fb labels kCanonicalServiceLabelName (GetFromFbStringView (node_workload_name peer)))"
  by (simp_all add: raw_dim_def map_request_writes_def map_node_writes_def split: option.split)

lemma or_unknown_to_string: "or_unknown (to_string n) = to_string n"
  by (simp add: or_unknown_def)

text \<open>
  C28: a report never indexes the dimensions out of range, once the vector has room for the standard
  labels. It fills every standard label but the gRPC status, with \<open>unknown\<close> where nothing is known;
  the gRPC status is set for gRPC alone. The labels of the proxy itself and the custom dimensions
  keep their values; the workload and the canonical service of the other side are those of the peer,
  and the principals, the service and the response code are those of the request.
\<close>

theorem map_dimensions_complete:
  assumes "25 \<le> length d"
  shows "\<exists>d'. map_dimensions fb outbound peer request d = Inr d' \<and> length d' = length d \<and>
     (\<forall>l. l \<noteq> Grpc_response_status \<longrightarrow> dim d' l \<noteq> '''') \<and>
     dim d' Grpc_response_status =
       (if request_protocol request = Protocol_GRPC then to_string (unat (grpc_status request)) else '''') \<and>
     (\<forall>i \<ge> 25. d' ! i = d ! i) \<and>
     (\<forall>l \<in> set (local_labels outbound). dim d l \<noteq> '''' \<longrightarrow> dim d' l = dim d l) \<and>
     dim d' (if outbound then Destination_workload else Source_workload) = or_unknown (GetFromFbStringView (node_workload_name peer)) \<and>
     dim d' (if outbound then Destination_canonical_service else Source_canonical_service) =
       or_unknown (case node_labels peer of None \<Rightarrow> ''''
         | Some labels \<Rightarrow> label_value_or fb labels kCanonicalServiceLabelName (GetFromFbStringView (node_workload_name peer))) \<and>
     dim d' Source_principal = or_unknown (source_principal request) \<and>
     dim d' Destination_principal = or_unknown (destination_principal request) \<and>
     dim d' Destination_service = or_unknown (destination_service_host request) \<and>
     dim d' Response_code = to_string (unat (response_code request))"
proof -
  obtain d' where d': "map_dimensions fb outbound peer request d = Inr d'" "length d' = length d" "\<forall>i \<ge> 25. d' ! i = d ! i"
    and dims: "\<And>l. dim d' l = (if l = Grpc_response_status
        then if request_protocol request = Protocol_GRPC then to_string (unat (grpc_status request)) else ''''
        else or_unknown (raw_dim fb outbound peer request d l))"
    using map_dimensions_dims [OF assms] by blast
  have side: "(if outbound then Destination_workload else Source_workload) \<noteq> Grpc_response_status"
    "(if outbound then Destination_canonical_service else Source_canonical_service) \<noteq> Grpc_response_status" by simp_all
  have "dim d' l = dim d l" if "l \<in> set (local_labels outbound)" "dim d l \<noteq> ''''" for l
  proof -
    have "l \<noteq> Grpc_response_status" using that(1) by (auto simp: local_labels_def split: if_splits)
    with that show ?thesis by (simp add: dims raw_dim_local or_unknown_def)
  qed
  moreover have "dim d' (if outbound then Destination_workload else Source_workload) = or_unknown (GetFromFbStringView (node_workload_name peer))"
    by (simp only: dims side if_False raw_dim_peer)
  moreover have "dim d' (if outbound then Destination_canonical_service else Source_canonical_service) =
       or_unknown (case node_labels peer of None \<Rightarrow> ''''
         | Some labels \<Rightarrow> label_value_or fb labels kCanonicalServiceLabelName (GetFromFbStringView (node_workload_name peer)))"
    by (simp only: dims side if_False raw_dim_peer)
  ultimately show ?thesis
    by (intro exI [of _ d'] conjI) (use d' in \<open>simp_all add: dims raw_dim_request or_unknown_to_string\<close>)
qed

theorem map_dimensions_complete_witness:
  "\<exists>d'. map_dimensions reference_lib True extractEmptyNodeFlatBuffer ((initial_RequestInfo (0, 0, 0))\<lparr>response_code := 200\<rparr>)
      (replicate 25 '''') = Inr d' \<and> dim d' Response_code = ''200'' \<and> dim d' Destination_workload = ''unknown''"
proof -
  have s: "to_string 200 = ''200''" by (simp add: to_string.simps char_of_eq_iff take_bit_eq_mod)
  show ?thesis
    using map_dimensions_complete [of "replicate 25 ''''" reference_lib True extractEmptyNodeFlatBuffer
        "(initial_RequestInfo (0, 0, 0))\<lparr>response_code := 200\<rparr>"]
    by (auto simp: s or_unknown_def GetFromFbStringView_def extractEmptyNodeFlatBuffer_def)
qed

lemma lookup_local_labels:
  assumes "flatbuffers (CreateVectorOfSortedTables fb) (LookupByKey fb)"
    and "mps [''node'', ''metadata'', ''LABELS''] = Some pairs" "distinct (map fst pairs)"
    and "\<forall>p \<in> set pairs. CHR 0x00 \<notin> set (fst p)" "CHR 0x00 \<notin> set key"
  shows "\<exists>labels. node_labels (extractLocalNodeFlatBuffer fb props mps) = Some labels \<and>
    label_value fb labels key = case_option '''' id (map_of pairs key) \<and>
    label_value_or fb labels key fallback = case_option fallback id (map_of pairs key)"
proof -
  let ?labels = "CreateVectorOfSortedTables fb (map (\<lambda>(key, val). \<lparr>kv_key = key, kv_value = Some val\<rparr>) pairs)"
  have "node_labels (extractLocalNodeFlatBuffer fb props mps) = Some ?labels"
    by (simp add: extractLocalNodeFlatBuffer_def Let_def pairs_vector_def assms(2))
  moreover have "LookupByKey fb ?labels key = map_option (\<lambda>val. \<lparr>kv_key = key, kv_value = Some val\<rparr>) (map_of pairs key)"
    by (rule flatbuffers.lookup_pairs [OF assms(1,3,4,5)])
  ultimately show ?thesis
    by (auto simp: label_value_def label_value_or_def GetFromFbStringView_def split: option.split)
qed

text \<open>
  The metadata of the proxy reaches its dimensions: after the local node has been read from the
  host and mapped, the app and the version are those of the labels, the canonical service is the
  label's or else the workload, the revision is the label's or else \<open>latest\<close>; the workload, namespace
  and cluster are those of the metadata; and no label of the other side is touched.
\<close>

lemma local_dimensions_from_metadata:
  assumes "flatbuffers (CreateVectorOfSortedTables fb) (LookupByKey fb)"
    and "mps [''node'', ''metadata'', ''LABELS''] = Some pairs" "distinct (map fst pairs)"
    and "\<forall>p \<in> set pairs. CHR 0x00 \<notin> set (fst p)" "25 \<le> length d"
  shows "\<exists>d'. map_node fb True (extractLocalNodeFlatBuffer fb props mps) d = Inr d' \<and> length d' = length d \<and>
    dim d' Source_app = case_option '''' id (map_of pairs ''app'') \<and>
    dim d' Source_version = case_option '''' id (map_of pairs ''version'') \<and>
    dim d' Source_canonical_service = (case map_of pairs ''service.istio.io/canonical-name'' of Some v \<Rightarrow> v
       | None \<Rightarrow> case_option '''' id (props [''node'', ''metadata'', ''WORKLOAD_NAME''])) \<and>
    dim d' Source_canonical_revision = case_option ''latest'' id (map_of pairs ''service.istio.io/canonical-revision'') \<and>
    dim d' Source_workload = case_option '''' id (props [''node'', ''metadata'', ''WORKLOAD_NAME'']) \<and>
    dim d' Source_workload_namespace = case_option '''' id (props [''node'', ''metadata'', ''NAMESPACE'']) \<and>
    dim d' Source_cluster = case_option '''' id (props [''node'', ''metadata'', ''CLUSTER_ID'']) \<and>
    (\<forall>l. l \<notin> {Source_workload, Source_workload_namespace, Source_cluster, Source_app, Source_version,
        Source_canonical_service, Source_canonical_revision} \<longrightarrow> dim d' l = dim d l)"
proof -
  let ?node = "extractLocalNodeFlatBuffer fb props mps"
  obtain labels where labels: "node_labels ?node = Some labels"
    using lookup_local_labels [of fb mps pairs "[]", OF assms(1-4)] by auto
  have lookup: "label_value fb labels key = case_option '''' id (map_of pairs key)"
    "label_value_or fb labels key fallback = case_option fallback id (map_of pairs key)"
    if "CHR 0x00 \<notin> set key" for key fallback
    using lookup_local_labels [of fb mps pairs key props fallback, OF assms(1-4) that] labels by auto
  have w: "GetFromFbStringView (node_workload_name ?node) = case_option '''' id (props [''node'', ''metadata'', ''WORKLOAD_NAME''])"
    "GetFromFbStringView (node_namespace ?node) = case_option '''' id (props [''node'', ''metadata'', ''NAMESPACE''])"
    "GetFromFbStringView (node_cluster_id ?node) = case_option '''' id (props [''node'', ''metadata'', ''CLUSTER_ID''])"
    by (simp_all add: extractLocalNodeFlatBuffer_def Let_def string_offset_def getValue_def GetFromFbStringView_def split: option.split)
  have writes: "map_node_writes fb True ?node =
      [(Source_workload, case_option '''' id (props [''node'', ''metadata'', ''WORKLOAD_NAME''])),
       (Source_workload_namespace, case_option '''' id (props [''node'', ''metadata'', ''NAMESPACE''])),
       (Source_cluster, case_option '''' id (props [''node'', ''metadata'', ''CLUSTER_ID''])),
       (Source_app, case_option '''' id (map_of pairs ''app'')),
       (Source_version, case_option '''' id (map_of pairs ''version'')),
       (Source_canonical_service, case_option (case_option '''' id (props [''node'', ''metadata'', ''WORKLOAD_NAME''])) id
          (map_of pairs kCanonicalServiceLabelName)),
       (Source_canonical_revision, case_option kLatest id (map_of pairs kCanonicalServiceRevisionLabelName))]"
    unfolding map_node_writes_def w labels
    by (simp add: lookup label_names)
  from assign_all_dims [OF assms(5), of "map_node_writes fb True ?node"] obtain d' where
    d': "map_node fb True ?node d = Inr d'" "length d' = length d"
    and dims: "\<And>l. dim d' l = (case map_of (rev (map_node_writes fb True ?node)) l of Some v \<Rightarrow> v | None \<Rightarrow> dim d l)"
    unfolding map_node_def by blast
  show ?thesis
    by (intro exI [of _ d'] conjI)
      (use d' in \<open>simp_all add: dims writes kLatest_def kCanonicalServiceLabelName_def kCanonicalServiceRevisionLabelName_def split: option.split\<close>)
qed

lemma local_dimensions_from_metadata_example:
  "\<exists>d'. map_node reference_lib True (extractLocalNodeFlatBuffer reference_lib [[''node'', ''metadata'', ''WORKLOAD_NAME''] \<mapsto> ''reviews-v1'']
      [[''node'', ''metadata'', ''LABELS''] \<mapsto> [(''app'', ''reviews'')]]) (replicate 25 '''') = Inr d' \<and>
     dim d' Source_app = ''reviews'' \<and> dim d' Source_canonical_service = ''reviews-v1''"
proof -
  have "flatbuffers (CreateVectorOfSortedTables reference_lib) (LookupByKey reference_lib)"
    using reference.flatbuffers_axioms by (simp add: reference_lib_def)
  from local_dimensions_from_metadata [OF this, of "[[''node'', ''metadata'', ''LABELS''] \<mapsto> [(''app'', ''reviews'')]]" "[(''app'', ''reviews'')]"
      "replicate 25 ''''" "[[''node'', ''metadata'', ''WORKLOAD_NAME''] \<mapsto> ''reviews-v1'']"]
  show ?thesis by auto
qed

end
