(* ===== verification/Stats_Config.thy ===== *)
theory Stats_Config
  imports Stats_Dimensions Json_Util Expr_Service "HOL-Library.AList" "HOL-Library.Signed_Division"
begin

text \<open>
  The configuration of the statistics extension (\<open>extensions/stats/plugin.{h,cc}\<close>): the metrics it
  knows, the definitions and overrides of the configuration, the expressions compiled on the host,
  and the generators that result, each with its tags and the positions of their values in the
  dimensions.

  The order in which an \<open>unordered_map\<close> is traversed is not specified. The map of the factories is
  filled first and then only loses entries, which keeps the order of the others, so one argument,
  \<open>traversal\<close>, gives the order of its entries. Maps that are only looked up are functions.
\<close>

section \<open>Metrics\<close>

datatype MetricType = Counter | Gauge | Histogram

text \<open>The value extractors, one for each function of the code.\<close>

datatype ValueExtractor =
    One | DurationMilliseconds | RequestSize | ResponseSize | RequestMessages | ResponseMessages
  | SentBytes | ReceivedBytes | ConnectionsOpened | ConnectionsClosed
  | ExpressionValue u32 \<comment> \<open>a metric of the configuration, by its token\<close>

text \<open>
  An extractor yields a value and may update the request. \<open>evaluate\<close> is the host's evaluation of an
  expression for the stream in context. A value that is not in 64 bits wraps.
\<close>

fun extract_value :: "(u32 \<Rightarrow> u64 option) \<Rightarrow> ValueExtractor \<Rightarrow> RequestInfo \<Rightarrow> u64 \<times> RequestInfo" where
  "extract_value evaluate One r = (1, r)"
| "extract_value evaluate DurationMilliseconds r = (of_int (sint (duration r) sdiv 1000000), r)"
| "extract_value evaluate RequestSize r = (request_size r, r)"
| "extract_value evaluate ResponseSize r = (response_size r, r)"
| "extract_value evaluate RequestMessages r =
     (request_message_count r - last_request_message_count r,
      r\<lparr>last_request_message_count := request_message_count r\<rparr>)"
| "extract_value evaluate ResponseMessages r =
     (response_message_count r - last_response_message_count r,
      r\<lparr>last_response_message_count := response_message_count r\<rparr>)"
| "extract_value evaluate SentBytes r = (tcp_sent_bytes r, r\<lparr>tcp_sent_bytes := 0\<rparr>)"
| "extract_value evaluate ReceivedBytes r = (tcp_received_bytes r, r\<lparr>tcp_received_bytes := 0\<rparr>)"
| "extract_value evaluate ConnectionsOpened r = (ucast (tcp_connections_opened r), r\<lparr>tcp_connections_opened := 0\<rparr>)"
| "extract_value evaluate ConnectionsClosed r = (ucast (tcp_connections_closed r), r)"
| "extract_value evaluate (ExpressionValue token) r = (case evaluate token of Some result \<Rightarrow> result | None \<Rightarrow> 0, r)"

record MetricFactory =
  factory_name :: string
  factory_type :: MetricType
  extractor :: ValueExtractor
  protocols :: u32
  count_labels :: nat
  recurrent :: bool

definition defaultTags :: "string list" where
  "defaultTags = map snd STD_ISTIO_DIMENSIONS"

definition http_grpc :: u32 where
  "http_grpc = protocol_bits Protocol_HTTP OR protocol_bits Protocol_GRPC"

definition metric_factory :: "string \<Rightarrow> MetricType \<Rightarrow> ValueExtractor \<Rightarrow> u32 \<Rightarrow> nat \<Rightarrow> bool \<Rightarrow> MetricFactory" where
  "metric_factory name ty ex prots labels rec =
     \<lparr>factory_name = name, factory_type = ty, extractor = ex, protocols = prots, count_labels = labels, recurrent = rec\<rparr>"

definition defaultMetrics :: "MetricFactory list" where
  "defaultMetrics =
    [metric_factory ''requests_total'' Counter One http_grpc count_standard_labels False,
     metric_factory ''request_duration_milliseconds'' Histogram DurationMilliseconds http_grpc count_standard_labels False,
     metric_factory ''request_bytes'' Histogram RequestSize http_grpc count_standard_labels False,
     metric_factory ''response_bytes'' Histogram ResponseSize http_grpc count_standard_labels False,
     metric_factory ''request_messages_total'' Counter RequestMessages (protocol_bits Protocol_GRPC) count_peer_labels True,
     metric_factory ''response_messages_total'' Counter ResponseMessages (protocol_bits Protocol_GRPC) count_peer_labels True,
     metric_factory ''tcp_sent_bytes_total'' Counter SentBytes (protocol_bits Protocol_TCP) count_tcp_labels True,
     metric_factory ''tcp_received_bytes_total'' Counter ReceivedBytes (protocol_bits Protocol_TCP) count_tcp_labels True,
     metric_factory ''tcp_connections_opened_total'' Counter ConnectionsOpened (protocol_bits Protocol_TCP) count_tcp_labels True,
     metric_factory ''tcp_connections_closed_total'' Counter ConnectionsClosed (protocol_bits Protocol_TCP) count_tcp_labels False]"

text \<open>
  A metric of the host's interface, as far as the code uses it: the constructor leaves the prefix
  empty.
\<close>

record StatGen =
  stat_recurrent :: bool
  stat_protocols :: u32
  stat_indexes :: "nat list"
  stat_extractor :: ValueExtractor
  metric_type :: MetricType
  metric_name :: string
  metric_prefix :: string
  metric_tags :: "string list"
  field_separator :: string
  value_separator :: string

record SimpleStat =
  metric_id :: u32
  simple_recurrent :: bool
  value_fn :: ValueExtractor
  simple_type :: MetricType

section \<open>The root context\<close>

text \<open>A pointer to the request information of a stream is the id of its context.\<close>

record stats_root =
  local_node_info :: "FlatNode option"
  istio_dimensions :: IstioDimensions
  expressions :: "(u32 \<times> string) list"
  input_expressions :: "string \<rightharpoonup> nat"
  int_expressions :: "u32 list"
  outbound :: bool
  peer_metadata_id_key :: string
  peer_metadata_key :: string
  use_host_header_fallback :: bool
  cache_hits_accumulator :: u64
  cache_hits :: u32
  cache_misses :: u32
  metrics :: "IstioDimensions \<rightharpoonup> SimpleStat list"
  request_queue :: "(u32 \<times> u32 option) list"
  stats :: "StatGen list"
  initialized :: bool

text \<open>
  The constructor; \<open>use_host_header_fallback_\<close> has no initial value. \<open>counter\<close> gives the id of the
  counter \<open>metric_cache_count\<close> for its tags.
\<close>

definition initial_stats_root :: "bool \<Rightarrow> (string list \<Rightarrow> u32) \<Rightarrow> bool \<Rightarrow> stats_root" where
  "initial_stats_root garbage counter is_outbound =
     \<lparr>local_node_info = None, istio_dimensions = [], expressions = [], input_expressions = Map.empty,
      int_expressions = [], outbound = is_outbound,
      peer_metadata_id_key = (if is_outbound then kUpstreamMetadataIdKey else kDownstreamMetadataIdKey),
      peer_metadata_key = (if is_outbound then kUpstreamMetadataKey else kDownstreamMetadataKey),
      use_host_header_fallback = garbage, cache_hits_accumulator = 0,
      cache_hits = counter [''stats_filter'', ''hit''], cache_misses = counter [''stats_filter'', ''miss''],
      metrics = Map.empty, request_queue = [], stats = [], initialized = False\<rparr>"

text \<open>The two root contexts.\<close>

definition PluginRootContextOutbound :: "bool \<Rightarrow> (string list \<Rightarrow> u32) \<Rightarrow> stats_root" where
  "PluginRootContextOutbound garbage counter = initial_stats_root garbage counter True"

definition PluginRootContextInbound :: "bool \<Rightarrow> (string list \<Rightarrow> u32) \<Rightarrow> stats_root" where
  "PluginRootContextInbound garbage counter = initial_stats_root garbage counter False"

section \<open>Expressions\<close>

definition cleanupExpressions :: "(u32 \<Rightarrow> 'h \<Rightarrow> 'h) \<Rightarrow> stats_root \<Rightarrow> 'h \<Rightarrow> stats_root \<times> 'h" where
  "cleanupExpressions expr_delete root h =
     (let h = fold (\<lambda>(token, expression). expr_delete token) (expressions root) h;
          h = fold expr_delete (int_expressions root) h
      in (root\<lparr>expressions := [], input_expressions := Map.empty, int_expressions := []\<rparr>, h))"

definition addStringExpression :: "(string \<Rightarrow> 'h \<Rightarrow> WasmResult \<times> u32 \<times> 'h) \<Rightarrow> string \<Rightarrow> stats_root \<Rightarrow> 'h \<Rightarrow>
    nat option \<times> stats_root \<times> 'h" where
  "addStringExpression create input root h =
     (case input_expressions root input of
        None \<Rightarrow>
          (case create input h of (status, token, h) \<Rightarrow>
             if status \<noteq> Ok then (None, root, h)
             else let result = length (expressions root)
               in (Some result, root\<lparr>input_expressions := (input_expressions root)(input \<mapsto> result),
                     expressions := expressions root @ [(token, input)]\<rparr>, h))
      | Some i \<Rightarrow> (Some i, root, h))"

definition addIntExpression :: "(string \<Rightarrow> 'h \<Rightarrow> WasmResult \<times> u32 \<times> 'h) \<Rightarrow> string \<Rightarrow> stats_root \<Rightarrow> 'h \<Rightarrow>
    u32 option \<times> stats_root \<times> 'h" where
  "addIntExpression create input root h =
     (case create input h of (status, token, h) \<Rightarrow>
        if status \<noteq> Ok then (None, root, h)
        else (Some token, root\<lparr>int_expressions := int_expressions root @ [token]\<rparr>, h))"

section \<open>The factories, their tags and indexes\<close>

text \<open>
  The three local maps of \<open>initializeDimensions\<close>. \<open>operator[]\<close> of a map creates a missing entry, so
  the last two are total: no tags, and no indexes, for an unknown metric. An index of \<open>None\<close> marks a
  tag to be removed.
\<close>

record dim_maps =
  factories :: "(string \<times> MetricFactory) list"
  metric_tag_lists :: "string \<Rightarrow> string list"
  metric_indexes :: "string \<Rightarrow> string \<rightharpoonup> nat option"

definition seed_factory :: "MetricFactory \<Rightarrow> dim_maps \<Rightarrow> dim_maps" where
  "seed_factory factory m = (let name = factory_name factory in
     m\<lparr>factories := AList.update name factory (factories m),
       metric_tag_lists := (metric_tag_lists m)(name := take (count_labels factory) defaultTags),
       metric_indexes := (metric_indexes m)(name :=
          fold (\<lambda>i idx. idx(defaultTags ! i \<mapsto> Some i)) [0..<count_labels factory] (metric_indexes m name))\<rparr>)"

definition seed_maps :: dim_maps where
  "seed_maps = fold seed_factory defaultMetrics
     \<lparr>factories = [], metric_tag_lists = (\<lambda>_. []), metric_indexes = (\<lambda>_. Map.empty)\<rparr>"

definition definition_type :: "json \<Rightarrow> MetricType" where
  "definition_type d =
     (let type_name = value_or (JsonGetField JsonValueAs_string_view d ''type'') '''' ''''
      in if type_name = ''GAUGE'' then Gauge else if type_name = ''HISTOGRAM'' then Histogram else Counter)"

text \<open>
  The visitor of the definitions. A factory that is new is value-initialised, and all but its number
  of labels, which is not used again, is assigned.
\<close>

definition definition_visitor :: "(string \<Rightarrow> 'h \<Rightarrow> WasmResult \<times> u32 \<times> 'h) \<Rightarrow> json \<Rightarrow> dim_maps \<times> stats_root \<times> 'h \<Rightarrow>
    bool \<times> dim_maps \<times> stats_root \<times> 'h" where
  "definition_visitor create definition st = (case st of (m, root, h) \<Rightarrow>
     let name = value_or (JsonGetField JsonValueAs_string definition ''name'') '''' '''';
         value = value_or (JsonGetField JsonValueAs_string definition ''value'') '''' ''''
     in if name = '''' \<or> value = '''' then (False, m, root, h)
        else case addIntExpression create value root h of
            (None, root, h) \<Rightarrow> (False, m, root, h)
          | (Some token, root, h) \<Rightarrow>
              let ty = definition_type definition;
                  labels = (case map_of (factories m) name of Some f \<Rightarrow> count_labels f | None \<Rightarrow> 0)
              in (True, m\<lparr>factories := AList.update name
                       (metric_factory name ty (ExpressionValue token) http_grpc labels False) (factories m)\<rparr>, root, h))"

text \<open>The visitor of \<open>tags_to_remove\<close>, over the indexes of one metric.\<close>

definition remove_visitor :: "json \<Rightarrow> (string \<rightharpoonup> nat option) \<Rightarrow> bool \<times> (string \<rightharpoonup> nat option)" where
  "remove_visitor tag indexes =
     (case JsonValueAs_string tag of
        (v, d) \<Rightarrow> if d \<noteq> OK then (False, indexes)
                  else (True, if indexes (the v) \<noteq> None then indexes(the v \<mapsto> None) else indexes))"

text \<open>The overrides of the tags of one metric. \<open>tag\<close> is a key of the object \<open>dimensions\<close>.\<close>

definition dimension_expression :: "json \<Rightarrow> string \<Rightarrow> json" where
  "dimension_expression metric tag =
     (case json_find metric ''dimensions'' of
        Some dims \<Rightarrow> (case json_find dims tag of Some e \<Rightarrow> e | None \<Rightarrow> JNull)
      | None \<Rightarrow> JNull)"

fun override_tags :: "(string \<Rightarrow> 'h \<Rightarrow> WasmResult \<times> u32 \<times> 'h) \<Rightarrow> json \<Rightarrow> string \<Rightarrow> string list \<Rightarrow>
    dim_maps \<times> stats_root \<times> 'h \<Rightarrow> bool \<times> dim_maps \<times> stats_root \<times> 'h" where
  "override_tags create metric name [] st = (True, st)"
| "override_tags create metric name (tag # tags) (m, root, h) =
     (case JsonValueAs_string (dimension_expression metric tag) of (expr_string, detail) \<Rightarrow>
        if detail \<noteq> OK then (False, m, root, h)
        else case addStringExpression create (the expr_string) root h of (expr_index, root, h) \<Rightarrow>
          let value = map_option (\<lambda>i. count_standard_labels + i) expr_index;
              indexes = metric_indexes m name;
              m = (if indexes tag \<noteq> None then m
                   else m\<lparr>metric_tag_lists := (metric_tag_lists m)(name := metric_tag_lists m name @ [tag])\<rparr>);
              m = m\<lparr>metric_indexes := (metric_indexes m)(name := indexes(tag \<mapsto> value))\<rparr>
          in override_tags create metric name tags (m, root, h))"

text \<open>The loop over the factories, by their names, for one element of \<open>metrics\<close>.\<close>

fun override_factories :: "(string \<Rightarrow> 'h \<Rightarrow> WasmResult \<times> u32 \<times> 'h) \<Rightarrow> json \<Rightarrow> string \<Rightarrow> string list \<Rightarrow> string list \<Rightarrow>
    dim_maps \<times> stats_root \<times> 'h \<Rightarrow> bool \<times> dim_maps \<times> stats_root \<times> 'h" where
  "override_factories create metric name tags [] st = (True, st)"
| "override_factories create metric name tags (key # keys) (m, root, h) =
     (if name \<noteq> '''' \<and> name \<noteq> key then override_factories create metric name tags keys (m, root, h)
      else if value_or (JsonGetField JsonValueAs_bool metric ''drop'') False False then
        override_factories create metric name tags keys (m\<lparr>factories := AList.delete key (factories m)\<rparr>, root, h)
      else case JsonArrayIterate metric ''tags_to_remove'' remove_visitor (metric_indexes m key) of (ok, indexes) \<Rightarrow>
        let m = m\<lparr>metric_indexes := (metric_indexes m)(key := indexes)\<rparr> in
        if \<not> ok then (False, m, root, h)
        else case override_tags create metric key tags (m, root, h) of (ok, st) \<Rightarrow>
          if \<not> ok then (False, st) else override_factories create metric name tags keys st)"

definition metric_visitor :: "(string \<Rightarrow> 'h \<Rightarrow> WasmResult \<times> u32 \<times> 'h) \<Rightarrow> json \<Rightarrow> dim_maps \<times> stats_root \<times> 'h \<Rightarrow>
    bool \<times> dim_maps \<times> stats_root \<times> 'h" where
  "metric_visitor create metric st =
     (case JsonObjectIterate metric ''dimensions'' (\<lambda>dim tags. (True, tags @ [dim])) [] of (ok, tags) \<Rightarrow>
        if \<not> ok then (False, st)
        else let name = value_or (JsonGetField JsonValueAs_string metric ''name'') '''' ''''
             in override_factories create metric name (sort tags) (map fst (factories (fst st))) st)"

section \<open>Generators\<close>

text \<open>The tags of a metric that have an index, with these indexes.\<close>

definition indexed_tags :: "string list \<Rightarrow> (string \<rightharpoonup> nat option) \<Rightarrow> (string \<times> nat) list" where
  "indexed_tags tags indexes =
     List.map_filter (\<lambda>tag. case indexes tag of Some (Some i) \<Rightarrow> Some (tag, i) | _ \<Rightarrow> None) tags"

definition stat_gen :: "string \<Rightarrow> string \<Rightarrow> dim_maps \<Rightarrow> string \<times> MetricFactory \<Rightarrow> StatGen" where
  "stat_gen field_sep value_sep m entry = (case entry of (name, factory) \<Rightarrow>
     let chosen = indexed_tags (metric_tag_lists m name) (metric_indexes m name) in
     \<lparr>stat_recurrent = recurrent factory, stat_protocols = protocols factory, stat_indexes = map snd chosen,
      stat_extractor = extractor factory, metric_type = factory_type factory,
      metric_name = ''istio_'' @ factory_name factory, metric_prefix = '''', metric_tags = map fst chosen,
      field_separator = field_sep, value_separator = value_sep\<rparr>)"

text \<open>
  The constructor of a generator aborts when tags and indexes differ in number. For the pairs chosen
  here they do not, and it makes the generator above.
\<close>

definition new_StatGen :: "string \<Rightarrow> MetricFactory \<Rightarrow> string list \<Rightarrow> nat list \<Rightarrow> string \<Rightarrow> string \<Rightarrow> ub + StatGen" where
  "new_StatGen stat_prefix factory tags indexes field_sep value_sep =
     (if length tags \<noteq> length indexes then Inl AssertFailed
      else Inr \<lparr>stat_recurrent = recurrent factory, stat_protocols = protocols factory, stat_indexes = indexes,
        stat_extractor = extractor factory, metric_type = factory_type factory,
        metric_name = stat_prefix @ factory_name factory, metric_prefix = '''', metric_tags = tags,
        field_separator = field_sep, value_separator = value_sep\<rparr>)"

lemma stat_gen_constructed:
  "chosen = indexed_tags (metric_tag_lists m name) (metric_indexes m name) \<Longrightarrow>
   new_StatGen ''istio_'' factory (map fst chosen) (map snd chosen) fs vs = Inr (stat_gen fs vs m (name, factory))"
  by (simp add: new_StatGen_def stat_gen_def Let_def)

definition resize :: "nat \<Rightarrow> string list \<Rightarrow> string list" where
  "resize n xs = take n xs @ replicate (n - length xs) ''''"

text \<open>The metric that reports the version: its name, its tags and the value.\<close>

datatype stats_action =
    RecordMetric u32 u64
  | IncrementMetricBy u32 u64
  | RecordBuild string string string u64
  | SetTickPeriod u32

record stats_lib =
  flatbuf :: flatbuffers_lib
  strlib :: string_lib
  jsonlib :: json_lib
  ParseDurationMs :: "string \<Rightarrow> u64 option" \<comment> \<open>\<open>absl::ParseDuration\<close>, divided by a millisecond\<close>
  resolveFullName :: "MetricType \<Rightarrow> string \<Rightarrow> u32"
  traversal :: "(string \<times> MetricFactory) list \<Rightarrow> (string \<times> MetricFactory) list"
  queue_traversal :: "(u32 \<times> u32 option) list \<Rightarrow> (u32 \<times> u32 option) list"

text \<open>The maps the definitions and the overrides lead to. A part that fails to parse ends early.\<close>

definition configured_maps :: "stats_lib \<Rightarrow> (string \<Rightarrow> 'h \<Rightarrow> WasmResult \<times> u32 \<times> 'h) \<Rightarrow> json \<Rightarrow> stats_root \<Rightarrow> 'h \<Rightarrow>
    dim_maps \<times> stats_root \<times> 'h" where
  "configured_maps L create j root h =
     (case JsonArrayIterate j ''definitions'' (definition_visitor create) (seed_maps, root, h) of (_, m, root, h) \<Rightarrow>
      case JsonArrayIterate j ''metrics'' (metric_visitor create)
             (m\<lparr>factories := traversal L (factories m)\<rparr>, root, h) of (_, st) \<Rightarrow> st)"

definition initializeDimensions :: "stats_lib \<Rightarrow> (string \<Rightarrow> 'h \<Rightarrow> WasmResult \<times> u32 \<times> 'h) \<Rightarrow> (u32 \<Rightarrow> 'h \<Rightarrow> 'h) \<Rightarrow>
    json \<Rightarrow> FlatNode \<Rightarrow> stats_root \<Rightarrow> 'h \<Rightarrow> ub + (bool \<times> stats_root \<times> 'h \<times> stats_action list)" where
  "initializeDimensions L create expr_delete j local_node root h =
     (case cleanupExpressions expr_delete root h of (root, h) \<Rightarrow>
      case configured_maps L create j root h of (m, root, h) \<Rightarrow>
      and_then (assign_all [(Reporter, if outbound root then ''source'' else ''destination'')]
                  (resize (count_standard_labels + length (expressions root)) (istio_dimensions root))) (\<lambda>d.
      and_then (map_node (flatbuf L) (outbound root) local_node d) (\<lambda>d.
        let field_sep = value_or (JsonGetField JsonValueAs_string j ''field_separator'') '''' '';.;'';
            value_sep = value_or (JsonGetField JsonValueAs_string j ''value_separator'') '''' ''=.='';
            istio_version = GetFromFbStringView (node_istio_version local_node);
            istio_version = (if istio_version = '''' then ''unknown;'' else istio_version @ '';'')
        in Inr (True, root\<lparr>istio_dimensions := d, stats := map (stat_gen field_sep value_sep m) (factories m)\<rparr>, h,
                [RecordBuild ''istio_build'' ''proxy'' istio_version 1]))))"

definition configure :: "stats_lib \<Rightarrow> (string \<Rightarrow> 'h \<Rightarrow> WasmResult \<times> u32 \<times> 'h) \<Rightarrow> (u32 \<Rightarrow> 'h \<Rightarrow> 'h) \<Rightarrow>
    stream_host \<Rightarrow> string \<Rightarrow> stats_root \<Rightarrow> 'h \<Rightarrow> ub + (bool \<times> stats_root \<times> 'h \<times> stats_action list)" where
  "configure L create expr_delete H configuration_data root h =
     (let local_node = extractLocalNodeFlatBuffer (flatbuf L) (strings H) (maps H);
          root = root\<lparr>local_node_info := Some local_node\<rparr>
      in case JsonParse (jsonlib L) configuration_data of
           None \<Rightarrow> Inr (False, root, h, [])
         | Some j \<Rightarrow>
             let root = root\<lparr>use_host_header_fallback :=
                   \<not> value_or (JsonGetField JsonValueAs_bool j ''disable_host_header_fallback'') False False\<rparr>
             in and_then (initializeDimensions L create expr_delete j local_node root h) (\<lambda>(ok, root, h, acts).
               if \<not> ok then Inr (False, root, h, acts)
               else
                 let tcp_reporting_duration = JsonGetField JsonValueAs_string j ''tcp_reporting_duration'';
                     milis = (if fst tcp_reporting_duration = OK
                              then case ParseDurationMs L (the (snd tcp_reporting_duration)) of
                                  Some ms \<Rightarrow> ucast ms
                                | None \<Rightarrow> 15000
                              else (15000 :: u32))
                 in Inr (True, root, h, acts @ [SetTickPeriod milis])))"

definition onConfigure :: "stats_lib \<Rightarrow> (string \<Rightarrow> 'h \<Rightarrow> WasmResult \<times> u32 \<times> 'h) \<Rightarrow> (u32 \<Rightarrow> 'h \<Rightarrow> 'h) \<Rightarrow>
    stream_host \<Rightarrow> string \<Rightarrow> stats_root \<Rightarrow> 'h \<Rightarrow> ub + (bool \<times> stats_root \<times> 'h \<times> stats_action list)" where
  "onConfigure L create expr_delete H configuration_data root h =
     and_then (configure L create expr_delete H configuration_data root h) (\<lambda>(ok, root, h, acts).
       Inr (True, root\<lparr>initialized := ok\<rparr>, h, acts))"

definition onDone :: "(u32 \<Rightarrow> 'h \<Rightarrow> 'h) \<Rightarrow> stats_root \<Rightarrow> 'h \<Rightarrow> bool \<times> stats_root \<times> 'h" where
  "onDone expr_delete root h = (case cleanupExpressions expr_delete root h of (root, h) \<Rightarrow> (True, root, h))"

section \<open>The maps are consistent\<close>

text \<open>
  An index is that of the standard label with the name of the tag, or the position of an expression
  behind the standard labels. The tags of a metric are different and are those with an index, given
  or removed. An expression that was added before is found again.
\<close>

definition index_ok :: "stats_root \<Rightarrow> string \<Rightarrow> nat \<Rightarrow> bool" where
  "index_ok root tag i \<longleftrightarrow> (i < 25 \<and> tag = defaultTags ! i) \<or> (25 \<le> i \<and> i < 25 + length (expressions root))"

definition maps_ok :: "dim_maps \<Rightarrow> stats_root \<Rightarrow> bool" where
  "maps_ok m root \<longleftrightarrow> (\<forall>name. distinct (metric_tag_lists m name) \<and>
     set (metric_tag_lists m name) = dom (metric_indexes m name) \<and>
     (\<forall>tag i. metric_indexes m name tag = Some (Some i) \<longrightarrow> index_ok root tag i))"

definition inputs_ok :: "stats_root \<Rightarrow> bool" where
  "inputs_ok root \<longleftrightarrow> (\<forall>e i. input_expressions root e = Some i \<longrightarrow>
     i < length (expressions root) \<and> snd (expressions root ! i) = e)"

text \<open>What the expressions leave alone.\<close>

definition without_expressions :: "stats_root \<Rightarrow> stats_root" where
  "without_expressions root = root\<lparr>expressions := [], input_expressions := Map.empty, int_expressions := []\<rparr>"

definition extends :: "stats_root \<Rightarrow> stats_root \<Rightarrow> bool" where
  "extends root root' \<longleftrightarrow> without_expressions root' = without_expressions root \<and>
     length (expressions root) \<le> length (expressions root') \<and> (inputs_ok root \<longrightarrow> inputs_ok root')"

lemma extends_refl [simp]: "extends root root"
  by (simp add: extends_def)

lemma extends_trans: "extends a b \<Longrightarrow> extends b c \<Longrightarrow> extends a c"
  by (auto simp: extends_def)

lemma index_ok_extends: "index_ok root tag i \<Longrightarrow> extends root root' \<Longrightarrow> index_ok root' tag i"
  by (auto simp: index_ok_def extends_def)

lemma maps_ok_extends: "maps_ok m root \<Longrightarrow> extends root root' \<Longrightarrow> maps_ok m root'"
  using index_ok_extends unfolding maps_ok_def by blast

lemma addStringExpression_extends:
  assumes "addStringExpression create input root h = (r, root', h')"
  shows "extends root root'" "inputs_ok root \<Longrightarrow> r = Some i \<Longrightarrow> i < length (expressions root')"
proof -
  show "extends root root'"
    using assms by (auto simp: addStringExpression_def extends_def without_expressions_def inputs_ok_def Let_def nth_append less_Suc_eq
        split: option.splits prod.splits if_splits)
  show "inputs_ok root \<Longrightarrow> r = Some i \<Longrightarrow> i < length (expressions root')"
    using assms by (auto simp: addStringExpression_def inputs_ok_def Let_def split: option.splits prod.splits if_splits)
qed

lemma addIntExpression_extends:
  "addIntExpression create input root h = (r, root', h') \<Longrightarrow> extends root root'"
  by (auto simp: addIntExpression_def extends_def without_expressions_def inputs_ok_def split: prod.splits if_splits)

text \<open>
  A predicate \<open>J\<close> that the two ways to add an expression keep is kept by the whole configuration, along
  with the consistency of the maps.
\<close>

lemma JsonArrayIterate_keeps:
  assumes "\<And>elt s. I s \<Longrightarrow> I (snd (visitor elt s))" "I s"
  shows "I (snd (JsonArrayIterate j field visitor s))"
proof -
  have "json_visitor visitor I"
    using assms(1) by unfold_locales (metis snd_conv)
  from json_visitor.JsonArrayIterate_inv [OF this assms(2)] show ?thesis
    by (cases "JsonArrayIterate j field visitor s") simp
qed

locale expression_invariant =
  fixes create :: "string \<Rightarrow> 'h \<Rightarrow> WasmResult \<times> u32 \<times> 'h" and J :: "stats_root \<Rightarrow> 'h \<Rightarrow> bool"
  assumes add_string: "J root h \<Longrightarrow> addStringExpression create input root h = (r, root', h') \<Longrightarrow> J root' h'"
    and add_int: "J root h \<Longrightarrow> addIntExpression create input root h = (t, root', h') \<Longrightarrow> J root' h'"
begin

definition config_inv :: "stats_root \<Rightarrow> dim_maps \<times> stats_root \<times> 'h \<Rightarrow> bool" where
  "config_inv root0 st \<longleftrightarrow> (case st of (m, root, h) \<Rightarrow> maps_ok m root \<and> inputs_ok root \<and> extends root0 root \<and> J root h)"

lemma definition_inv:
  assumes "config_inv root0 st"
  shows "config_inv root0 (snd (definition_visitor create d st))"
proof -
  obtain m root h where st: "st = (m, root, h)" by (cases st)
  let ?val = "value_or (JsonGetField JsonValueAs_string d ''value'') '''' ''''"
  obtain t root' h' where a: "addIntExpression create ?val root h = (t, root', h')"
    by (cases "addIntExpression create ?val root h") auto
  have e: "extends root root'" by (rule addIntExpression_extends [OF a])
  have inv: "maps_ok m root'" "inputs_ok root'" "extends root0 root'" "J root' h'"
    using assms e maps_ok_extends [OF _ e] extends_trans [OF _ e] add_int [OF _ a]
    by (auto simp: config_inv_def st extends_def)
  show ?thesis
    using assms inv by (auto simp: definition_visitor_def st a Let_def config_inv_def maps_ok_def split: option.split)
qed

lemma override_tags_inv:
  "config_inv root0 st \<Longrightarrow> config_inv root0 (snd (override_tags create metric name tags st))"
proof (induction tags arbitrary: st)
  case (Cons tag tags)
  obtain m root h where st: "st = (m, root, h)" by (cases st)
  obtain v d where v: "JsonValueAs_string (dimension_expression metric tag) = (v, d)" by fastforce
  obtain r root' h' where a: "addStringExpression create (the v) root h = (r, root', h')"
    by (cases "addStringExpression create (the v) root h") auto
  let ?idx = "(metric_indexes m name)(tag \<mapsto> map_option (\<lambda>i. count_standard_labels + i) r)"
  define m' where "m' = (if metric_indexes m name tag \<noteq> None then m
      else m\<lparr>metric_tag_lists := (metric_tag_lists m)(name := metric_tag_lists m name @ [tag])\<rparr>)"
  have e: "extends root root'" by (rule addStringExpression_extends(1) [OF a])
  have inv: "maps_ok m root'" "inputs_ok root'" "extends root0 root'" "J root' h'" "inputs_ok root"
    using Cons.prems e maps_ok_extends [OF _ e] extends_trans [OF _ e] add_string [OF _ a]
    by (auto simp: config_inv_def st extends_def)
  have "index_ok root' tag (count_standard_labels + i)" if "r = Some i" for i
    using addStringExpression_extends(2) [OF a inv(5) that] by (simp add: index_ok_def count_standard_labels_def)
  then have "maps_ok (m'\<lparr>metric_indexes := (metric_indexes m)(name := ?idx)\<rparr>) root'"
    using inv(1) by (auto simp: maps_ok_def m'_def split: if_splits)
  with inv have "config_inv root0 (m'\<lparr>metric_indexes := (metric_indexes m)(name := ?idx)\<rparr>, root', h')"
    by (simp add: config_inv_def)
  from Cons.IH [OF this] Cons.prems show ?case
    by (cases "metric_indexes m name tag") (simp_all add: st v a Let_def m'_def)
qed simp

end

lemma remove_visitor_inv:
  assumes "JsonArrayIterate metric ''tags_to_remove'' remove_visitor idx = (ok, idx')"
  shows "dom idx' = dom idx \<and> (\<forall>tag i. idx' tag = Some (Some i) \<longrightarrow> idx tag = Some (Some i))"
proof -
  let ?I = "\<lambda>x. dom x = dom idx \<and> (\<forall>tag i. x tag = Some (Some i) \<longrightarrow> idx tag = Some (Some i))"
  have step: "?I (snd (remove_visitor elt x))" if "?I x" for elt x
  proof -
    obtain v d where v: "JsonValueAs_string elt = (v, d)" by (cases "JsonValueAs_string elt")
    show ?thesis
    proof (cases "d = OK \<and> x (the v) \<noteq> None")
      case True
      then have "dom (x(the v \<mapsto> None)) = dom x" by (auto simp: insert_absorb)
      with True that show ?thesis by (simp add: remove_visitor_def v)
    qed (use that in \<open>auto simp: remove_visitor_def v\<close>)
  qed
  have "?I (snd (JsonArrayIterate metric ''tags_to_remove'' remove_visitor idx))"
    by (rule JsonArrayIterate_keeps [of ?I, OF step]) simp_all
  with assms show ?thesis by simp
qed

lemma maps_ok_remove:
  assumes "maps_ok m root" "JsonArrayIterate metric ''tags_to_remove'' remove_visitor (metric_indexes m key) = (ok, idx)"
  shows "maps_ok (m\<lparr>metric_indexes := (metric_indexes m)(key := idx)\<rparr>) root"
  using remove_visitor_inv [OF assms(2)] assms(1) by (auto simp: maps_ok_def, blast)

context expression_invariant
begin

lemma override_factories_inv:
  "config_inv root0 st \<Longrightarrow> config_inv root0 (snd (override_factories create metric name tags keys st))"
proof (induction keys arbitrary: st)
  case (Cons key keys)
  obtain m root h where st: "st = (m, root, h)" by (cases st)
  obtain ok idx where r: "JsonArrayIterate metric ''tags_to_remove'' remove_visitor (metric_indexes m key) = (ok, idx)"
    by fastforce
  define m' where "m' = m\<lparr>metric_indexes := (metric_indexes m)(key := idx)\<rparr>"
  have inv: "config_inv root0 (m', root, h)"
    using Cons.prems maps_ok_remove [OF _ r] by (auto simp: config_inv_def st m'_def)
  have drop: "config_inv root0 (m\<lparr>factories := AList.delete key (factories m)\<rparr>, root, h)"
    using Cons.prems by (simp add: config_inv_def st maps_ok_def)
  obtain ok2 m2 root2 h2 where o: "override_tags create metric key tags (m', root, h) = (ok2, m2, root2, h2)"
    by (cases "override_tags create metric key tags (m', root, h)")
  with override_tags_inv [OF inv, of metric key tags] have inv2: "config_inv root0 (m2, root2, h2)" by simp
  show ?case
    using Cons.prems Cons.IH inv inv2 drop by (auto simp: st r o m'_def [symmetric])
qed simp

lemma metric_visitor_inv:
  "config_inv root0 st \<Longrightarrow> config_inv root0 (snd (metric_visitor create metric st))"
  using override_factories_inv by (auto simp: metric_visitor_def Let_def split: prod.split)

end

lemma fold_index:
  assumes "distinct ts" "n \<le> length ts"
  shows "fold (\<lambda>i idx. idx(ts ! i \<mapsto> Some i)) [0..<n] Map.empty tag =
     (if tag \<in> set (take n ts) then Some (Some (THE i. i < length ts \<and> ts ! i = tag)) else None)"
  using assms(2)
proof (induction n)
  case (Suc n)
  have "(THE i. i < length ts \<and> ts ! i = ts ! n) = n"
    using assms(1) Suc.prems by (intro the_equality) (auto simp: nth_eq_iff_index_eq)
  with Suc show ?case by (auto simp: take_Suc_conv_app_nth)
qed simp

lemma defaultTags: "distinct defaultTags" "length defaultTags = 25"
  by (simp_all add: defaultTags_def STD_ISTIO_DIMENSIONS_def)

lemma fold_index_ok:
  assumes "n \<le> 25" "fold (\<lambda>i idx. idx(defaultTags ! i \<mapsto> Some i)) [0..<n] Map.empty tag = Some (Some i)"
  shows "i < 25 \<and> tag = defaultTags ! i"
proof -
  have "tag \<in> set (take n defaultTags)" and i: "i = (THE i. i < length defaultTags \<and> defaultTags ! i = tag)"
    using assms fold_index [of defaultTags n tag] defaultTags by (auto split: if_splits)
  then obtain k where k: "k < 25" "defaultTags ! k = tag"
    using defaultTags(2) by (metis in_set_conv_nth in_set_takeD)
  then have "(THE i. i < length defaultTags \<and> defaultTags ! i = tag) = k"
    using defaultTags by (intro the_equality) (auto simp: nth_eq_iff_index_eq)
  with i k show ?thesis by simp
qed

lemma seed_factory_ok:
  assumes "maps_ok m root" "metric_indexes m (factory_name f) = Map.empty" "count_labels f \<le> 25"
  shows "maps_ok (seed_factory f m) root"
proof -
  let ?idx = "fold (\<lambda>i idx. idx(defaultTags ! i \<mapsto> Some i)) [0..<count_labels f] Map.empty"
  have "dom ?idx = set (take (count_labels f) defaultTags)"
    using fold_index [of defaultTags "count_labels f"] defaultTags assms(3) by (auto simp: dom_def split: if_splits)
  moreover have "index_ok root tag i" if "?idx tag = Some (Some i)" for tag i
    using fold_index_ok [OF assms(3) that] by (simp add: index_ok_def)
  ultimately show ?thesis
    using assms(1,2) defaultTags(1) by (simp add: maps_ok_def seed_factory_def Let_def distinct_take)
qed

lemma seed_factories_ok:
  "maps_ok m root \<Longrightarrow> distinct (map factory_name fs) \<Longrightarrow>
   \<forall>f \<in> set fs. metric_indexes m (factory_name f) = Map.empty \<and> count_labels f \<le> 25 \<Longrightarrow>
   maps_ok (fold seed_factory fs m) root"
proof (induction fs arbitrary: m)
  case (Cons f fs)
  have "factory_name g \<noteq> factory_name f" if "g \<in> set fs" for g
    using Cons.prems(2) imageI [OF that, of factory_name] by auto
  with Cons.prems(3) have "\<forall>g \<in> set fs. metric_indexes (seed_factory f m) (factory_name g) = Map.empty \<and> count_labels g \<le> 25"
    by (simp add: seed_factory_def Let_def)
  with Cons show ?case using seed_factory_ok by simp
qed simp

lemma seed_maps_ok: "maps_ok seed_maps root"
  unfolding seed_maps_def
  by (rule seed_factories_ok)
    (simp_all add: maps_ok_def defaultMetrics_def metric_factory_def count_standard_labels_def count_peer_labels_def count_tcp_labels_def)

context expression_invariant
begin

lemma configured_inv:
  assumes "inputs_ok root" "J root h"
  shows "config_inv root (configured_maps L create j root h)"
proof -
  have "config_inv root (seed_maps, root, h)"
    using assms seed_maps_ok by (simp add: config_inv_def)
  then have inv: "config_inv root (snd (JsonArrayIterate j ''definitions'' (definition_visitor create) (seed_maps, root, h)))"
    by (intro JsonArrayIterate_keeps [of "config_inv root"] definition_inv)
  obtain ok m root1 h1 where d: "JsonArrayIterate j ''definitions'' (definition_visitor create) (seed_maps, root, h) = (ok, m, root1, h1)"
    by (cases "JsonArrayIterate j ''definitions'' (definition_visitor create) (seed_maps, root, h)")
  with inv have "config_inv root (m\<lparr>factories := traversal L (factories m)\<rparr>, root1, h1)"
    by (simp add: config_inv_def maps_ok_def)
  then have "config_inv root (snd (JsonArrayIterate j ''metrics'' (metric_visitor create) (m\<lparr>factories := traversal L (factories m)\<rparr>, root1, h1)))"
    by (intro JsonArrayIterate_keeps [of "config_inv root"] metric_visitor_inv)
  then show ?thesis
    by (cases "JsonArrayIterate j ''metrics'' (metric_visitor create) (m\<lparr>factories := traversal L (factories m)\<rparr>, root1, h1)")
      (simp add: configured_maps_def d)
qed

end

text \<open>On any host the maps stay consistent.\<close>

interpretation any_host: expression_invariant create "\<lambda>_ _. True" for create :: "string \<Rightarrow> 'h \<Rightarrow> WasmResult \<times> u32 \<times> 'h"
  by unfold_locales simp_all

lemma configured_maps_ok:
  assumes "inputs_ok root" "configured_maps L create j root h = (m, root', h')"
  shows "maps_ok m root'" "inputs_ok root'" "extends root root'"
  using any_host.configured_inv [OF assms(1), where h = h and create = create and L = L and j = j] assms(2)
  by (simp_all add: any_host.config_inv_def)

section \<open>Generators and dimensions fit\<close>

text \<open>
  The extension is well formed: the dimensions have room for the standard labels and the
  expressions; each generator has one index per tag, within the dimensions, no tag twice, and a
  standard label's index only under its own name.
\<close>

definition gen_ok :: "stats_root \<Rightarrow> StatGen \<Rightarrow> bool" where
  "gen_ok root g \<longleftrightarrow> length (metric_tags g) = length (stat_indexes g) \<and> distinct (metric_tags g) \<and>
     (\<forall>(tag, i) \<in> set (zip (metric_tags g) (stat_indexes g)). index_ok root tag i)"

definition stats_ok :: "stats_root \<Rightarrow> bool" where
  "stats_ok root \<longleftrightarrow> inputs_ok root \<and>
     (initialized root \<longrightarrow> length (istio_dimensions root) = 25 + length (expressions root) \<and> (\<forall>g \<in> set (stats root). gen_ok root g))"

lemma indexed_tags_props:
  assumes "distinct tags"
  shows "distinct (map fst (indexed_tags tags idx))"
    "(tag, i) \<in> set (indexed_tags tags idx) \<Longrightarrow> idx tag = Some (Some i)"
proof -
  have "distinct (map fst (indexed_tags tags idx)) \<and> set (map fst (indexed_tags tags idx)) \<subseteq> set tags \<and>
      (\<forall>(tag, i) \<in> set (indexed_tags tags idx). idx tag = Some (Some i))"
    using assms by (induction tags) (auto simp: indexed_tags_def map_filter_simps split: option.split)
  then show "distinct (map fst (indexed_tags tags idx))" "(tag, i) \<in> set (indexed_tags tags idx) \<Longrightarrow> idx tag = Some (Some i)" by auto
qed

lemma stat_gen_ok:
  assumes "maps_ok m root"
  shows "gen_ok root (stat_gen fs vs m entry)"
proof -
  obtain name factory where e: "entry = (name, factory)" by (cases entry)
  let ?chosen = "indexed_tags (metric_tag_lists m name) (metric_indexes m name)"
  have d: "distinct (metric_tag_lists m name)" using assms by (simp add: maps_ok_def)
  have "index_ok root tag i" if "(tag, i) \<in> set ?chosen" for tag i
    using indexed_tags_props(2) [OF d that] assms by (auto simp: maps_ok_def)
  with indexed_tags_props(1) [OF d] show ?thesis
    by (auto simp: gen_ok_def stat_gen_def e Let_def zip_map_fst_snd)
qed

lemma index_ok_dims [simp]: "index_ok (root\<lparr>istio_dimensions := d, stats := s\<rparr>) = index_ok root"
  by (simp add: fun_eq_iff index_ok_def)

lemma gen_ok_dims [simp]: "gen_ok (root\<lparr>istio_dimensions := d, stats := s\<rparr>) = gen_ok root"
  by (simp add: fun_eq_iff gen_ok_def)

lemma length_resize [simp]: "length (resize n xs) = n"
  by (simp add: resize_def)

lemma cleanup_fields:
  assumes "cleanupExpressions expr_delete root h = (root', h')"
  shows "root' = without_expressions root" "inputs_ok root'"
  using assms by (auto simp: cleanupExpressions_def without_expressions_def inputs_ok_def Let_def)

text \<open>What \<open>initializeDimensions\<close> leaves, on every host and for every configuration.\<close>

lemma initializeDimensions_ok:
  obtains root' h' acts where
    "initializeDimensions L create expr_delete j node root h = Inr (True, root', h', acts)"
    "inputs_ok root'" "length (istio_dimensions root') = 25 + length (expressions root')"
    "\<forall>g \<in> set (stats root'). gen_ok root' g"
    "(without_expressions root')\<lparr>istio_dimensions := [], stats := []\<rparr> = (without_expressions root)\<lparr>istio_dimensions := [], stats := []\<rparr>"
proof -
  obtain root1 h1 where c: "cleanupExpressions expr_delete root h = (root1, h1)" by (cases "cleanupExpressions expr_delete root h")
  note c1 = cleanup_fields [OF c]
  obtain m root2 h2 where m: "configured_maps L create j root1 h1 = (m, root2, h2)" by (cases "configured_maps L create j root1 h1")
  note m2 = configured_maps_ok [OF c1(2) m]
  let ?d0 = "resize (count_standard_labels + length (expressions root2)) (istio_dimensions root2)"
  have l0: "25 \<le> length ?d0" by (simp add: count_standard_labels_def)
  obtain d1 where d1: "assign_all [(Reporter, if outbound root2 then ''source'' else ''destination'')] ?d0 = Inr d1" "length d1 = length ?d0"
    using assign_all_dims [OF l0] by blast
  obtain d2 where d2: "map_node (flatbuf L) (outbound root2) node d1 = Inr d2" "length d2 = length ?d0"
    using assign_all_dims [of d1 "map_node_writes (flatbuf L) (outbound root2) node"] d1(2) l0 unfolding map_node_def by auto
  have w: "without_expressions root2 = without_expressions root"
    using m2(3) c1(1) by (simp add: extends_def without_expressions_def)
  show ?thesis
  proof (rule that)
    let ?fs = "value_or (JsonGetField JsonValueAs_string j ''field_separator'') '''' '';.;''"
    let ?vs = "value_or (JsonGetField JsonValueAs_string j ''value_separator'') '''' ''=.=''"
    let ?root = "root2\<lparr>istio_dimensions := d2, stats := map (stat_gen ?fs ?vs m) (factories m)\<rparr>"
    show "initializeDimensions L create expr_delete j node root h = Inr (True, ?root, h2,
        [RecordBuild ''istio_build'' ''proxy'' (if GetFromFbStringView (node_istio_version node) = '''' then ''unknown;''
           else GetFromFbStringView (node_istio_version node) @ '';'') 1])"
      by (simp add: initializeDimensions_def c m d1 d2 Let_def del: assign_all.simps)
    show "inputs_ok ?root" using m2(2) by (simp add: inputs_ok_def)
    show "length (istio_dimensions ?root) = 25 + length (expressions ?root)" by (simp add: d2 count_standard_labels_def)
    show "\<forall>g \<in> set (stats ?root). gen_ok ?root g" using stat_gen_ok [OF m2(1)] by simp
    show "(without_expressions ?root)\<lparr>istio_dimensions := [], stats := []\<rparr> = (without_expressions root)\<lparr>istio_dimensions := [], stats := []\<rparr>"
      using arg_cong [OF w, of "\<lambda>r. r\<lparr>istio_dimensions := [], stats := []\<rparr>"] by (simp add: without_expressions_def)
  qed
qed

text \<open>The whole of \<open>onConfigure\<close>: never undefined, always true, and well formed.\<close>

lemma onConfigure_ok:
  assumes "stats_ok root"
  obtains root' h' acts where "onConfigure L create expr_delete H data root h = Inr (True, root', h', acts)"
    "stats_ok root'" "metrics root' = metrics root" "request_queue root' = request_queue root" "outbound root' = outbound root"
    "initialized root' \<longleftrightarrow> JsonParse (jsonlib L) data \<noteq> None"
proof (cases "JsonParse (jsonlib L) data")
  case None
  show ?thesis
    by (rule that [of "root\<lparr>local_node_info := Some (extractLocalNodeFlatBuffer (flatbuf L) (strings H) (maps H)), initialized := False\<rparr>" h "[]"])
      (use None assms in \<open>simp_all add: onConfigure_def configure_def Let_def stats_ok_def inputs_ok_def\<close>)
next
  case (Some j)
  define node where "node = extractLocalNodeFlatBuffer (flatbuf L) (strings H) (maps H)"
  define root1 where "root1 = root\<lparr>local_node_info := Some node, use_host_header_fallback :=
      \<not> value_or (JsonGetField JsonValueAs_bool j ''disable_host_header_fallback'') False False\<rparr>"
  obtain root2 h2 acts where i: "initializeDimensions L create expr_delete j node root1 h = Inr (True, root2, h2, acts)"
    and ok: "inputs_ok root2" "length (istio_dimensions root2) = 25 + length (expressions root2)" "\<forall>g \<in> set (stats root2). gen_ok root2 g"
    and w: "(without_expressions root2)\<lparr>istio_dimensions := [], stats := []\<rparr> = (without_expressions root1)\<lparr>istio_dimensions := [], stats := []\<rparr>"
    using initializeDimensions_ok .
  have g: "gen_ok (root2\<lparr>initialized := True\<rparr>) = gen_ok root2" by (simp add: fun_eq_iff gen_ok_def index_ok_def)
  have f: "metrics root2 = metrics root1" "request_queue root2 = request_queue root1" "outbound root2 = outbound root1"
    using arg_cong [OF w, of metrics] arg_cong [OF w, of request_queue] arg_cong [OF w, of outbound] by (simp_all add: without_expressions_def)
  obtain milis where c: "configure L create expr_delete H data root h = Inr (True, root2, h2, acts @ [SetTickPeriod milis])"
    using i by (simp add: configure_def Some Let_def node_def [symmetric] root1_def [symmetric])
  show ?thesis
    by (rule that [of "root2\<lparr>initialized := True\<rparr>" h2 "acts @ [SetTickPeriod milis]"])
      (use Some ok f g in \<open>simp_all add: onConfigure_def c stats_ok_def inputs_ok_def root1_def\<close>)
qed

lemma initial_stats_ok: "stats_ok (initial_stats_root garbage counter is_outbound)"
  by (simp add: stats_ok_def initial_stats_root_def inputs_ok_def)

text \<open>A sequence of configurations, each with what the host says at that time.\<close>

fun configure_all :: "stats_lib \<Rightarrow> (string \<Rightarrow> 'h \<Rightarrow> WasmResult \<times> u32 \<times> 'h) \<Rightarrow> (u32 \<Rightarrow> 'h \<Rightarrow> 'h) \<Rightarrow>
    (stream_host \<times> string) list \<Rightarrow> stats_root \<times> 'h \<Rightarrow> ub + (stats_root \<times> 'h)" where
  "configure_all L create expr_delete [] st = Inr st"
| "configure_all L create expr_delete ((H, data) # cs) (root, h) =
     and_then (onConfigure L create expr_delete H data root h) (\<lambda>(_, root, h, _).
       configure_all L create expr_delete cs (root, h))"

lemma configure_all_defined:
  "stats_ok root \<Longrightarrow> \<exists>root' h'. configure_all L create expr_delete cs (root, h) = Inr (root', h') \<and> stats_ok root'"
proof (induction cs arbitrary: root h)
  case (Cons c cs)
  obtain H data where c: "c = (H, data)" by (cases c)
  obtain root1 h1 acts where "onConfigure L create expr_delete H data root h = Inr (True, root1, h1, acts)" "stats_ok root1"
    using onConfigure_ok [OF Cons.prems] by metis
  with Cons.IH [of root1 h1] show ?case by (simp add: c)
qed simp

section \<open>Tokens\<close>

definition stats_tokens :: "stats_root \<Rightarrow> u32 list" where
  "stats_tokens root = map fst (expressions root) @ int_expressions root"

text \<open>The metrics of the configuration evaluate tokens that the extension holds.\<close>

definition factories_ok :: "dim_maps \<Rightarrow> u32 list \<Rightarrow> bool" where
  "factories_ok m ts \<longleftrightarrow> (\<forall>f \<in> snd ` set (factories m). \<forall>t. extractor f = ExpressionValue t \<longrightarrow> t \<in> set ts)"

lemma factories_ok_mono: "factories_ok m ts \<Longrightarrow> snd ` set (factories m') \<subseteq> snd ` set (factories m) \<Longrightarrow> set ts \<subseteq> set ts' \<Longrightarrow> factories_ok m' ts'"
  by (fastforce simp: factories_ok_def)

lemma update_values: "snd ` set (AList.update k v xs) \<subseteq> insert v (snd ` set xs)"
  by (induction xs) auto

lemma definition_visitor_cases:
  assumes "definition_visitor create d (m, root, h) = (ok, m', root', h')"
  obtains "m' = m" "root' = root"
  | e t where "addIntExpression create e root h = (t, root', h')" "m' = m"
  | e t n ty l where "addIntExpression create e root h = (Some t, root', h')"
      "m' = m\<lparr>factories := AList.update n (metric_factory n ty (ExpressionValue t) http_grpc l False) (factories m)\<rparr>"
  using assms by (auto simp: definition_visitor_def Let_def split: if_splits prod.splits option.splits)

lemma addInt_tokens:
  assumes "addIntExpression create e root h = (t, root', h')"
  shows "set (int_expressions root) \<subseteq> set (int_expressions root')" "t = Some x \<Longrightarrow> x \<in> set (int_expressions root')"
  using assms by (auto simp: addIntExpression_def split: prod.splits if_splits)

lemma definition_factories:
  assumes "factories_ok m (int_expressions root)" "definition_visitor create d (m, root, h) = (ok, m', root', h')"
  shows "factories_ok m' (int_expressions root')"
  using assms(2)
proof (cases rule: definition_visitor_cases)
  case 1
  with assms(1) show ?thesis by simp
next
  case (2 e t)
  show ?thesis by (rule factories_ok_mono [OF assms(1)]) (use 2 addInt_tokens(1) [OF 2(1)] in simp_all)
next
  case (3 e t n ty l)
  have "factories_ok m (int_expressions root')"
    by (rule factories_ok_mono [OF assms(1)]) (use addInt_tokens(1) [OF 3(1)] in simp_all)
  moreover have "t \<in> set (int_expressions root')" using addInt_tokens(2) [OF 3(1)] by simp
  ultimately show ?thesis
    using update_values [of n "metric_factory n ty (ExpressionValue t) http_grpc l False" "factories m"]
    by (auto simp: factories_ok_def metric_factory_def 3(2) dest!: subsetD)
qed

text \<open>The overrides only drop factories, and only add string expressions.\<close>

definition shrinks :: "dim_maps \<times> stats_root \<times> 'h \<Rightarrow> dim_maps \<times> stats_root \<times> 'h \<Rightarrow> bool" where
  "shrinks st st' \<longleftrightarrow> snd ` set (factories (fst st')) \<subseteq> snd ` set (factories (fst st)) \<and>
     int_expressions (fst (snd st')) = int_expressions (fst (snd st))"

lemma shrinks_refl [simp]: "shrinks st st"
  by (simp add: shrinks_def)

lemma shrinks_trans: "shrinks a b \<Longrightarrow> shrinks b c \<Longrightarrow> shrinks a c"
  unfolding shrinks_def by (elim conjE, intro conjI, erule (1) subset_trans [rotated], simp)

lemma shrinksI: "factories m' = factories m \<Longrightarrow> int_expressions root' = int_expressions root \<Longrightarrow> shrinks (m, root, h) (m', root', h')"
  by (simp add: shrinks_def)

lemma addString_ints: "addStringExpression create input root h = (r, root', h') \<Longrightarrow> int_expressions root' = int_expressions root"
  by (auto simp: addStringExpression_def Let_def split: option.splits prod.splits if_splits)

lemma override_tags_shrinks: "shrinks st (snd (override_tags create metric name tags st))"
proof (induction tags arbitrary: st)
  case (Cons tag tags)
  obtain m root h where st: "st = (m, root, h)" by (cases st)
  obtain v d where v: "JsonValueAs_string (dimension_expression metric tag) = (v, d)" by fastforce
  obtain r root' h' where a: "addStringExpression create (the v) root h = (r, root', h')"
    by (cases "addStringExpression create (the v) root h") auto
  note i = addString_ints [OF a]
  let ?tail = "\<lambda>m'. snd (override_tags create metric name tags (m', root', h'))"
  have "shrinks (m, root, h) (?tail m')" if "factories m' = factories m" for m'
    by (rule shrinks_trans [OF shrinksI [OF that i] Cons.IH])
  then show ?case by (simp add: st v a Let_def)
qed simp

lemma override_factories_shrinks: "shrinks st (snd (override_factories create metric name tags keys st))"
proof (induction keys arbitrary: st)
  case (Cons key keys)
  obtain m root h where st: "st = (m, root, h)" by (cases st)
  obtain ok idx where r: "JsonArrayIterate metric ''tags_to_remove'' remove_visitor (metric_indexes m key) = (ok, idx)"
    by fastforce
  define m' where "m' = m\<lparr>metric_indexes := (metric_indexes m)(key := idx)\<rparr>"
  have s1: "shrinks (m, root, h) (m', root, h)" by (rule shrinksI) (simp_all add: m'_def)
  obtain ok2 m2 root2 h2 where o: "override_tags create metric key tags (m', root, h) = (ok2, m2, root2, h2)"
    by (cases "override_tags create metric key tags (m', root, h)")
  with shrinks_trans [OF s1 override_tags_shrinks [of "(m', root, h)" create metric key tags]]
  have s2: "shrinks (m, root, h) (m2, root2, h2)" by simp
  have s3: "shrinks (m, root, h) (m\<lparr>factories := AList.delete key (factories m)\<rparr>, root, h)"
    by (auto simp: shrinks_def AList.delete_eq)
  note tails = Cons.IH [of "(m, root, h)"] shrinks_trans [OF s2 Cons.IH [of "(m2, root2, h2)"]] shrinks_trans [OF s3 Cons.IH]
  show ?case
    using tails s1 s2 by (auto simp: st r o m'_def [symmetric])
qed simp

lemma metric_visitor_shrinks: "shrinks st (snd (metric_visitor create metric st))"
  using override_factories_shrinks [of st] by (simp add: metric_visitor_def Let_def split: prod.split)

lemma configured_factories:
  assumes "configured_maps L create j root h = (m, root', h')" "\<And>ys. set (traversal L ys) \<subseteq> set ys"
  shows "factories_ok m (int_expressions root')"
proof -
  let ?I = "\<lambda>st. factories_ok (fst st) (int_expressions (fst (snd st)))"
  have "extractor f \<noteq> ExpressionValue t" if "f \<in> snd ` set (factories seed_maps)" for f t
    using that by (auto simp: seed_maps_def seed_factory_def defaultMetrics_def metric_factory_def Let_def)
  then have "?I (seed_maps, root, h)" by (simp add: factories_ok_def)
  then have "?I (snd (JsonArrayIterate j ''definitions'' (definition_visitor create) (seed_maps, root, h)))"
    by (intro JsonArrayIterate_keeps [of ?I]) (metis definition_factories eq_fst_iff snd_conv)
  then obtain ok m1 root1 h1 where d: "JsonArrayIterate j ''definitions'' (definition_visitor create) (seed_maps, root, h) = (ok, m1, root1, h1)"
    and "factories_ok m1 (int_expressions root1)"
    by (cases "JsonArrayIterate j ''definitions'' (definition_visitor create) (seed_maps, root, h)") auto
  then have "?I (m1\<lparr>factories := traversal L (factories m1)\<rparr>, root1, h1)"
    using assms(2) [of "factories m1"] by (auto simp: factories_ok_def)
  then have "?I (snd (JsonArrayIterate j ''metrics'' (metric_visitor create) (m1\<lparr>factories := traversal L (factories m1)\<rparr>, root1, h1)))"
    by (intro JsonArrayIterate_keeps [of ?I]) (use metric_visitor_shrinks in \<open>fastforce simp: shrinks_def factories_ok_def\<close>)
  with assms(1) show ?thesis
    by (cases "JsonArrayIterate j ''metrics'' (metric_visitor create) (m1\<lparr>factories := traversal L (factories m1)\<rparr>, root1, h1)")
      (simp add: configured_maps_def d)
qed

context expression_service
begin

lemma owns_add_string:
  assumes "owns h base (stats_tokens root)" "addStringExpression create input root h = (r, root', h')"
  shows "owns h' base (stats_tokens root')"
proof (cases "input_expressions root input")
  case None
  obtain s t h1 where c: "create input h = (s, t, h1)" by (cases "create input h") auto
  show ?thesis
  proof (cases "s = Ok")
    case True
    with assms None c have r: "root' = root\<lparr>input_expressions := (input_expressions root)(input \<mapsto> length (expressions root)),
          expressions := expressions root @ [(t, input)]\<rparr>" "h' = h1"
      by (auto simp: addStringExpression_def Let_def)
    have o: "owns h1 base (stats_tokens root @ [t])" using owns_create [OF assms(1)] c True by simp
    have e: "set (stats_tokens root') = set (stats_tokens root @ [t])" "distinct (stats_tokens root')"
      using o by (auto simp: r stats_tokens_def owns_def)
    show ?thesis using owns_perm [OF o e(1) e(2)] r(2) by simp
  next
    case False
    with assms None c owns_create_failed [OF assms(1), of input s t h1] show ?thesis
      by (auto simp: addStringExpression_def)
  qed
next
  case (Some i)
  with assms show ?thesis by (auto simp: addStringExpression_def)
qed

lemma owns_add_int:
  assumes "owns h base (stats_tokens root)" "addIntExpression create input root h = (r, root', h')"
  shows "owns h' base (stats_tokens root')"
proof -
  obtain s t h1 where c: "create input h = (s, t, h1)" by (cases "create input h") auto
  show ?thesis
  proof (cases "s = Ok")
    case True
    with assms c have "stats_tokens root' = stats_tokens root @ [t]" "h' = h1"
      by (auto simp: addIntExpression_def stats_tokens_def)
    with owns_create [OF assms(1)] c True show ?thesis by simp
  next
    case False
    with assms c owns_create_failed [OF assms(1), of input s t h1] show ?thesis
      by (auto simp: addIntExpression_def)
  qed
qed

lemma owns_cleanup:
  assumes "owns h base (stats_tokens root)" "cleanupExpressions expr_delete root h = (root', h')"
  shows "owns h' base (stats_tokens root')" "live h' = base" "stats_tokens root' = []"
proof -
  have "fold (\<lambda>(t, e). expr_delete t) xs h = fold expr_delete (map fst xs) h" for xs :: "(u32 \<times> string) list" and h
    by (induction xs arbitrary: h) auto
  then have "h' = fold expr_delete (stats_tokens root) h" "stats_tokens root' = []"
    using assms(2) by (auto simp: cleanupExpressions_def stats_tokens_def Let_def)
  with owns_delete_all [OF assms(1)] show "owns h' base (stats_tokens root')" "live h' = base" "stats_tokens root' = []"
    by (auto simp: owns_def)
qed

end

text \<open>With a host that keeps the contract, the extension owns its tokens throughout a configuration.\<close>

sublocale expression_service \<subseteq> owned: expression_invariant create "\<lambda>root h. owns h base (stats_tokens root)" for base
  by unfold_locales (rule owns_add_string owns_add_int; assumption)+

text \<open>The generators evaluate tokens of the extension.\<close>

definition gens_covered :: "stats_root \<Rightarrow> bool" where
  "gens_covered root \<longleftrightarrow> (\<forall>g \<in> set (stats root). \<forall>t. stat_extractor g = ExpressionValue t \<longrightarrow> t \<in> set (int_expressions root))"

lemma stat_gens_covered:
  "factories_ok m ts \<Longrightarrow> g \<in> set (map (stat_gen fs vs m) (factories m)) \<Longrightarrow> stat_extractor g = ExpressionValue t \<Longrightarrow> t \<in> set ts"
  by (force simp: factories_ok_def stat_gen_def Let_def)

context expression_service
begin

definition owned_root :: "u32 set \<Rightarrow> stats_root \<Rightarrow> 'h \<Rightarrow> bool" where
  "owned_root base root h \<longleftrightarrow> owns h base (stats_tokens root) \<and> gens_covered root"

lemma owned_initialize:
  assumes "owned_root base root h" "\<And>ys. set (traversal L ys) \<subseteq> set ys"
    and "initializeDimensions L create expr_delete j node root h = Inr (ok, root', h', acts)"
  shows "owned_root base root' h'"
proof -
  obtain root1 h1 where c: "cleanupExpressions expr_delete root h = (root1, h1)" by (cases "cleanupExpressions expr_delete root h")
  obtain m root2 h2 where m: "configured_maps L create j root1 h1 = (m, root2, h2)" by (cases "configured_maps L create j root1 h1")
  have "owns h1 base (stats_tokens root1)" using owns_cleanup(1) [OF _ c] assms(1) by (simp add: owned_root_def)
  with owned.configured_inv [OF cleanup_fields(2) [OF c], of h1 base L j] m
  have o: "owns h2 base (stats_tokens root2)" by (simp add: owned.config_inv_def)
  have f: "factories_ok m (int_expressions root2)" by (rule configured_factories [OF m assms(2)])
  obtain d s where r: "root' = root2\<lparr>istio_dimensions := d, stats := s\<rparr>" "h' = h2"
      "\<exists>fs vs. s = map (stat_gen fs vs m) (factories m)"
    using assms(3) by (auto simp: initializeDimensions_def c m Let_def and_then_def split: sum.splits)
  from r(3) f have "\<forall>g \<in> set s. \<forall>t. stat_extractor g = ExpressionValue t \<longrightarrow> t \<in> set (int_expressions root2)"
    using stat_gens_covered by blast
  with o r show ?thesis by (simp add: owned_root_def gens_covered_def stats_tokens_def)
qed

lemma owned_configure:
  assumes "owned_root base root h" "\<And>ys. set (traversal L ys) \<subseteq> set ys"
    and "onConfigure L create expr_delete H data root h = Inr (ok, root', h', acts)"
  shows "owned_root base root' h'"
proof (cases "JsonParse (jsonlib L) data")
  case None
  with assms show ?thesis
    by (auto simp: onConfigure_def configure_def Let_def owned_root_def gens_covered_def stats_tokens_def)
next
  case (Some j)
  define root1 where "root1 = root\<lparr>local_node_info := Some (extractLocalNodeFlatBuffer (flatbuf L) (strings H) (maps H)),
      use_host_header_fallback := \<not> value_or (JsonGetField JsonValueAs_bool j ''disable_host_header_fallback'') False False\<rparr>"
  obtain ok2 root2 h2 acts2 where
    i: "initializeDimensions L create expr_delete j (extractLocalNodeFlatBuffer (flatbuf L) (strings H) (maps H)) root1 h = Inr (ok2, root2, h2, acts2)"
    using assms(3) Some
    by (auto simp: onConfigure_def configure_def Let_def root1_def and_then_def split: sum.splits)
  have "owned_root base root1 h" using assms(1) by (simp add: owned_root_def gens_covered_def stats_tokens_def root1_def)
  from owned_initialize [OF this assms(2) i] have "owned_root base root2 h2" .
  moreover have "\<exists>b. root' = root2\<lparr>initialized := b\<rparr> \<and> h' = h2"
    using assms(3) Some i by (auto simp: onConfigure_def configure_def Let_def root1_def [symmetric] split: if_splits)
  ultimately show ?thesis by (auto simp: owned_root_def gens_covered_def stats_tokens_def)
qed

lemma owned_configure_all:
  assumes "\<And>ys. set (traversal L ys) \<subseteq> set ys"
  shows "owned_root base root h \<Longrightarrow> configure_all L create expr_delete cs (root, h) = Inr (root', h') \<Longrightarrow> owned_root base root' h'"
proof (induction cs arbitrary: root h)
  case (Cons c cs)
  obtain H data where c: "c = (H, data)" by (cases c)
  obtain ok root1 h1 acts where o: "onConfigure L create expr_delete H data root h = Inr (ok, root1, h1, acts)"
    using Cons.prems(2) by (auto simp: c and_then_def split: sum.splits)
  from Cons.IH [OF owned_configure [OF Cons.prems(1) assms o]] Cons.prems(2) o show ?case by (simp add: c)
qed simp

lemma owned_final:
  assumes "owned_root (live h0) root h"
  shows "distinct (stats_tokens root) \<and> set (stats_tokens root) \<inter> live h0 = {} \<and> live h = live h0 \<union> set (stats_tokens root) \<and>
     gens_covered root \<and> live (snd (snd (onDone expr_delete root h))) = live h0"
proof -
  obtain root' h' where c: "cleanupExpressions expr_delete root h = (root', h')" by (cases "cleanupExpressions expr_delete root h")
  have o: "owns h (live h0) (stats_tokens root)" and g: "gens_covered root" using assms by (simp_all add: owned_root_def)
  have "live h' = live h0" by (rule owns_cleanup(2) [OF o c])
  with o g c show ?thesis by (simp add: owns_def onDone_def)
qed

end

section \<open>Properties\<close>

text \<open>
  C15: whatever configurations are loaded one after the other, on whatever host, \<open>onConfigure\<close> returns
  true, indexes no vector out of range, and leaves a well-formed extension: the dimensions hold the
  standard labels and one string per expression; every generator has exactly one index per tag, so
  that its constructor does not abort; no tag occurs twice in a metric; an index below the standard
  labels occurs only under the name of that label, and any other lies within the dimensions.
\<close>

theorem configured_well_formed:
  "\<exists>root h. configure_all L create expr_delete confs (initial_stats_root garbage counter is_outbound, h0) = Inr (root, h) \<and>
     (initialized root \<longrightarrow> length (istio_dimensions root) = 25 + length (expressions root) \<and>
       (\<forall>g \<in> set (stats root). length (metric_tags g) = length (stat_indexes g) \<and> distinct (metric_tags g) \<and>
          (\<forall>(tag, i) \<in> set (zip (metric_tags g) (stat_indexes g)).
             i < 25 \<and> tag = defaultTags ! i \<or> 25 \<le> i \<and> i < length (istio_dimensions root)))) \<and>
     (\<forall>H data. \<exists>root' h' acts. onConfigure L create expr_delete H data root h = Inr (True, root', h', acts))"
proof -
  obtain root h where c: "configure_all L create expr_delete confs (initial_stats_root garbage counter is_outbound, h0) = Inr (root, h)"
    and ok: "stats_ok root" using configure_all_defined [OF initial_stats_ok, where cs = confs and h = h0] by metis
  moreover have "\<exists>root' h' acts. onConfigure L create expr_delete H data root h = Inr (True, root', h', acts)" for H data
    using onConfigure_ok [OF ok] by metis
  ultimately show ?thesis
    by (intro exI [of _ root] exI [of _ h]) (auto simp: stats_ok_def gen_ok_def index_ok_def)
qed


text \<open>A configuration with a metric of its own, to be counted by the value of an expression.\<close>

definition example_metric :: json where
  "example_metric = JObject [(''name'', JString ''my_metric''), (''value'', JString ''request.size'')]"

definition example_stats_config :: json where
  "example_stats_config = JObject [(''definitions'', JArray [example_metric])]"

definition example_stats_lib :: stats_lib where
  "example_stats_lib = \<lparr>flatbuf = reference_lib, strlib = \<lparr>SimpleAtoi = (\<lambda>_. (False, 0)), FromUTF8 = two_byte_decoder\<rparr>,
     jsonlib = \<lparr>json_parse = (\<lambda>_. Some example_stats_config), json_dump = (\<lambda>_. ''''), SimpleAtoi_u64 = (\<lambda>_. None),
       SimpleAtoi_i64 = (\<lambda>_. None), wild_u64 = (\<lambda>_ _. 0), wild_i64 = (\<lambda>_ _. 0)\<rparr>,
     ParseDurationMs = (\<lambda>_. None), resolveFullName = (\<lambda>ty n. of_nat (length n)), traversal = id, queue_traversal = id\<rparr>"

definition silent_host :: stream_host where
  "silent_host = \<lparr>strings = Map.empty, integers = Map.empty, bools = Map.empty, maps = Map.empty, request_header = (\<lambda>_. '''')\<rparr>"

lemma example_stats_configured:
  "\<exists>root h. configure_all example_stats_lib host_create host_delete [(silent_host, ''{}'')]
     (initial_stats_root False (\<lambda>_. 0) True, (7, {})) = Inr (root, h)"
  using configure_all_defined [OF initial_stats_ok, where cs = "[(silent_host, ''{}'')]" and h = "(7, {}) :: expr_host"
    and create = host_create and expr_delete = host_delete and L = example_stats_lib]
  by metis


theorem configured_well_formed_witness:
  "\<exists>root h. configure_all example_stats_lib host_create host_delete [(silent_host, ''{}'')]
     (initial_stats_root False (\<lambda>_. 0) True, (7, {})) = Inr (root, h) \<and>
     length (istio_dimensions root) = 25 + length (expressions root) \<and> (\<forall>g \<in> set (stats root). distinct (metric_tags g))"
proof -
  obtain root h where c: "configure_all example_stats_lib host_create host_delete [(silent_host, ''{}'')]
     (initial_stats_root False (\<lambda>_. 0) True, (7, {})) = Inr (root, h)"
    and ok: "initialized root \<longrightarrow> length (istio_dimensions root) = 25 + length (expressions root) \<and>
       (\<forall>g \<in> set (stats root). distinct (metric_tags g))"
    using configured_well_formed [where L = example_stats_lib and create = host_create and expr_delete = host_delete
        and confs = "[(silent_host, ''{}'')]" and garbage = False and counter = "\<lambda>_. 0" and is_outbound = True
        and ?h0.0 = "(7, {}) :: expr_host"] by blast
  obtain root1 h1 acts where o: "onConfigure example_stats_lib host_create host_delete silent_host ''{}''
      (initial_stats_root False (\<lambda>_. 0) True) (7, {}) = Inr (True, root1, h1, acts)"
    "initialized root1 \<longleftrightarrow> JsonParse (jsonlib example_stats_lib) ''{}'' \<noteq> None"
    using onConfigure_ok [where H = silent_host and data = "''{}''" and L = example_stats_lib
        and create = host_create and expr_delete = host_delete, OF initial_stats_ok] by metis
  have "initialized root"
    using c o by (simp add: JsonParse_def example_stats_lib_def example_stats_config_def)
  with c ok show ?thesis by blast
qed

end
