(* ===== verification/Stats_Overrides.thy ===== *)
theory Stats_Overrides
  imports Stats_Config
begin

text \<open>
  What a configuration of the statistics extension means: which metrics, with which labels, result
  from the standard configuration, and where the value of an overridden label comes from.
\<close>

section \<open>The standard configuration\<close>

text \<open>The generator of a standard metric that no configuration touches.\<close>

definition standard_stat :: "string \<Rightarrow> string \<Rightarrow> MetricFactory \<Rightarrow> StatGen" where
  "standard_stat field_sep value_sep f =
     \<lparr>stat_recurrent = recurrent f, stat_protocols = protocols f, stat_indexes = [0..<count_labels f],
      stat_extractor = extractor f, metric_type = factory_type f, metric_name = ''istio_'' @ factory_name f,
      metric_prefix = '''', metric_tags = take (count_labels f) defaultTags,
      field_separator = field_sep, value_separator = value_sep\<rparr>"

lemma indexed_tags_zip:
  assumes "\<And>k. k < length tags \<Longrightarrow> idx (tags ! k) = Some (Some k)"
  shows "indexed_tags tags idx = zip tags [0..<length tags]"
proof -
  have "indexed_tags ts idx = map (\<lambda>tag. (tag, the (the (idx tag)))) ts" if "\<forall>tag \<in> set ts. \<exists>i. idx tag = Some (Some i)" for ts
    using that by (induction ts) (auto simp: indexed_tags_def map_filter_simps)
  moreover have "\<forall>tag \<in> set tags. \<exists>i. idx tag = Some (Some i)" using assms by (metis in_set_conv_nth)
  ultimately have "indexed_tags tags idx = map (\<lambda>tag. (tag, the (the (idx tag)))) tags" by blast
  also have "\<dots> = zip tags [0..<length tags]" using assms by (intro nth_equalityI) auto
  finally show ?thesis .
qed

definition seed_index :: "nat \<Rightarrow> string \<rightharpoonup> nat option" where
  "seed_index n = fold (\<lambda>i idx. idx(defaultTags ! i \<mapsto> Some i)) [0..<n] Map.empty"

lemma seeded_index:
  assumes "k < n" "n \<le> 25"
  shows "seed_index n (defaultTags ! k) = Some (Some k)"
proof -
  have "(THE i. i < length defaultTags \<and> defaultTags ! i = defaultTags ! k) = k"
    using defaultTags assms by (intro the_equality) (auto simp: nth_eq_iff_index_eq)
  moreover have "defaultTags ! k \<in> set (take n defaultTags)"
    using assms defaultTags(2) by (auto simp: in_set_conv_nth intro!: exI [of _ k])
  ultimately show ?thesis using fold_index [of defaultTags n "defaultTags ! k"] defaultTags assms by (simp add: seed_index_def)
qed

lemma update_new: "k \<notin> fst ` set xs \<Longrightarrow> AList.update k v xs = xs @ [(k, v)]"
  by (induction xs) auto

lemma count_labels_le: "f \<in> set defaultMetrics \<Longrightarrow> count_labels f \<le> 25"
  by (auto simp: defaultMetrics_def metric_factory_def count_standard_labels_def count_peer_labels_def count_tcp_labels_def)

lemma factory_names_distinct: "distinct (map factory_name defaultMetrics)"
  by (simp add: defaultMetrics_def metric_factory_def)

text \<open>The maps the configuration starts from.\<close>

lemma fold_seed:
  "distinct (map factory_name fs) \<Longrightarrow> \<forall>f \<in> set fs. factory_name f \<notin> fst ` set (factories m) \<and> metric_indexes m (factory_name f) = Map.empty \<Longrightarrow>
   factories (fold seed_factory fs m) = factories m @ map (\<lambda>f. (factory_name f, f)) fs \<and>
   (\<forall>f \<in> set fs. metric_tag_lists (fold seed_factory fs m) (factory_name f) = take (count_labels f) defaultTags \<and>
      metric_indexes (fold seed_factory fs m) (factory_name f) =
        seed_index (count_labels f)) \<and>
   (\<forall>name. name \<notin> factory_name ` set fs \<longrightarrow> metric_tag_lists (fold seed_factory fs m) name = metric_tag_lists m name \<and>
      metric_indexes (fold seed_factory fs m) name = metric_indexes m name)"
proof (induction fs arbitrary: m)
  case (Cons f fs)
  define m1 where "m1 = seed_factory f m"
  have f: "factory_name f \<notin> factory_name ` set fs" using Cons.prems(1) by auto
  have m1: "factories m1 = factories m @ [(factory_name f, f)]" "metric_tag_lists m1 = (metric_tag_lists m)(factory_name f := take (count_labels f) defaultTags)"
    "metric_indexes m1 = (metric_indexes m)(factory_name f := seed_index (count_labels f))"
    using Cons.prems(2) by (simp_all add: m1_def seed_factory_def seed_index_def Let_def update_new)
  have "\<forall>g \<in> set fs. factory_name g \<notin> fst ` set (factories m1) \<and> metric_indexes m1 (factory_name g) = Map.empty"
    using Cons.prems(2) f by (auto simp: m1) (metis imageI)
  note ih = Cons.IH [OF _ this]
  show ?case using ih Cons.prems(1) f by (auto simp: m1_def [symmetric] m1)
qed simp

lemma seed_maps_eq:
  "factories seed_maps = map (\<lambda>f. (factory_name f, f)) defaultMetrics"
  "f \<in> set defaultMetrics \<Longrightarrow> metric_tag_lists seed_maps (factory_name f) = take (count_labels f) defaultTags"
  "f \<in> set defaultMetrics \<Longrightarrow> metric_indexes seed_maps (factory_name f) =
     seed_index (count_labels f)"
  "name \<notin> factory_name ` set defaultMetrics \<Longrightarrow> metric_indexes seed_maps name = Map.empty"
  using fold_seed [OF factory_names_distinct, of "\<lparr>factories = [], metric_tag_lists = \<lambda>_. [], metric_indexes = \<lambda>_. Map.empty\<rparr>"]
  unfolding seed_maps_def by simp_all

lemma standard_stat_gen:
  assumes "f \<in> set defaultMetrics" "metric_tag_lists m = metric_tag_lists seed_maps" "metric_indexes m = metric_indexes seed_maps"
  shows "stat_gen field_sep value_sep m (factory_name f, f) = standard_stat field_sep value_sep f"
proof -
  note le = count_labels_le [OF assms(1)]
  have l: "length (take (count_labels f) defaultTags) = count_labels f" using le defaultTags(2) by simp
  have "indexed_tags (take (count_labels f) defaultTags) (seed_index (count_labels f)) =
      zip (take (count_labels f) defaultTags) [0..<count_labels f]"
    using indexed_tags_zip [of "take (count_labels f) defaultTags"] seeded_index [OF _ le] l by auto
  then show ?thesis
    using l by (simp add: stat_gen_def standard_stat_def Let_def assms(2,3) seed_maps_eq(2,3) [OF assms(1)])
qed

text \<open>A configuration without definitions and overrides leaves these maps as they are.\<close>

lemma configured_maps_standard:
  "json_find j ''definitions'' = None \<Longrightarrow> json_find j ''metrics'' = None \<Longrightarrow>
   configured_maps L create j root h = (seed_maps\<lparr>factories := traversal L (factories seed_maps)\<rparr>, root, h)"
  by (simp add: configured_maps_def JsonArrayIterate_def)

lemma onConfigure_stats:
  assumes "JsonParse (jsonlib L) data = Some j" "onConfigure L create expr_delete H data root h = Inr (ok, root', h', acts)"
  obtains root0 h0 m root1 h1 where "configured_maps L create j root0 h0 = (m, root1, h1)"
    "expressions root0 = []" "inputs_ok root0" "initialized root'" "expressions root' = expressions root1"
    "stats root' = map (stat_gen (value_or (JsonGetField JsonValueAs_string j ''field_separator'') '''' '';.;'')
       (value_or (JsonGetField JsonValueAs_string j ''value_separator'') '''' ''=.='') m) (factories m)"
proof -
  define root2 where "root2 = root\<lparr>local_node_info := Some (extractLocalNodeFlatBuffer (flatbuf L) (strings H) (maps H)),
      use_host_header_fallback := \<not> value_or (JsonGetField JsonValueAs_bool j ''disable_host_header_fallback'') False False\<rparr>"
  obtain root0 h0 where c: "cleanupExpressions expr_delete root2 h = (root0, h0)" by (cases "cleanupExpressions expr_delete root2 h")
  obtain m root1 h1 where m: "configured_maps L create j root0 h0 = (m, root1, h1)" by (cases "configured_maps L create j root0 h0")
  let ?stats = "map (stat_gen (value_or (JsonGetField JsonValueAs_string j ''field_separator'') '''' '';.;'')
      (value_or (JsonGetField JsonValueAs_string j ''value_separator'') '''' ''=.='') m) (factories m)"
  let ?node = "extractLocalNodeFlatBuffer (flatbuf L) (strings H) (maps H)"
  obtain ok3 root3 h3 acts3 where i: "initializeDimensions L create expr_delete j ?node root2 h = Inr (ok3, root3, h3, acts3)"
    using assms(2) by (auto simp: onConfigure_def configure_def assms(1) Let_def root2_def and_then_def split: sum.splits)
  have r3: "ok3" "expressions root3 = expressions root1" "stats root3 = ?stats"
    using i by (auto simp: initializeDimensions_def c m Let_def and_then_def split: sum.splits)
  then have "root' = root3\<lparr>initialized := True\<rparr>"
    using assms(2) i by (simp add: onConfigure_def configure_def assms(1) Let_def root2_def [symmetric])
  with r3 show ?thesis
    using cleanup_fields [OF c] by (intro that [OF m]) (simp_all add: without_expressions_def)
qed

section \<open>Properties\<close>

text \<open>
  C23: a configuration without definitions and overrides yields exactly the standard metrics, each
  once, with its extractor and type, for its protocols, labelled with the standard labels up to its
  number of them (all 25 for requests, the 20 of the peers for messages, 23 for TCP), the value of a
  label taken from the dimension of the same position, and with the configured separators, \<open>;.;\<close> and
  \<open>=.=\<close> if there are none.
\<close>

theorem standard_configuration:
  assumes "JsonParse (jsonlib L) data = Some j" "json_find j ''definitions'' = None" "json_find j ''metrics'' = None"
    and "\<And>ys. set (traversal L ys) \<subseteq> set ys"
    and "onConfigure L create expr_delete H data root h = Inr (ok, root', h', acts)"
  shows "initialized root' \<and>
    stats root' = map (\<lambda>(name, f). \<lparr>stat_recurrent = recurrent f, stat_protocols = protocols f, stat_indexes = [0..<count_labels f],
        stat_extractor = extractor f, metric_type = factory_type f, metric_name = ''istio_'' @ factory_name f,
        metric_prefix = '''', metric_tags = take (count_labels f) defaultTags,
        field_separator = value_or (JsonGetField JsonValueAs_string j ''field_separator'') '''' '';.;'',
        value_separator = value_or (JsonGetField JsonValueAs_string j ''value_separator'') '''' ''=.=''\<rparr>)
      (traversal L (map (\<lambda>f. (factory_name f, f)) defaultMetrics))"
proof -
  obtain root0 h0 m root1 h1 where m: "configured_maps L create j root0 h0 = (m, root1, h1)" and i: "initialized root'"
    and s: "stats root' = map (stat_gen (value_or (JsonGetField JsonValueAs_string j ''field_separator'') '''' '';.;'')
       (value_or (JsonGetField JsonValueAs_string j ''value_separator'') '''' ''=.='') m) (factories m)"
    using onConfigure_stats [OF assms(1,5)] by metis
  have m1: "m = seed_maps\<lparr>factories := traversal L (map (\<lambda>f. (factory_name f, f)) defaultMetrics)\<rparr>"
    using m configured_maps_standard [OF assms(2,3), of L create root0 h0] by (simp add: seed_maps_eq(1))
  have "stat_gen fs vs m entry = standard_stat fs vs (snd entry)" if "entry \<in> set (factories m)" for fs vs entry
  proof -
    have "entry \<in> set (map (\<lambda>f. (factory_name f, f)) defaultMetrics)" using that subsetD [OF assms(4)] by (fastforce simp: m1)
    then obtain f where "f \<in> set defaultMetrics" "entry = (factory_name f, f)" by auto
    then show ?thesis using standard_stat_gen [of f m fs vs] by (simp add: m1)
  qed
  then show ?thesis using i s by (auto simp: m1 standard_stat_def)
qed

definition standard_lib :: stats_lib where
  "standard_lib = example_stats_lib\<lparr>jsonlib := (jsonlib example_stats_lib)\<lparr>json_parse := \<lambda>_. Some (JObject [])\<rparr>\<rparr>"

lemma standard_lib_facts:
  "JsonParse (jsonlib standard_lib) data = Some (JObject [])" "set (traversal standard_lib ys) \<subseteq> set ys"
  "traversal standard_lib ys = ys" "set (queue_traversal standard_lib q) \<subseteq> set q"
  by (simp_all add: standard_lib_def example_stats_lib_def JsonParse_def)

theorem standard_configuration_witness:
  "\<exists>root' h' acts. onConfigure standard_lib host_create host_delete silent_host ''{}'' (initial_stats_root False (\<lambda>_. 0) True) (7, {}) =
       Inr (True, root', h', acts) \<and> length (stats root') = 10 \<and>
     metric_name (stats root' ! 6) = ''istio_tcp_sent_bytes_total'' \<and> stat_indexes (stats root' ! 6) = [0..<23]"
proof -
  obtain root' h' acts where c: "onConfigure standard_lib host_create host_delete silent_host ''{}''
      (initial_stats_root False (\<lambda>_. 0) True) (7, {}) = Inr (True, root', h', acts)"
    using onConfigure_ok [OF initial_stats_ok] by metis
  from standard_configuration [OF standard_lib_facts(1) _ _ standard_lib_facts(2) c]
  have "length (stats root') = 10 \<and> metric_name (stats root' ! 6) = ''istio_tcp_sent_bytes_total'' \<and> stat_indexes (stats root' ! 6) = [0..<23]"
    by (simp add: standard_lib_facts(3) defaultMetrics_def metric_factory_def count_tcp_labels_def del: upt_Suc upt_conv_Cons_Cons upt_rec_numeral)
  with c show ?thesis by blast
qed

section \<open>Where an overridden label comes from\<close>

text \<open>The elements of the configuration's array of overrides, and the metrics an element applies to.\<close>

definition override_elements :: "json \<Rightarrow> json list" where
  "override_elements j = (case array_field j ''metrics'' of Some elts \<Rightarrow> elts | None \<Rightarrow> [])"

definition applies_to :: "json \<Rightarrow> string \<Rightarrow> bool" where
  "applies_to metric key \<longleftrightarrow> (let name = value_or (JsonGetField JsonValueAs_string metric ''name'') '''' '''' in name = '''' \<or> name = key)"

text \<open>
  A label of a metric whose index lies behind the standard ones has been given an expression by an
  element that applies to the metric, and the index is that of this expression.
\<close>

definition from_override :: "json list \<Rightarrow> stats_root \<Rightarrow> string \<Rightarrow> string \<Rightarrow> nat \<Rightarrow> bool" where
  "from_override elts root key tag i \<longleftrightarrow> (\<exists>metric \<in> set elts. \<exists>e. applies_to metric key \<and>
     dimension_expression metric tag = JString e \<and> i < length (expressions root) \<and> snd (expressions root ! i) = e)"

definition provenance :: "json list \<Rightarrow> dim_maps \<Rightarrow> stats_root \<Rightarrow> bool" where
  "provenance elts m root \<longleftrightarrow> (\<forall>key tag i. metric_indexes m key tag = Some (Some i) \<longrightarrow> 25 \<le> i \<longrightarrow>
     from_override elts root key tag (i - 25))"

definition grows :: "stats_root \<Rightarrow> stats_root \<Rightarrow> bool" where
  "grows root root' \<longleftrightarrow> (\<exists>es. expressions root' = expressions root @ es)"

lemma from_override_grows: "from_override elts root key tag i \<Longrightarrow> grows root root' \<Longrightarrow> from_override elts root' key tag i"
  by (force simp: from_override_def grows_def nth_append)

lemma provenance_grows: "provenance elts m root \<Longrightarrow> grows root root' \<Longrightarrow> provenance elts m root'"
  unfolding provenance_def using from_override_grows by blast

lemma addStringExpression_grows:
  assumes "addStringExpression create input root h = (r, root', h')" "inputs_ok root"
  shows "grows root root'" "r = Some i \<Longrightarrow> i < length (expressions root') \<and> snd (expressions root' ! i) = input"
  using assms by (auto simp: addStringExpression_def grows_def inputs_ok_def Let_def split: option.splits prod.splits if_splits)

lemma override_tags_provenance:
  "metric \<in> set elts \<Longrightarrow> applies_to metric key \<Longrightarrow> provenance elts (fst st) (fst (snd st)) \<Longrightarrow> inputs_ok (fst (snd st)) \<Longrightarrow>
   provenance elts (fst (snd (override_tags create metric key tags st))) (fst (snd (snd (override_tags create metric key tags st)))) \<and>
   inputs_ok (fst (snd (snd (override_tags create metric key tags st)))) \<and>
   factories (fst (snd (override_tags create metric key tags st))) = factories (fst st)"
proof (induction tags arbitrary: st)
  case (Cons tag tags)
  obtain m root h where st: "st = (m, root, h)" by (cases st)
  show ?case
  proof (cases "string_of_json (dimension_expression metric tag)")
    case None
    with Cons.prems show ?thesis by (simp add: st JsonValueAs_string_eq)
  next
    case (Some e)
    then have d: "dimension_expression metric tag = JString e" by (cases "dimension_expression metric tag") auto
    obtain r root' h' where a: "addStringExpression create e root h = (r, root', h')"
      by (cases "addStringExpression create e root h") auto
    note g = addStringExpression_grows [OF a Cons.prems(4) [unfolded st, simplified]]
    have ok: "inputs_ok root'" using addStringExpression_extends(1) [OF a] Cons.prems(4) by (simp add: st extends_def)
    define m' where "m' = (if metric_indexes m key tag \<noteq> None then m
        else m\<lparr>metric_tag_lists := (metric_tag_lists m)(key := metric_tag_lists m key @ [tag])\<rparr>)"
    let ?idx = "(metric_indexes m key)(tag \<mapsto> map_option (\<lambda>i. count_standard_labels + i) r)"
    have new: "from_override elts root' key tag i" if "r = Some i" for i
      using g(2) [OF that] d Cons.prems(1,2) by (auto simp: from_override_def)
    have "provenance elts m root'" using provenance_grows [OF _ g(1)] Cons.prems(3) by (simp add: st)
    with new have "provenance elts (m'\<lparr>metric_indexes := (metric_indexes m)(key := ?idx)\<rparr>) root'"
      by (auto simp: provenance_def count_standard_labels_def)
    from Cons.IH [OF Cons.prems(1,2), of "(m'\<lparr>metric_indexes := (metric_indexes m)(key := ?idx)\<rparr>, root', h')"] this ok
    show ?thesis by (cases "metric_indexes m key tag") (simp_all add: st JsonValueAs_string_eq Some a Let_def m'_def)
  qed
qed simp

definition provenance_inv :: "json list \<Rightarrow> dim_maps \<times> stats_root \<times> 'h \<Rightarrow> bool" where
  "provenance_inv elts st \<longleftrightarrow> provenance elts (fst st) (fst (snd st)) \<and> inputs_ok (fst (snd st)) \<and>
     (\<forall>(key, f) \<in> set (factories (fst st)). factory_name f = key)"

lemma override_factories_provenance:
  "metric \<in> set elts \<Longrightarrow> name = value_or (JsonGetField JsonValueAs_string metric ''name'') '''' '''' \<Longrightarrow> provenance_inv elts st \<Longrightarrow>
   provenance_inv elts (snd (override_factories create metric name tags keys st))"
proof (induction keys arbitrary: st)
  case (Cons key keys)
  obtain m root h where st: "st = (m, root, h)" by (cases st)
  show ?case
  proof (cases "name \<noteq> '''' \<and> name \<noteq> key")
    case True
    with Cons show ?thesis by (simp add: st)
  next
    case False
    then have app: "applies_to metric key" using Cons.prems(2) by (auto simp: applies_to_def)
    obtain ok idx where r: "JsonArrayIterate metric ''tags_to_remove'' remove_visitor (metric_indexes m key) = (ok, idx)" by fastforce
    define m' where "m' = m\<lparr>metric_indexes := (metric_indexes m)(key := idx)\<rparr>"
    have inv: "provenance_inv elts (m', root, h)"
      using Cons.prems(3) remove_visitor_inv [OF r] by (auto simp: provenance_inv_def provenance_def m'_def st)
    have drop: "provenance_inv elts (m\<lparr>factories := AList.delete key (factories m)\<rparr>, root, h)"
      using Cons.prems(3) by (auto simp: provenance_inv_def provenance_def st AList.delete_eq)
    obtain ok2 m2 root2 h2 where o: "override_tags create metric key tags (m', root, h) = (ok2, m2, root2, h2)"
      by (cases "override_tags create metric key tags (m', root, h)")
    have inv2: "provenance_inv elts (m2, root2, h2)"
      using override_tags_provenance [OF Cons.prems(1) app, of "(m', root, h)" create tags] inv o by (simp add: provenance_inv_def)
    from False show ?thesis
      using Cons.IH [OF Cons.prems(1,2)] inv inv2 drop by (auto simp: st r o m'_def [symmetric])
  qed
qed simp

lemma visit_all_keeps_in:
  "\<forall>elt \<in> set elts. \<forall>s. I s \<longrightarrow> I (snd (visitor elt s)) \<Longrightarrow> I s \<Longrightarrow> I (snd (visit_all visitor elts s))"
proof (induction elts arbitrary: s)
  case (Cons elt elts)
  then have "I (snd (visitor elt s))" by simp
  with Cons show ?case by (cases "visitor elt s") auto
qed simp

lemma JsonArrayIterate_keeps_in:
  "\<forall>elt \<in> set (override_elements j). \<forall>s. I s \<longrightarrow> I (snd (visitor elt s)) \<Longrightarrow> I s \<Longrightarrow> I (snd (JsonArrayIterate j ''metrics'' visitor s))"
  using visit_all_keeps_in [of _ I visitor s] by (simp add: JsonArrayIterate_eq override_elements_def split: option.split)

lemma metric_visitor_provenance:
  "metric \<in> set elts \<Longrightarrow> provenance_inv elts st \<Longrightarrow> provenance_inv elts (snd (metric_visitor create metric st))"
  by (auto simp: metric_visitor_def Let_def intro!: override_factories_provenance [OF _ refl] split: prod.split)

lemma set_update_cases: "x \<in> set (AList.update k v xs) \<Longrightarrow> x = (k, v) \<or> x \<in> set xs"
  by (induction xs) (auto split: if_splits)

lemma definition_visitor_provenance:
  assumes "provenance_inv elts st"
  shows "provenance_inv elts (snd (definition_visitor create d st))"
proof -
  obtain m root h where st: "st = (m, root, h)" by (cases st)
  obtain ok m' root' h' where v: "definition_visitor create d (m, root, h) = (ok, m', root', h')"
    by (cases "definition_visitor create d (m, root, h)")
  have p: "provenance elts m root" "inputs_ok root" "\<forall>(key, f) \<in> set (factories m). factory_name f = key"
    using assms by (simp_all add: provenance_inv_def st)
  have int: "provenance elts m root1" "inputs_ok root1" if "addIntExpression create e root h = (t, root1, h1)" for e t root1 h1
    using that p by (auto simp: addIntExpression_def provenance_def from_override_def inputs_ok_def split: prod.splits if_splits)
  from v have "provenance_inv elts (m', root', h')"
  proof (cases rule: definition_visitor_cases)
    case 1
    with p show ?thesis by (simp add: provenance_inv_def)
  next
    case (2 e t)
    with p int [OF 2(1)] show ?thesis by (simp add: provenance_inv_def)
  next
    case (3 e t n ty l)
    have "\<forall>(key, f) \<in> set (factories m'). factory_name f = key"
      using p(3) by (auto simp: 3(2) metric_factory_def dest!: set_update_cases)
    with int [OF 3(1)] show ?thesis by (simp add: provenance_inv_def provenance_def 3(2))
  qed
  then show ?thesis by (simp add: st v)
qed

lemma configured_provenance:
  assumes "configured_maps L create j root h = (m, root', h')" "inputs_ok root" "\<And>ys. set (traversal L ys) \<subseteq> set ys"
  shows "provenance_inv (override_elements j) (m, root', h')"
proof -
  let ?I = "provenance_inv (override_elements j)"
  have "\<not> 25 \<le> i" if "metric_indexes seed_maps key tag = Some (Some i)" for key tag i
  proof -
    have k: "key \<in> factory_name ` set defaultMetrics"
      using that seed_maps_eq(4) [of key] by (cases "key \<in> factory_name ` set defaultMetrics") simp_all
    then obtain f where f: "f \<in> set defaultMetrics" "key = factory_name f" by blast
    with that have "seed_index (count_labels f) tag = Some (Some i)" by (simp add: seed_maps_eq(3))
    from fold_index_ok [OF count_labels_le [OF f(1)] this [unfolded seed_index_def]] show ?thesis by simp
  qed
  then have "?I (seed_maps, root, h)"
    using assms(2) by (auto simp: provenance_inv_def provenance_def seed_maps_eq(1))
  then have "?I (snd (JsonArrayIterate j ''definitions'' (definition_visitor create) (seed_maps, root, h)))"
    by (intro JsonArrayIterate_keeps [of ?I] definition_visitor_provenance)
  then obtain ok m1 root1 h1 where d: "JsonArrayIterate j ''definitions'' (definition_visitor create) (seed_maps, root, h) = (ok, m1, root1, h1)"
    and "?I (m1, root1, h1)"
    by (cases "JsonArrayIterate j ''definitions'' (definition_visitor create) (seed_maps, root, h)") auto
  then have "?I (m1\<lparr>factories := traversal L (factories m1)\<rparr>, root1, h1)"
    using assms(3) [of "factories m1"] by (auto simp: provenance_inv_def provenance_def)
  then have "?I (snd (JsonArrayIterate j ''metrics'' (metric_visitor create) (m1\<lparr>factories := traversal L (factories m1)\<rparr>, root1, h1)))"
    using metric_visitor_provenance [of _ "override_elements j"] by (intro JsonArrayIterate_keeps_in [where I = ?I]) blast+
  with assms(1) show ?thesis
    by (cases "JsonArrayIterate j ''metrics'' (metric_visitor create) (m1\<lparr>factories := traversal L (factories m1)\<rparr>, root1, h1)")
      (simp add: configured_maps_def d)
qed


section \<open>Removing labels and dropping metrics\<close>

definition remove_tags :: "string list \<Rightarrow> (string \<rightharpoonup> nat option) \<Rightarrow> string \<rightharpoonup> nat option" where
  "remove_tags ts idx = (\<lambda>tag. if tag \<in> set ts \<and> idx tag \<noteq> None then Some None else idx tag)"

lemma remove_visitor_all:
  "visit_all remove_visitor (map JString ts) idx = (True, remove_tags ts idx)"
proof (induction ts arbitrary: idx)
  case (Cons t ts)
  have "remove_visitor (JString t) idx = (True, if idx t \<noteq> None then idx(t \<mapsto> None) else idx)"
    by (simp add: remove_visitor_def JsonValueAs_string_eq)
  moreover have "remove_tags ts (if idx t \<noteq> None then idx(t \<mapsto> None) else idx) = remove_tags (t # ts) idx"
    by (auto simp: remove_tags_def fun_eq_iff)
  ultimately show ?case using Cons by simp
qed (simp add: remove_tags_def fun_eq_iff)

lemma remove_tags_idem [simp]: "remove_tags ts (remove_tags ts idx) = remove_tags ts idx"
  by (auto simp: remove_tags_def fun_eq_iff)

lemma override_factories_removal:
  assumes "json_find metric ''tags_to_remove'' = Some (JArray (map JString ts))"
    and "b = value_or (JsonGetField JsonValueAs_bool metric ''drop'') False False"
  shows "\<exists>m'. override_factories create metric name [] keys (m, root, h) = (True, m', root, h) \<and>
    factories m' = filter (\<lambda>(k, f). \<not> (b \<and> k \<in> set keys \<and> (name = '''' \<or> name = k))) (factories m) \<and>
    metric_tag_lists m' = metric_tag_lists m \<and>
    metric_indexes m' = (\<lambda>k. if \<not> b \<and> k \<in> set keys \<and> (name = '''' \<or> name = k) then remove_tags ts (metric_indexes m k) else metric_indexes m k)"
proof (induction keys arbitrary: m)
  case (Cons key keys)
  consider "name \<noteq> ''''" "name \<noteq> key" | "name = '''' \<or> name = key" b | "name = '''' \<or> name = key" "\<not> b" by blast
  then show ?case
  proof cases
    case 1
    then show ?thesis using Cons [of m] by (auto simp: fun_eq_iff intro!: filter_cong)
  next
    case 2
    with Cons [of "m\<lparr>factories := AList.delete key (factories m)\<rparr>"] assms(2) show ?thesis
      by (auto simp: AList.delete_eq intro!: filter_cong)
  next
    case 3
    have r: "JsonArrayIterate metric ''tags_to_remove'' remove_visitor idx = (True, remove_tags ts idx)" for idx
      using assms(1) remove_visitor_all by (simp add: JsonArrayIterate_def)
    with 3 Cons [of "m\<lparr>metric_indexes := (metric_indexes m)(key := remove_tags ts (metric_indexes m key))\<rparr>"] assms(2) show ?thesis
      by (auto simp: fun_eq_iff)
  qed
qed simp

lemma indexed_tags_remove: "indexed_tags tags (remove_tags ts idx) = filter (\<lambda>(t, i). t \<notin> set ts) (indexed_tags tags idx)"
  by (induction tags) (auto simp: indexed_tags_def remove_tags_def map_filter_simps split: option.splits)

lemma indexed_tags_seed:
  assumes "n \<le> 25"
  shows "indexed_tags (take n defaultTags) (seed_index n) = map (\<lambda>i. (defaultTags ! i, i)) [0..<n]"
proof -
  have l: "length (take n defaultTags) = n" using assms defaultTags(2) by simp
  have "indexed_tags (take n defaultTags) (seed_index n) = zip (take n defaultTags) [0..<n]"
    using indexed_tags_zip [of "take n defaultTags"] seeded_index [OF _ assms] l by auto
  also have "\<dots> = map (\<lambda>i. (defaultTags ! i, i)) [0..<n]" using l by (intro nth_equalityI) auto
  finally show ?thesis .
qed

lemma metric_visitor_removal:
  assumes "json_find metric ''dimensions'' = None" "json_find metric ''tags_to_remove'' = Some (JArray (map JString ts))"
    and "b = value_or (JsonGetField JsonValueAs_bool metric ''drop'') False False"
  shows "\<exists>m'. metric_visitor create metric (m, root, h) = (True, m', root, h) \<and>
    factories m' = filter (\<lambda>(k, f). \<not> (b \<and> applies_to metric k)) (factories m) \<and>
    metric_tag_lists m' = metric_tag_lists m \<and>
    (\<forall>k \<in> fst ` set (factories m). metric_indexes m' k =
       (if \<not> b \<and> applies_to metric k then remove_tags ts (metric_indexes m k) else metric_indexes m k))"
proof -
  let ?name = "value_or (JsonGetField JsonValueAs_string metric ''name'') '''' ''''" and ?keys = "map fst (factories m)"
  obtain m' where m': "override_factories create metric ?name [] ?keys (m, root, h) = (True, m', root, h)"
    "factories m' = filter (\<lambda>(k, f). \<not> (b \<and> k \<in> set ?keys \<and> (?name = '''' \<or> ?name = k))) (factories m)"
    "metric_tag_lists m' = metric_tag_lists m"
    "metric_indexes m' = (\<lambda>k. if \<not> b \<and> k \<in> set ?keys \<and> (?name = '''' \<or> ?name = k) then remove_tags ts (metric_indexes m k) else metric_indexes m k)"
    using override_factories_removal [OF assms(2,3), of create ?name ?keys m root h] by (elim exE conjE)
  have "factories m' = filter (\<lambda>(k, f). \<not> (b \<and> applies_to metric k)) (factories m)"
    unfolding m'(2) by (rule filter_cong) (force simp: applies_to_def Let_def)+
  with m' assms(1) show ?thesis by (auto simp: metric_visitor_def JsonObjectIterate_def applies_to_def Let_def)
qed

text \<open>
  C20: what an element of the overrides does that removes labels or drops metrics, and defines no
  labels: dropped metrics have no generator; a metric the element applies to keeps, of its standard
  labels, exactly those that are not to be removed, in their order and each with its own dimension;
  and every other metric is the standard one.
\<close>

theorem removal_configuration:
  assumes "JsonParse (jsonlib L) data = Some j" "json_find j ''definitions'' = None" "json_find j ''metrics'' = Some (JArray [metric])"
    and "json_find metric ''dimensions'' = None" "json_find metric ''tags_to_remove'' = Some (JArray (map JString ts))"
    and "\<And>ys. set (traversal L ys) \<subseteq> set ys"
    and "onConfigure L create expr_delete H data root h = Inr (ok, root', h', acts)"
    and "dropped = value_or (JsonGetField JsonValueAs_bool metric ''drop'') False False"
  shows "map (\<lambda>g. (metric_name g, metric_tags g, stat_indexes g)) (stats root') =
    map (\<lambda>(k, f).
        let kept = filter (\<lambda>i. \<not> (applies_to metric k \<and> defaultTags ! i \<in> set ts)) [0..<count_labels f]
        in (''istio_'' @ factory_name f, map (\<lambda>i. defaultTags ! i) kept, kept))
      (filter (\<lambda>(k, f). \<not> (dropped \<and> applies_to metric k)) (traversal L (map (\<lambda>f. (factory_name f, f)) defaultMetrics)))"
proof -
  let ?m0 = "seed_maps\<lparr>factories := traversal L (map (\<lambda>f. (factory_name f, f)) defaultMetrics)\<rparr>"
  obtain root0 h0 m root1 h1 where m: "configured_maps L create j root0 h0 = (m, root1, h1)"
    and s: "stats root' = map (stat_gen (value_or (JsonGetField JsonValueAs_string j ''field_separator'') '''' '';.;'')
       (value_or (JsonGetField JsonValueAs_string j ''value_separator'') '''' ''=.='') m) (factories m)"
    using onConfigure_stats [OF assms(1,7)] by metis
  obtain m' where v: "metric_visitor create metric (?m0, root0, h0) = (True, m', root0, h0)"
    "factories m' = filter (\<lambda>(k, f). \<not> (dropped \<and> applies_to metric k)) (factories ?m0)"
    "metric_tag_lists m' = metric_tag_lists ?m0"
    "\<forall>k \<in> fst ` set (factories ?m0). metric_indexes m' k =
       (if \<not> dropped \<and> applies_to metric k then remove_tags ts (metric_indexes ?m0 k) else metric_indexes ?m0 k)"
    using metric_visitor_removal [OF assms(4,5,8), of create ?m0 root0 h0] by (elim exE conjE)
  have [simp]: "m = m'"
    using m assms(2,3) v(1) by (simp add: configured_maps_def JsonArrayIterate_def seed_maps_eq(1))
  have gen: "(metric_name g, metric_tags g, stat_indexes g) =
      (let kept = filter (\<lambda>i. \<not> (applies_to metric k \<and> defaultTags ! i \<in> set ts)) [0..<count_labels f]
       in (''istio_'' @ factory_name f, map (\<lambda>i. defaultTags ! i) kept, kept))"
    if "(k, f) \<in> set (factories m')" "g = stat_gen fs vs m' (k, f)" for fs vs k f g
  proof -
    have a: "(k, f) \<in> set (traversal L (map (\<lambda>f. (factory_name f, f)) defaultMetrics))" "\<not> (dropped \<and> applies_to metric k)"
      using that(1) by (simp_all add: v(2))
    then have f: "f \<in> set defaultMetrics" "k = factory_name f"
      using subsetD [OF assms(6) a(1)] by auto
    have "metric_indexes m' k = (if applies_to metric k then remove_tags ts (seed_index (count_labels f)) else seed_index (count_labels f))"
      using v(4) a f by (force simp: seed_maps_eq(3))
    moreover have "metric_tag_lists m' k = take (count_labels f) defaultTags" using v(3) f by (simp add: seed_maps_eq(2))
    ultimately show ?thesis
      using indexed_tags_seed [OF count_labels_le [OF f(1)]]
      by (simp add: that(2) stat_gen_def Let_def indexed_tags_remove filter_map comp_def)
  qed
  show ?thesis unfolding s map_map comp_def using gen by (auto simp: v(2))
qed

section \<open>Examples\<close>

lemma set_indexed_tags: "(tag, i) \<in> set (indexed_tags tags idx) \<longleftrightarrow> tag \<in> set tags \<and> idx tag = Some (Some i)"
  by (induction tags) (auto simp: indexed_tags_def map_filter_simps split: option.splits)

text \<open>One metric gets a label of its own; and one loses a label.\<close>

definition label_override :: json where
  "label_override = JObject [(''name'', JString ''requests_total''), (''dimensions'', JObject [(''my'', JString ''request.host'')])]"

definition removal_override :: json where
  "removal_override = JObject [(''name'', JString ''requests_total''), (''tags_to_remove'', JArray (map JString [''source_app'']))]"

definition lib_parsing :: "json \<Rightarrow> stats_lib" where
  "lib_parsing j = example_stats_lib\<lparr>jsonlib := (jsonlib example_stats_lib)\<lparr>json_parse := \<lambda>_. Some j\<rparr>\<rparr>"

lemma lib_parsing_facts:
  "JsonParse (jsonlib (lib_parsing (JObject kvs))) data = Some (JObject kvs)" "set (traversal (lib_parsing j) ys) \<subseteq> set ys"
  "traversal (lib_parsing j) ys = ys"
  by (simp_all add: lib_parsing_def example_stats_lib_def JsonParse_def)

lemma seed_first:
  "metric_tag_lists seed_maps ''requests_total'' = defaultTags" "metric_indexes seed_maps ''requests_total'' = seed_index 25"
  using seed_maps_eq(2,3) [of "hd defaultMetrics"] defaultTags(2)
  by (simp_all add: defaultMetrics_def metric_factory_def count_standard_labels_def)

lemma seed_index_my: "seed_index 25 ''my'' = None"
  using fold_index [of defaultTags 25 "''my''"] defaultTags by (simp add: seed_index_def) (simp add: defaultTags_def STD_ISTIO_DIMENSIONS_def)

abbreviation ready_create :: "string \<Rightarrow> unit \<Rightarrow> WasmResult \<times> u32 \<times> unit" where
  "ready_create \<equiv> \<lambda>e h. (Ok, 5, h)"

abbreviation label_config :: json where
  "label_config \<equiv> JObject [(''metrics'', JArray [label_override])]"

lemma label_override_visited:
  assumes "configured_maps (lib_parsing label_config) ready_create label_config root0 h0 = (m, root1, h1)"
    and "expressions root0 = []" "inputs_ok root0"
  shows "\<exists>f. (''requests_total'', f) \<in> set (factories m) \<and> (''my'', 25) \<in> set (indexed_tags (metric_tag_lists m ''requests_total'') (metric_indexes m ''requests_total''))"
proof -
  have e: "input_expressions root0 x = None" for x using assms(2,3) by (cases "input_expressions root0 x") (auto simp: inputs_ok_def)
  show ?thesis
    using assms(1)
    by (simp add: configured_maps_def JsonArrayIterate_def metric_visitor_def JsonObjectIterate_def visit_key_def label_override_def
        JsonValueAs_string_def JsonGetField_def value_or_def lib_parsing_facts seed_maps_eq(1) defaultMetrics_def metric_factory_def
        dimension_expression_def addStringExpression_def e assms(2) seed_first seed_index_my JsonValueAs_bool_def Let_def
        set_indexed_tags count_standard_labels_def)
      (auto simp: seed_maps_eq(1) defaultMetrics_def metric_factory_def)
qed


abbreviation removal_config :: json where
  "removal_config \<equiv> JObject [(''metrics'', JArray [removal_override])]"

theorem removal_configuration_witness:
  "\<exists>root' h' acts. onConfigure (lib_parsing removal_config) ready_create (\<lambda>t h. h) silent_host ''{}'' (initial_stats_root False (\<lambda>_. 0) True) () =
       Inr (True, root', h', acts) \<and> length (stats root') = 10 \<and>
     stat_indexes (stats root' ! 0) = [0, 1, 2, 3] @ [5..<25] \<and> stat_indexes (stats root' ! 1) = [0..<25]"
proof -
  obtain root' h' acts where c: "onConfigure (lib_parsing removal_config) ready_create (\<lambda>t h. h) silent_host ''{}''
      (initial_stats_root False (\<lambda>_. 0) True) () = Inr (True, root', h', acts)"
    using onConfigure_ok [OF initial_stats_ok] by metis
  have "map (\<lambda>g. (metric_name g, metric_tags g, stat_indexes g)) (stats root') =
    map (\<lambda>(k, f).
        let kept = filter (\<lambda>i. \<not> (applies_to removal_override k \<and> defaultTags ! i \<in> set [''source_app''])) [0..<count_labels f]
        in (''istio_'' @ factory_name f, map (\<lambda>i. defaultTags ! i) kept, kept))
      (filter (\<lambda>(k, f). \<not> (False \<and> applies_to removal_override k)) (map (\<lambda>f. (factory_name f, f)) defaultMetrics))"
    by (subst removal_configuration [OF lib_parsing_facts(1) _ _ _ _ lib_parsing_facts(2) c, of removal_override "[''source_app'']" False])
      (simp_all add: removal_override_def JsonGetField_def value_or_def lib_parsing_facts(3))
  from arg_cong [OF this, of "map (\<lambda>x. snd (snd x))"]
  have s: "map stat_indexes (stats root') =
    map (\<lambda>f. filter (\<lambda>i. \<not> (applies_to removal_override (factory_name f) \<and> defaultTags ! i = ''source_app'')) [0..<count_labels f]) defaultMetrics"
    by (simp add: comp_def Let_def)
  have l: "length (stats root') = 10" using arg_cong [OF s, of length] by (simp add: defaultMetrics_def)
  have a: "applies_to removal_override k \<longleftrightarrow> k = ''requests_total''" for k
    by (auto simp: applies_to_def removal_override_def JsonGetField_def JsonValueAs_string_def value_or_def)
  have f: "filter (\<lambda>i. \<not> defaultTags ! i = ''source_app'') [0..<25] = [0, 1, 2, 3] @ [5..<25]" by code_simp
  have "stat_indexes (stats root' ! 0) = [0, 1, 2, 3] @ [5..<25]"
    using arg_cong [OF s, of "\<lambda>xs. xs ! 0"] l unfolding f [symmetric]
    by (simp add: defaultMetrics_def metric_factory_def count_standard_labels_def a del: upt_rec_numeral)
  moreover have "stat_indexes (stats root' ! 1) = [0..<25]"
    using arg_cong [OF s, of "\<lambda>xs. xs ! 1"] l
    by (simp add: defaultMetrics_def metric_factory_def count_standard_labels_def a del: upt_rec_numeral)
  ultimately have "stat_indexes (stats root' ! 0) = [0, 1, 2, 3] @ [5..<25]" "stat_indexes (stats root' ! 1) = [0..<25]" .
  with c l show ?thesis by blast
qed

end
