(* ===== verification/Stats_Report.thy ===== *)
theory Stats_Report
  imports Stats_Config "HOL-Library.Multiset"
begin

text \<open>
  The reports of the statistics extension (\<open>extensions/stats/plugin.{h,cc}\<close>): how a metric is
  resolved to an id and recorded, the report of a stream with its cache of resolved metrics, the
  queue of streams that are reported periodically, and the handlers of a stream.

  What the host says depends on the stream in context: \<open>stream_view\<close> collects its properties and
  the values of the compiled expressions.
\<close>

section \<open>Resolving and recording\<close>

record stream_view =
  view_host :: stream_host
  view_string :: "u32 \<Rightarrow> string option" \<comment> \<open>\<open>evaluateExpression\<close> into a string\<close>
  view_int :: "u32 \<Rightarrow> u64 option" \<comment> \<open>\<open>evaluateExpression\<close> into an integer\<close>

text \<open>\<open>SimpleStat::record\<close>.\<close>

definition record_stat :: "(u32 \<Rightarrow> u64 option) \<Rightarrow> SimpleStat \<Rightarrow> RequestInfo \<Rightarrow> RequestInfo \<times> stats_action list" where
  "record_stat evaluate stat r =
     (case extract_value evaluate (value_fn stat) r of (val, r) \<Rightarrow>
        if simple_type stat = Counter \<and> val = 0 then (r, [])
        else (r, [RecordMetric (metric_id stat) val]))"

definition matchesProtocol :: "StatGen \<Rightarrow> Protocol \<Rightarrow> bool" where
  "matchesProtocol g protocol \<longleftrightarrow> stat_protocols g AND protocol_bits protocol \<noteq> 0"

text \<open>
  \<open>StatGen::resolve\<close>: first the size to be reserved, then the name. Both index vectors without a
  check.
\<close>

fun indexes_size :: "StatGen \<Rightarrow> nat list \<Rightarrow> IstioDimensions \<Rightarrow> nat \<Rightarrow> ub + nat" where
  "indexes_size g [] d s = Inr s"
| "indexes_size g (i # is) d s =
     (if i < length d then indexes_size g is d (s + (length (d ! i) + length (field_separator g)))
      else Inl OutOfBounds)"

definition reserved_size :: "StatGen \<Rightarrow> IstioDimensions \<Rightarrow> ub + nat" where
  "reserved_size g d =
     (let s = length (metric_prefix g);
          s = foldl (\<lambda>s tag. s + (length tag + length (value_separator g))) s (metric_tags g)
      in and_then (indexes_size g (stat_indexes g) d s) (\<lambda>s. Inr (s + length (metric_name g))))"

fun append_tags :: "StatGen \<Rightarrow> IstioDimensions \<Rightarrow> nat \<Rightarrow> string list \<Rightarrow> string \<Rightarrow> ub + string" where
  "append_tags g d i [] n = Inr n"
| "append_tags g d i (tag # tags) n =
     (if i < length (stat_indexes g) \<and> stat_indexes g ! i < length d then
        append_tags g d (Suc i) tags (n @ tag @ value_separator g @ d ! (stat_indexes g ! i) @ field_separator g)
      else Inl OutOfBounds)"

definition full_name :: "StatGen \<Rightarrow> IstioDimensions \<Rightarrow> ub + string" where
  "full_name g d = and_then (append_tags g d 0 (metric_tags g) (metric_prefix g)) (\<lambda>n. Inr (n @ metric_name g))"

definition resolve :: "stats_lib \<Rightarrow> StatGen \<Rightarrow> IstioDimensions \<Rightarrow> ub + SimpleStat" where
  "resolve L g d =
     and_then (reserved_size g d) (\<lambda>s.
     and_then (full_name g d) (\<lambda>n.
       Inr \<lparr>metric_id = resolveFullName L (metric_type g) n, simple_recurrent = stat_recurrent g,
            value_fn = stat_extractor g, simple_type = metric_type g\<rparr>))"

text \<open>
  The hash of the cache's keys, for a \<open>size_t\<close> of any width (32 bits in a Wasm module, where the
  multiplier is cut, 64 in a native build). It does not depend on the order of the dimensions: keys
  that permute each other collide, which costs time only, since keys are compared in full.
\<close>

definition kMul :: "'a::len word" where
  "kMul = 0x9ddfea08eb382d69"

definition HashIstioDimensions :: "(string \<Rightarrow> 'a::len word) \<Rightarrow> IstioDimensions \<Rightarrow> 'a word" where
  "HashIstioDimensions hash_string c = foldl (\<lambda>h x. h + hash_string x * kMul) 0 c"

lemma HashIstioDimensions_sum: "HashIstioDimensions hash_string c = (\<Sum>x\<leftarrow>c. hash_string x * kMul)"
proof -
  have "foldl (\<lambda>h x. h + hash_string x * k) a c = a + (\<Sum>x\<leftarrow>c. hash_string x * k)" for a k :: "'a word"
    by (induction c arbitrary: a) (simp_all add: add.assoc)
  then show ?thesis by (simp add: HashIstioDimensions_def)
qed

lemma HashIstioDimensions_mset: "mset c = mset d \<Longrightarrow> HashIstioDimensions hash_string c = HashIstioDimensions hash_string d"
  unfolding HashIstioDimensions_sum by (metis mset_map sum_mset_sum_list)

section \<open>The report\<close>

text \<open>The request information is completed, unless the peer of a TCP stream may still come.\<close>

definition populate_for_report :: "stats_lib \<Rightarrow> stream_host \<Rightarrow> stats_root \<Rightarrow> PeerNodeInfo \<Rightarrow> bool \<Rightarrow> RequestInfo \<Rightarrow> RequestInfo option" where
  "populate_for_report L H root p end_stream r =
     (if request_protocol r = Protocol_TCP then
        if maybeWaiting p \<and> \<not> end_stream then None
        else Some (populateTCPRequestInfo H (outbound root) r)
      else if end_stream then
        Some (populateHTTPRequestInfo (strlib L) H (outbound root) (use_host_header_fallback root) r)
      else
        let r = populateRequestInfo H (outbound root) (use_host_header_fallback root) r in
        Some (if request_protocol r = Protocol_GRPC then snd (populateGRPCInfo (strlib L) H r) else r))"

text \<open>The loop over the expressions; \<open>at\<close> is checked, and fails out of range.\<close>

fun evaluate_expressions :: "(u32 \<Rightarrow> string option) \<Rightarrow> nat \<Rightarrow> (u32 \<times> string) list \<Rightarrow> IstioDimensions \<Rightarrow> ub + IstioDimensions" where
  "evaluate_expressions evaluate i [] d = Inr d"
| "evaluate_expressions evaluate i ((token, expression) # es) d =
     (if count_standard_labels + i < length d then
        evaluate_expressions evaluate (Suc i) es
          (d[count_standard_labels + i := (case evaluate token of Some v \<Rightarrow> v | None \<Rightarrow> ''unknown'')])
      else Inl OutOfBounds)"

text \<open>The loop over the cached metrics, and the loop over the generators.\<close>

fun record_cached :: "(u32 \<Rightarrow> u64 option) \<Rightarrow> bool \<Rightarrow> SimpleStat list \<Rightarrow> RequestInfo \<Rightarrow> RequestInfo \<times> stats_action list" where
  "record_cached evaluate end_stream [] r = (r, [])"
| "record_cached evaluate end_stream (stat # ss) r =
     (case (if end_stream \<or> simple_recurrent stat then record_stat evaluate stat r else (r, [])) of (r, acts) \<Rightarrow>
      case record_cached evaluate end_stream ss r of (r, acts') \<Rightarrow> (r, acts @ acts'))"

fun record_generated :: "stats_lib \<Rightarrow> (u32 \<Rightarrow> u64 option) \<Rightarrow> bool \<Rightarrow> IstioDimensions \<Rightarrow> StatGen list \<Rightarrow> RequestInfo \<Rightarrow>
    ub + (SimpleStat list \<times> RequestInfo \<times> stats_action list)" where
  "record_generated L evaluate end_stream d [] r = Inr ([], r, [])"
| "record_generated L evaluate end_stream d (g # gs) r =
     (if \<not> matchesProtocol g (request_protocol r) then record_generated L evaluate end_stream d gs r
      else and_then (resolve L g d) (\<lambda>stat.
        case (if end_stream \<or> simple_recurrent stat then record_stat evaluate stat r else (r, [])) of (r, acts) \<Rightarrow>
        and_then (record_generated L evaluate end_stream d gs r) (\<lambda>(ss, r, acts').
          Inr (stat # ss, r, acts @ acts'))))"

definition report :: "stats_lib \<Rightarrow> stream_view \<Rightarrow> stats_root \<Rightarrow> RequestInfo \<Rightarrow> bool \<Rightarrow> ub + (stats_root \<times> RequestInfo \<times> stats_action list)" where
  "report L v root r end_stream =
     (if \<not> initialized root then Inr (root, r, [])
      else let p = peer_node_info (flatbuf L) (strings (view_host v)) (peer_metadata_id_key root) (peer_metadata_key root) in
        case populate_for_report L (view_host v) root p end_stream r of
          None \<Rightarrow> Inr (root, r, [])
        | Some r \<Rightarrow>
            and_then (peer_get (flatbuf L) p) (\<lambda>node.
            and_then (map_dimensions (flatbuf L) (outbound root) node r (istio_dimensions root)) (\<lambda>d.
            and_then (evaluate_expressions (view_string v) 0 (expressions root) d) (\<lambda>d.
              let root = root\<lparr>istio_dimensions := d\<rparr> in
              case metrics root d of
                Some ss \<Rightarrow>
                  (case record_cached (view_int v) end_stream ss r of (r, acts) \<Rightarrow>
                   let root = root\<lparr>cache_hits_accumulator := cache_hits_accumulator root + 1\<rparr> in
                   if cache_hits_accumulator root = 100 then
                     Inr (root\<lparr>cache_hits_accumulator := 0\<rparr>, r, acts @ [IncrementMetricBy (cache_hits root) (cache_hits_accumulator root)])
                   else Inr (root, r, acts))
              | None \<Rightarrow>
                  and_then (record_generated L (view_int v) end_stream d (stats root) r) (\<lambda>(ss, r, acts).
                    Inr (root\<lparr>metrics := (metrics root)(d \<mapsto> ss)\<rparr>, r, acts @ [IncrementMetricBy (cache_misses root) 1]))))))"

section \<open>The queue and the handlers of a stream\<close>

definition addToRequestQueue :: "u32 \<Rightarrow> u32 option \<Rightarrow> stats_root \<Rightarrow> stats_root" where
  "addToRequestQueue context_id request_info root = root\<lparr>request_queue := AList.update context_id request_info (request_queue root)\<rparr>"

definition deleteFromRequestQueue :: "u32 \<Rightarrow> stats_root \<Rightarrow> stats_root" where
  "deleteFromRequestQueue context_id root = root\<lparr>request_queue := AList.delete context_id (request_queue root)\<rparr>"

text \<open>
  The streams are the memory the pointers of the queue lead to: a context that was destroyed is not
  there any more. \<open>getContext\<close> knows the contexts that exist. \<open>views i\<close> is what the host says once
  the context \<open>i\<close> is the effective one.
\<close>

type_synonym streams = "u32 \<rightharpoonup> RequestInfo"

fun tick_loop :: "stats_lib \<Rightarrow> (u32 \<Rightarrow> stream_view) \<Rightarrow> (u32 \<times> u32 option) list \<Rightarrow> stats_root \<times> streams \<Rightarrow>
    ub + (stats_root \<times> streams \<times> stats_action list)" where
  "tick_loop L views [] (root, mem) = Inr (root, mem, [])"
| "tick_loop L views ((context_id, pointer) # items) (root, mem) =
     (case pointer of
        None \<Rightarrow> tick_loop L views items (root, mem)
      | Some p \<Rightarrow>
          if mem context_id = None then tick_loop L views items (root, mem)
          else case mem p of
              None \<Rightarrow> Inl DanglingReference
            | Some r \<Rightarrow>
                and_then (report L (views context_id) root r False) (\<lambda>(root, r, acts).
                and_then (tick_loop L views items (root, mem(p \<mapsto> r))) (\<lambda>(root, mem, acts').
                  Inr (root, mem, acts @ acts'))))"

definition onTick :: "stats_lib \<Rightarrow> (u32 \<Rightarrow> stream_view) \<Rightarrow> stats_root \<times> streams \<Rightarrow> ub + (stats_root \<times> streams \<times> stats_action list)" where
  "onTick L views st =
     (if request_queue (fst st) = [] then Inr (fst st, snd st, [])
      else tick_loop L views (queue_traversal L (request_queue (fst st))) st)"

definition onLog :: "stats_lib \<Rightarrow> stream_view \<Rightarrow> u32 \<Rightarrow> stats_root \<Rightarrow> RequestInfo \<Rightarrow> ub + (stats_root \<times> RequestInfo \<times> stats_action list)" where
  "onLog L v i root r =
     (let root = deleteFromRequestQueue i root;
          r = (if request_protocol r = Protocol_TCP then r\<lparr>tcp_connections_closed := tcp_connections_closed r + 1\<rparr> else r)
      in report L v root r True)"

definition onRequestHeaders :: "stream_host \<Rightarrow> stats_root \<Rightarrow> RequestInfo \<Rightarrow> FilterHeadersStatus \<times> RequestInfo" where
  "onRequestHeaders H root r =
     (let r = populateRequestProtocol H r;
          r = (if use_host_header_fallback root
               then r\<lparr>url_host := snd (getValue (strings H) [''request'', ''host''] (url_host r))\<rparr> else r)
      in (Continue, r))"

definition onResponseHeaders :: "u32 \<Rightarrow> stats_root \<Rightarrow> FilterHeadersStatus \<times> stats_root" where
  "onResponseHeaders i root = (Continue, addToRequestQueue i (Some i) root)"

definition onNewConnection :: "u32 \<Rightarrow> stats_root \<Rightarrow> RequestInfo \<Rightarrow> stats_root \<times> RequestInfo" where
  "onNewConnection i root r =
     (let r = r\<lparr>request_protocol := Protocol_TCP\<rparr>;
          r = r\<lparr>tcp_connections_opened := tcp_connections_opened r + 1\<rparr>
      in (addToRequestQueue i (Some i) root, r))"

definition onDownstreamData :: "u64 \<Rightarrow> RequestInfo \<Rightarrow> RequestInfo" where
  "onDownstreamData n r = r\<lparr>tcp_received_bytes := tcp_received_bytes r + n\<rparr>"

definition onUpstreamData :: "u64 \<Rightarrow> RequestInfo \<Rightarrow> RequestInfo" where
  "onUpstreamData n r = r\<lparr>tcp_sent_bytes := tcp_sent_bytes r + n\<rparr>"

section \<open>Names\<close>

text \<open>The name of a metric for given dimensions, as a reference.\<close>

definition stat_name :: "StatGen \<Rightarrow> IstioDimensions \<Rightarrow> string" where
  "stat_name g d = metric_prefix g @
     concat (map (\<lambda>(tag, i). tag @ value_separator g @ d ! i @ field_separator g) (zip (metric_tags g) (stat_indexes g))) @
     metric_name g"

definition fits :: "StatGen \<Rightarrow> IstioDimensions \<Rightarrow> bool" where
  "fits g d \<longleftrightarrow> length (metric_tags g) = length (stat_indexes g) \<and> (\<forall>i \<in> set (stat_indexes g). i < length d)"

lemma append_tags_eq:
  assumes "fits g d" "k \<le> length (metric_tags g)"
  shows "append_tags g d k (drop k (metric_tags g)) n =
    Inr (n @ concat (map (\<lambda>(tag, i). tag @ value_separator g @ d ! i @ field_separator g)
      (zip (drop k (metric_tags g)) (drop k (stat_indexes g)))))"
  using assms(2)
proof (induction "length (metric_tags g) - k" arbitrary: k n)
  case (Suc m)
  then have k: "k < length (metric_tags g)" "k < length (stat_indexes g)" using assms(1) by (auto simp: fits_def)
  have "stat_indexes g ! k < length d" using assms(1) k by (simp add: fits_def)
  with Suc(1) [of "Suc k"] Suc(2) k show ?case
    by (simp add: Cons_nth_drop_Suc [symmetric])
qed simp

lemma full_name_eq: "fits g d \<Longrightarrow> full_name g d = Inr (stat_name g d)"
  using append_tags_eq [of g d 0 "metric_prefix g"] by (simp add: full_name_def stat_name_def)

lemma indexes_size_eq:
  "\<forall>i \<in> set is. i < length d \<Longrightarrow>
   indexes_size g is d s = Inr (s + sum_list (map (\<lambda>i. length (d ! i) + length (field_separator g)) is))"
  by (induction "is" arbitrary: s) auto

lemma foldl_size: "foldl (\<lambda>s tag. s + (length tag + c)) s tags = s + sum_list (map (\<lambda>tag. length tag + c) tags)"
  for s c :: nat
  by (induction tags arbitrary: s) auto

lemma length_pieces:
  "length ts = length is \<Longrightarrow>
   length (concat (map (\<lambda>(tag, i). tag @ vs @ d ! i @ fs) (zip ts is))) =
     sum_list (map (\<lambda>tag. length tag + length vs) ts) + sum_list (map (\<lambda>i. length (d ! i) + length fs) is)"
  by (induction ts "is" rule: list_induct2) auto

lemma reserved_size_eq:
  assumes "fits g d"
  shows "reserved_size g d = Inr (length (stat_name g d))"
  using assms length_pieces [of "metric_tags g" "stat_indexes g"]
  by (simp add: reserved_size_def fits_def indexes_size_eq foldl_size stat_name_def Let_def)

definition stat_of :: "stats_lib \<Rightarrow> StatGen \<Rightarrow> IstioDimensions \<Rightarrow> SimpleStat" where
  "stat_of L g d = \<lparr>metric_id = resolveFullName L (metric_type g) (stat_name g d), simple_recurrent = stat_recurrent g,
     value_fn = stat_extractor g, simple_type = metric_type g\<rparr>"

lemma simple_recurrent_stat_of [simp]: "simple_recurrent (stat_of L g d) = stat_recurrent g"
  by (simp add: stat_of_def)

lemma resolve_eq: "fits g d \<Longrightarrow> resolve L g d = Inr (stat_of L g d)"
  by (simp add: resolve_def reserved_size_eq full_name_eq stat_of_def)

lemma gen_ok_fits:
  assumes "gen_ok root g" "length d = 25 + length (expressions root)"
  shows "fits g d"
proof -
  have l: "length (metric_tags g) = length (stat_indexes g)" using assms(1) by (simp add: gen_ok_def)
  have "i < length d" if i: "i \<in> set (stat_indexes g)" for i
  proof -
    from i l obtain tag where "(tag, i) \<in> set (zip (metric_tags g) (stat_indexes g))"
      by (metis in_set_impl_in_set_zip2 in_set_zipE surj_pair zip_map_fst_snd in_set_conv_nth)
    with assms show ?thesis by (auto simp: gen_ok_def index_ok_def)
  qed
  with l show ?thesis by (simp add: fits_def)
qed

section \<open>Reports are defined\<close>

lemma extract_protocol [simp]: "request_protocol (snd (extract_value evaluate x r)) = request_protocol r"
  by (cases x) simp_all

lemma record_stat_protocol [simp]: "request_protocol (fst (record_stat evaluate stat r)) = request_protocol r"
  by (simp add: record_stat_def split: prod.split) (metis extract_protocol snd_conv)

text \<open>The loop over the generators is the resolution of the matching ones, then the loop over these.\<close>

lemma record_generated_eq:
  assumes "\<forall>g \<in> set gs. fits g d"
  shows "record_generated L evaluate end_stream d gs r =
    (let ss = map (\<lambda>g. stat_of L g d) (filter (\<lambda>g. matchesProtocol g (request_protocol r)) gs)
     in Inr (ss, record_cached evaluate end_stream ss r))"
  using assms
proof (induction gs arbitrary: r)
  case (Cons g gs)
  show ?case
  proof (cases "matchesProtocol g (request_protocol r)")
    case True
    obtain r1 acts where s: "(if end_stream \<or> stat_recurrent g then record_stat evaluate (stat_of L g d) r else (r, [])) = (r1, acts)"
      by fastforce
    have p: "request_protocol r1 = request_protocol r"
      using arg_cong [OF s, of "\<lambda>x. request_protocol (fst x)"] by (simp split: if_splits)
    have ih: "record_generated L evaluate end_stream d gs r1 =
        Inr (map (\<lambda>g. stat_of L g d) (filter (\<lambda>g. matchesProtocol g (request_protocol r)) gs),
             record_cached evaluate end_stream (map (\<lambda>g. stat_of L g d) (filter (\<lambda>g. matchesProtocol g (request_protocol r)) gs)) r1)"
      using Cons p by (simp add: Let_def)
    have "resolve L g d = Inr (stat_of L g d)" using Cons.prems by (simp add: resolve_eq)
    with True s ih show ?thesis
      by (simp only: record_generated.simps record_cached.simps and_then_simps Let_def if_False simp_thms
          list.map filter.simps if_True simple_recurrent_stat_of prod.case)
        (simp split: prod.split)
  qed (use Cons in simp)
qed simp

lemma evaluate_expressions_eq:
  assumes "length d = 25 + (i + length es)"
  shows "\<exists>d'. evaluate_expressions evaluate i es d = Inr d' \<and> length d' = length d \<and> (\<forall>k < 25. d' ! k = d ! k)"
  using assms
proof (induction es arbitrary: i d)
  case (Cons e es)
  obtain token ex where e: "e = (token, ex)" by (cases e)
  let ?d = "d[count_standard_labels + i := (case evaluate token of Some v \<Rightarrow> v | None \<Rightarrow> ''unknown'')]"
  from Cons.IH [of ?d "Suc i"] Cons.prems obtain d' where
    "evaluate_expressions evaluate (Suc i) es ?d = Inr d'" "length d' = length d" "\<forall>k < 25. d' ! k = ?d ! k" by auto
  with Cons.prems show ?case by (simp add: e count_standard_labels_def)
qed simp

text \<open>
  The dimensions a report computes, and the request it then records: never undefined for a
  well-formed extension. \<open>prepared\<close> is what is known of them.
\<close>

definition report_dims :: "stats_lib \<Rightarrow> stream_view \<Rightarrow> stats_root \<Rightarrow> RequestInfo \<Rightarrow> ub + IstioDimensions" where
  "report_dims L v root r =
     and_then (peer_get (flatbuf L) (peer_node_info (flatbuf L) (strings (view_host v)) (peer_metadata_id_key root) (peer_metadata_key root))) (\<lambda>node.
     and_then (map_dimensions (flatbuf L) (outbound root) node r (istio_dimensions root)) (\<lambda>d.
       evaluate_expressions (view_string v) 0 (expressions root) d))"

lemma report_dims_ok:
  assumes "stats_ok root" "initialized root"
  obtains d where "report_dims L v root r = Inr d" "length d = 25 + length (expressions root)"
    "dim d Request_protocol = or_unknown (ProtocolString (request_protocol r))"
proof -
  let ?p = "peer_node_info (flatbuf L) (strings (view_host v)) (peer_metadata_id_key root) (peer_metadata_key root)"
  obtain node where node: "peer_get (flatbuf L) ?p = Inr node"
    using peer_get_defined by blast
  have l: "length (istio_dimensions root) = 25 + length (expressions root)" using assms by (simp add: stats_ok_def)
  then obtain d1 where d1: "map_dimensions (flatbuf L) (outbound root) node r (istio_dimensions root) = Inr d1"
    "length d1 = length (istio_dimensions root)"
    "\<forall>l. dim d1 l = (if l = Grpc_response_status
        then if request_protocol r = Protocol_GRPC then to_string (unat (grpc_status r)) else ''''
        else or_unknown (raw_dim (flatbuf L) (outbound root) node r (istio_dimensions root) l))"
    using map_dimensions_dims [of "istio_dimensions root"] by (metis le_add1)
  obtain d2 where d2: "evaluate_expressions (view_string v) 0 (expressions root) d1 = Inr d2" "length d2 = length d1" "\<forall>k < 25. d2 ! k = d1 ! k"
    using evaluate_expressions_eq [of d1 0 "expressions root"] d1(2) l by auto
  show ?thesis
  proof (rule that)
    show "report_dims L v root r = Inr d2" by (simp add: report_dims_def node d1(1) d2(1))
    show "length d2 = 25 + length (expressions root)" using d1(2) d2(2) l by simp
    show "dim d2 Request_protocol = or_unknown (ProtocolString (request_protocol r))"
      using spec [OF d1(3), of Request_protocol] d2(3) by (simp add: dim_def raw_dim_request)
  qed
qed

lemma report_eq:
  "report L v root r end_stream =
     (if \<not> initialized root then Inr (root, r, [])
      else case populate_for_report L (view_host v) root
          (peer_node_info (flatbuf L) (strings (view_host v)) (peer_metadata_id_key root) (peer_metadata_key root)) end_stream r of
        None \<Rightarrow> Inr (root, r, [])
      | Some r \<Rightarrow> and_then (report_dims L v root r) (\<lambda>d.
          let root = root\<lparr>istio_dimensions := d\<rparr> in
              case metrics root d of
                Some ss \<Rightarrow>
                  (case record_cached (view_int v) end_stream ss r of (r, acts) \<Rightarrow>
                   let root = root\<lparr>cache_hits_accumulator := cache_hits_accumulator root + 1\<rparr> in
                   if cache_hits_accumulator root = 100 then
                     Inr (root\<lparr>cache_hits_accumulator := 0\<rparr>, r, acts @ [IncrementMetricBy (cache_hits root) (cache_hits_accumulator root)])
                   else Inr (root, r, acts))
              | None \<Rightarrow>
                  and_then (record_generated L (view_int v) end_stream d (stats root) r) (\<lambda>(ss, r, acts).
                    Inr (root\<lparr>metrics := (metrics root)(d \<mapsto> ss)\<rparr>, r, acts @ [IncrementMetricBy (cache_misses root) 1]))))"
  by (simp add: report_def report_dims_def Let_def and_then_def split: option.split sum.split)

text \<open>The cache holds what the generators resolve to, for the protocol of the dimensions.\<close>

definition stats_for :: "stats_lib \<Rightarrow> stats_root \<Rightarrow> Protocol \<Rightarrow> IstioDimensions \<Rightarrow> SimpleStat list" where
  "stats_for L root p d = map (\<lambda>g. stat_of L g d) (filter (\<lambda>g. matchesProtocol g p) (stats root))"

definition cache_ok :: "stats_lib \<Rightarrow> stats_root \<Rightarrow> bool" where
  "cache_ok L root \<longleftrightarrow> (\<forall>d ss. metrics root d = Some ss \<longrightarrow>
     (\<forall>p. dim d Request_protocol = or_unknown (ProtocolString p) \<longrightarrow> ss = stats_for L root p d))"

lemma ProtocolString_inject: "or_unknown (ProtocolString p) = or_unknown (ProtocolString q) \<longleftrightarrow> p = q"
  by (cases p; cases q) (simp_all add: or_unknown_def ProtocolString_def)

definition recorded :: "stats_action list \<Rightarrow> stats_action list" where
  "recorded acts = filter (\<lambda>a. case a of RecordMetric _ _ \<Rightarrow> True | _ \<Rightarrow> False) acts"

lemma recorded_simps [simp]:
  "recorded [] = []" "recorded (as @ bs) = recorded as @ recorded bs" "recorded [IncrementMetricBy m k] = []"
  by (simp_all add: recorded_def)

lemma recorded_record_stat [simp]: "recorded (snd (record_stat evaluate stat r)) = snd (record_stat evaluate stat r)"
  by (simp add: record_stat_def recorded_def split: prod.split)

lemma recorded_cached [simp]: "recorded (snd (record_cached evaluate end_stream ss r)) = snd (record_cached evaluate end_stream ss r)"
proof (induction ss arbitrary: r)
  case (Cons s ss)
  obtain r1 acts where a: "(if end_stream \<or> simple_recurrent s then record_stat evaluate s r else (r, [])) = (r1, acts)" by fastforce
  have "recorded acts = acts"
    using arg_cong [OF a, of snd] by (auto split: if_splits)
  with a Cons.IH [of r1] show ?case by (simp split: prod.split) (metis snd_conv)
qed simp

text \<open>
  The report without a cache, as a reference: it yields the new dimensions, the new request
  information and the metrics recorded.
\<close>

definition uncached_report :: "stats_lib \<Rightarrow> stream_view \<Rightarrow> stats_root \<Rightarrow> RequestInfo \<Rightarrow> bool \<Rightarrow>
    ub + (IstioDimensions \<times> RequestInfo \<times> stats_action list)" where
  "uncached_report L v root r end_stream =
     (if \<not> initialized root then Inr (istio_dimensions root, r, [])
      else case populate_for_report L (view_host v) root
          (peer_node_info (flatbuf L) (strings (view_host v)) (peer_metadata_id_key root) (peer_metadata_key root)) end_stream r of
        None \<Rightarrow> Inr (istio_dimensions root, r, [])
      | Some r \<Rightarrow> and_then (report_dims L v root r) (\<lambda>d.
          Inr (d, record_cached (view_int v) end_stream (stats_for L root (request_protocol r) d) r)))"

text \<open>What a report may change of the extension.\<close>

definition same_but_cache :: "stats_root \<Rightarrow> stats_root \<Rightarrow> bool" where
  "same_but_cache root root' \<longleftrightarrow>
     root'\<lparr>istio_dimensions := [], metrics := Map.empty, cache_hits_accumulator := 0\<rparr> =
     root\<lparr>istio_dimensions := [], metrics := Map.empty, cache_hits_accumulator := 0\<rparr>"

lemma same_but_cacheI [simp]:
  "same_but_cache root (root\<lparr>istio_dimensions := d, metrics := m, cache_hits_accumulator := k\<rparr>)"
  "same_but_cache root (root\<lparr>istio_dimensions := d, cache_hits_accumulator := k\<rparr>)"
  "same_but_cache root (root\<lparr>istio_dimensions := d, metrics := m\<rparr>)"
  "same_but_cache root root"
  by (simp_all add: same_but_cache_def)

lemma same_but_cache_fields:
  assumes "same_but_cache root root'"
  shows "initialized root' = initialized root" "expressions root' = expressions root" "stats root' = stats root"
    "input_expressions root' = input_expressions root" "request_queue root' = request_queue root"
    "outbound root' = outbound root" "peer_metadata_id_key root' = peer_metadata_id_key root"
    "peer_metadata_key root' = peer_metadata_key root" "use_host_header_fallback root' = use_host_header_fallback root"
    "int_expressions root' = int_expressions root"
  using arg_cong [OF assms [unfolded same_but_cache_def], of initialized] arg_cong [OF assms [unfolded same_but_cache_def], of expressions]
    arg_cong [OF assms [unfolded same_but_cache_def], of stats] arg_cong [OF assms [unfolded same_but_cache_def], of input_expressions]
    arg_cong [OF assms [unfolded same_but_cache_def], of request_queue] arg_cong [OF assms [unfolded same_but_cache_def], of outbound]
    arg_cong [OF assms [unfolded same_but_cache_def], of peer_metadata_id_key] arg_cong [OF assms [unfolded same_but_cache_def], of peer_metadata_key]
    arg_cong [OF assms [unfolded same_but_cache_def], of use_host_header_fallback] arg_cong [OF assms [unfolded same_but_cache_def], of int_expressions]
  by simp_all

lemma same_but_cache_ok:
  assumes "same_but_cache root root'" "stats_ok root" "initialized root \<longrightarrow> length (istio_dimensions root') = length (istio_dimensions root)"
  shows "stats_ok root'"
  using assms(2,3) by (simp add: stats_ok_def inputs_ok_def gen_ok_def index_ok_def same_but_cache_fields [OF assms(1)])

text \<open>One report of a well-formed extension, and one with a sound cache.\<close>

lemma report_defined:
  assumes "stats_ok root"
  obtains root' r' acts where "report L v root r end_stream = Inr (root', r', acts)" "stats_ok root'" "same_but_cache root root'"
proof (cases "initialized root")
  case False
  with assms show ?thesis by (intro that [of root r "[]"]) (simp_all add: report_def)
next
  case init: True
  let ?p = "peer_node_info (flatbuf L) (strings (view_host v)) (peer_metadata_id_key root) (peer_metadata_key root)"
  show ?thesis
  proof (cases "populate_for_report L (view_host v) root ?p end_stream r")
    case None
    with assms init show ?thesis by (intro that [of root r "[]"]) (simp_all add: report_eq)
  next
    case (Some r1)
    obtain d where d: "report_dims L v root r1 = Inr d" "length d = 25 + length (expressions root)"
      using report_dims_ok [OF assms init] by metis
    have g: "\<forall>g \<in> set (stats root). fits g d" using assms init gen_ok_fits d(2) by (auto simp: stats_ok_def)
    have "\<exists>root' r' acts. report L v root r end_stream = Inr (root', r', acts) \<and> istio_dimensions root' = d \<and> same_but_cache root root'"
      by (cases "metrics root d")
        (simp_all add: report_eq init Some d(1) record_generated_eq [OF g] Let_def split: prod.split)
    then obtain root' r' acts where r: "report L v root r end_stream = Inr (root', r', acts)"
      "istio_dimensions root' = d" "same_but_cache root root'" by blast
    have "stats_ok root'"
      by (rule same_but_cache_ok [OF r(3) assms]) (use assms init d(2) r(2) in \<open>simp add: stats_ok_def\<close>)
    with r that show ?thesis by blast
  qed
qed


lemma report_refines:
  assumes "stats_ok root" "cache_ok L root"
  obtains root' r' acts where "report L v root r end_stream = Inr (root', r', acts)"
    "uncached_report L v root r end_stream = Inr (istio_dimensions root', r', recorded acts)"
    "stats_ok root'" "cache_ok L root'" "same_but_cache root root'"
proof (cases "initialized root")
  case False
  with assms show ?thesis by (intro that [of root r "[]"]) (simp_all add: report_def uncached_report_def)
next
  case init: True
  let ?p = "peer_node_info (flatbuf L) (strings (view_host v)) (peer_metadata_id_key root) (peer_metadata_key root)"
  show ?thesis
  proof (cases "populate_for_report L (view_host v) root ?p end_stream r")
    case None
    with assms init show ?thesis by (intro that [of root r "[]"]) (simp_all add: report_eq uncached_report_def)
  next
    case (Some r1)
    obtain d where d: "report_dims L v root r1 = Inr d" "length d = 25 + length (expressions root)"
      "dim d Request_protocol = or_unknown (ProtocolString (request_protocol r1))"
      using report_dims_ok [OF assms(1) init] .
    define ss where "ss = stats_for L root (request_protocol r1) d"
    obtain r2 acts where rec: "record_cached (view_int v) end_stream ss r1 = (r2, acts)"
      by (cases "record_cached (view_int v) end_stream ss r1")
    have acts: "recorded acts = acts" using recorded_cached [of "view_int v" end_stream ss r1] rec by simp
    have u: "uncached_report L v root r end_stream = Inr (d, r2, acts)"
      by (simp add: uncached_report_def init Some d(1) rec ss_def [symmetric])
    have "\<exists>root' extra. report L v root r end_stream = Inr (root', r2, acts @ extra) \<and> recorded extra = [] \<and>
        istio_dimensions root' = d \<and> same_but_cache root root' \<and> (metrics root' = metrics root \<or> metrics root' = (metrics root)(d \<mapsto> ss))"
    proof (cases "metrics root d")
      case hit: (Some ss')
      with assms(2) d(3) have "ss' = ss" by (simp add: cache_ok_def ss_def)
      with init Some d(1) hit rec show ?thesis by (simp add: report_eq Let_def)
    next
      case miss: None
      have "record_generated L (view_int v) end_stream d (stats root) r1 = Inr (ss, r2, acts)"
        using assms(1) init gen_ok_fits d(2) rec
        by (subst record_generated_eq) (auto simp: stats_ok_def Let_def ss_def stats_for_def)
      with init Some d(1) miss show ?thesis by (simp add: report_eq Let_def)
    qed
    then obtain root' extra where r: "report L v root r end_stream = Inr (root', r2, acts @ extra)" "recorded extra = []"
      "istio_dimensions root' = d" "same_but_cache root root'" "metrics root' = metrics root \<or> metrics root' = (metrics root)(d \<mapsto> ss)" by blast
    have "stats_ok root'"
      by (rule same_but_cache_ok [OF r(4) assms(1)]) (use assms(1) init d(2) r(3) in \<open>simp add: stats_ok_def\<close>)
    moreover have "cache_ok L root'"
      using r(5) assms(2) d(3) same_but_cache_fields(3) [OF r(4)]
      by (auto simp: cache_ok_def stats_for_def ss_def ProtocolString_inject split: if_splits)
    ultimately show ?thesis
      by (intro that [of root' r2 "acts @ extra"]) (use r u acts in simp_all)
  qed
qed

section \<open>Properties\<close>

text \<open>
  The name of a metric is its prefix, then for each tag in order the tag and the value of its
  dimension with their separators, then the name of the metric; the size reserved for it beforehand
  is exactly its length, and no vector is indexed out of range, for every generator of a well-formed
  extension.
\<close>

lemma full_name_exact:
  assumes "stats_ok root" "initialized root" "g \<in> set (stats root)" "length d = length (istio_dimensions root)"
  shows "full_name g d = Inr (metric_prefix g @
      concat (map (\<lambda>(tag, i). tag @ value_separator g @ d ! i @ field_separator g) (zip (metric_tags g) (stat_indexes g))) @
      metric_name g) \<and>
    (\<forall>n. full_name g d = Inr n \<longrightarrow> reserved_size g d = Inr (length n))"
proof -
  have "fits g d" using assms by (intro gen_ok_fits [of root]) (auto simp: stats_ok_def)
  then show ?thesis by (simp add: full_name_eq reserved_size_eq) (simp add: stat_name_def)
qed

definition example_gen :: StatGen where
  "example_gen = \<lparr>stat_recurrent = False, stat_protocols = http_grpc, stat_indexes = [0, 23], stat_extractor = One,
     metric_type = Counter, metric_name = ''istio_requests_total'', metric_prefix = '''', metric_tags = [''reporter'', ''response_code''],
     field_separator = '';.;'', value_separator = ''=.=''\<rparr>"

definition example_stats_root :: stats_root where
  "example_stats_root = (initial_stats_root True (\<lambda>_. 0) True)\<lparr>istio_dimensions := replicate 25 ''x'', stats := [example_gen],
     initialized := True\<rparr>"

lemma example_stats_root_ok: "stats_ok example_stats_root" "cache_ok L example_stats_root"
  by (simp_all add: stats_ok_def example_stats_root_def initial_stats_root_def inputs_ok_def gen_ok_def index_ok_def
      example_gen_def cache_ok_def defaultTags_def STD_ISTIO_DIMENSIONS_def)

lemma full_name_exact_example:
  "full_name example_gen (replicate 25 ''x'') = Inr ''reporter=.=x;.;response_code=.=x;.;istio_requests_total''"
proof -
  have "full_name example_gen (replicate 25 ''x'') = Inr (metric_prefix example_gen @
      concat (map (\<lambda>(tag, i). tag @ value_separator example_gen @ replicate 25 ''x'' ! i @ field_separator example_gen)
        (zip (metric_tags example_gen) (stat_indexes example_gen))) @ metric_name example_gen)"
    using full_name_exact [OF example_stats_root_ok(1), of example_gen "replicate 25 ''x''"]
    by (simp add: example_stats_root_def)
  then show ?thesis by (simp add: example_gen_def)
qed

text \<open>A sequence of reports, with the streams they are for; and the same without a cache.\<close>

fun report_all :: "stats_lib \<Rightarrow> (stream_view \<times> RequestInfo \<times> bool) list \<Rightarrow> stats_root \<Rightarrow>
    ub + (stats_root \<times> (RequestInfo \<times> stats_action list) list)" where
  "report_all L [] root = Inr (root, [])"
| "report_all L ((v, r, end_stream) # rs) root =
     and_then (report L v root r end_stream) (\<lambda>(root, r, acts).
     and_then (report_all L rs root) (\<lambda>(root, outs). Inr (root, (r, recorded acts) # outs)))"

fun uncached_all :: "stats_lib \<Rightarrow> (stream_view \<times> RequestInfo \<times> bool) list \<Rightarrow> stats_root \<Rightarrow>
    ub + (RequestInfo \<times> stats_action list) list" where
  "uncached_all L [] root = Inr []"
| "uncached_all L ((v, r, end_stream) # rs) root =
     and_then (uncached_report L v root r end_stream) (\<lambda>(d, r, acts).
     and_then (uncached_all L rs (root\<lparr>istio_dimensions := d\<rparr>)) (\<lambda>outs. Inr ((r, acts) # outs)))"

lemma uncached_report_cong:
  assumes "same_but_cache root root'" "istio_dimensions root' = istio_dimensions root"
  shows "uncached_report L v root' r e = uncached_report L v root r e"
proof -
  note f = same_but_cache_fields [OF assms(1)] assms(2)
  have "report_dims L v root' = report_dims L v root" "populate_for_report L H root' = populate_for_report L H root"
    "stats_for L root' = stats_for L root" for H
    by (simp_all add: fun_eq_iff report_dims_def populate_for_report_def stats_for_def f)
  then show ?thesis by (simp add: uncached_report_def f cong: option.case_cong)
qed

lemma same_but_cache_trans: "same_but_cache a b \<Longrightarrow> same_but_cache b c \<Longrightarrow> same_but_cache a c"
  by (simp add: same_but_cache_def)

lemma uncached_all_cong:
  "same_but_cache root root' \<Longrightarrow> istio_dimensions root' = istio_dimensions root \<Longrightarrow> uncached_all L rs root' = uncached_all L rs root"
proof (induction rs arbitrary: root root')
  case (Cons x rs)
  obtain v r e where x: "x = (v, r, e)" by (cases x)
  have "uncached_all L rs (root'\<lparr>istio_dimensions := d\<rparr>) = uncached_all L rs (root\<lparr>istio_dimensions := d\<rparr>)" for d
    by (rule Cons.IH) (use Cons.prems in \<open>simp_all add: same_but_cache_def\<close>)
  with uncached_report_cong [OF Cons.prems] show ?case by (simp add: x)
qed simp

lemma report_all_refines:
  "stats_ok root \<Longrightarrow> cache_ok L root \<Longrightarrow>
   \<exists>root' outs. report_all L rs root = Inr (root', outs) \<and> uncached_all L rs root = Inr outs"
proof (induction rs arbitrary: root)
  case (Cons x rs)
  obtain v r e where x: "x = (v, r, e)" by (cases x)
  obtain root1 r1 acts where rep: "report L v root r e = Inr (root1, r1, acts)"
    "uncached_report L v root r e = Inr (istio_dimensions root1, r1, recorded acts)"
    and ok: "stats_ok root1" "cache_ok L root1" "same_but_cache root root1"
    using report_refines [OF Cons.prems] .
  obtain root2 outs where "report_all L rs root1 = Inr (root2, outs)" "uncached_all L rs root1 = Inr outs"
    using Cons.IH [OF ok(1,2)] by blast
  moreover have "uncached_all L rs root1 = uncached_all L rs (root\<lparr>istio_dimensions := istio_dimensions root1\<rparr>)"
    by (rule uncached_all_cong) (use ok(3) in \<open>simp_all add: same_but_cache_def\<close>)
  ultimately show ?case using rep by (simp add: x)
qed simp



section \<open>The extension as a state machine\<close>

text \<open>
  A state is the extension, its streams and the state of the host's expression service. The host may
  call the handlers in any order, for streams that exist, and may destroy a stream at any time.
\<close>

inductive stats_step :: "stats_lib \<Rightarrow> (string \<Rightarrow> 'h \<Rightarrow> WasmResult \<times> u32 \<times> 'h) \<Rightarrow> (u32 \<Rightarrow> 'h \<Rightarrow> 'h) \<Rightarrow>
    stats_root \<times> streams \<times> 'h \<Rightarrow> stats_root \<times> streams \<times> 'h \<Rightarrow> bool" for L create expr_delete where
  load: "onConfigure L create expr_delete H data root h = Inr (ok, root', h', acts) \<Longrightarrow>
    stats_step L create expr_delete (root, mem, h) (root', mem, h')"
| open_stream: "mem i = None \<Longrightarrow>
    stats_step L create expr_delete (root, mem, h) (root, mem(i \<mapsto> initial_RequestInfo garbage), h)"
| destroy_stream: "stats_step L create expr_delete (root, mem, h) (root, mem(i := None), h)"
| request_headers: "mem i = Some r \<Longrightarrow> onRequestHeaders H root r = (status, r') \<Longrightarrow>
    stats_step L create expr_delete (root, mem, h) (root, mem(i \<mapsto> r'), h)"
| response_headers: "mem i = Some r \<Longrightarrow> onResponseHeaders i root = (status, root') \<Longrightarrow>
    stats_step L create expr_delete (root, mem, h) (root', mem, h)"
| new_connection: "mem i = Some r \<Longrightarrow> onNewConnection i root r = (root', r') \<Longrightarrow>
    stats_step L create expr_delete (root, mem, h) (root', mem(i \<mapsto> r'), h)"
| downstream_data: "mem i = Some r \<Longrightarrow>
    stats_step L create expr_delete (root, mem, h) (root, mem(i \<mapsto> onDownstreamData n r), h)"
| upstream_data: "mem i = Some r \<Longrightarrow>
    stats_step L create expr_delete (root, mem, h) (root, mem(i \<mapsto> onUpstreamData n r), h)"
| tick: "onTick L views (root, mem) = Inr (root', mem', acts) \<Longrightarrow>
    stats_step L create expr_delete (root, mem, h) (root', mem', h)"
| log: "mem i = Some r \<Longrightarrow> onLog L v i root r = Inr (root', r', acts) \<Longrightarrow>
    stats_step L create expr_delete (root, mem, h) (root', mem(i \<mapsto> r'), h)"

text \<open>
  The invariant: the extension is well formed, and the queue points from the id of a stream to the
  stream itself.
\<close>

definition stats_inv :: "stats_root \<Rightarrow> bool" where
  "stats_inv root \<longleftrightarrow> stats_ok root \<and> (\<forall>(i, p) \<in> set (request_queue root). p = Some i)"

lemma stats_inv_queue:
  "stats_inv (root\<lparr>request_queue := q\<rparr>) \<longleftrightarrow> stats_ok root \<and> (\<forall>(i, p) \<in> set q. p = Some i)"
  by (simp add: stats_inv_def stats_ok_def inputs_ok_def gen_ok_def index_ok_def)

lemma set_update_subset: "set (AList.update k v xs) \<subseteq> insert (k, v) (set xs)"
  by (induction xs) auto

lemma enqueue_inv: "stats_inv root \<Longrightarrow> stats_inv (addToRequestQueue i (Some i) root)"
  using set_update_subset [of i "Some i" "request_queue root"]
  by (auto simp: addToRequestQueue_def stats_inv_queue) (auto simp: stats_inv_def dest!: subsetD)

lemma dequeue_inv: "stats_inv root \<Longrightarrow> stats_inv (deleteFromRequestQueue i root)"
  by (auto simp: deleteFromRequestQueue_def stats_inv_queue AList.delete_eq) (auto simp: stats_inv_def)

lemma report_inv:
  assumes "stats_inv root"
  obtains root' r' acts where "report L v root r end_stream = Inr (root', r', acts)" "stats_inv root'"
proof -
  have ok: "stats_ok root" using assms by (simp add: stats_inv_def)
  obtain root' r' acts where rep: "report L v root r end_stream = Inr (root', r', acts)" "stats_ok root'" "same_but_cache root root'"
    using report_defined [OF ok] .
  have "stats_inv root'" using rep(2) same_but_cache_fields(5) [OF rep(3)] assms by (simp add: stats_inv_def)
  with rep(1) that show ?thesis by blast
qed

lemma tick_loop_inv:
  "stats_inv root \<Longrightarrow> \<forall>(i, p) \<in> set items. p = Some i \<Longrightarrow>
   \<exists>root' mem' acts. tick_loop L views items (root, mem) = Inr (root', mem', acts) \<and> stats_inv root'"
proof (induction items arbitrary: root mem)
  case (Cons x items)
  obtain i where x: "x = (i, Some i)" using Cons.prems(2) by (cases x) auto
  show ?case
  proof (cases "mem i")
    case None
    with Cons show ?thesis by (simp add: x)
  next
    case (Some r)
    obtain root1 r1 acts1 where rep: "report L (views i) root r False = Inr (root1, r1, acts1)" "stats_inv root1"
      using report_inv [OF Cons.prems(1)] .
    obtain root2 mem2 acts2 where "tick_loop L views items (root1, mem(i \<mapsto> r1)) = Inr (root2, mem2, acts2)" "stats_inv root2"
      using Cons.IH [OF rep(2), of "mem(i \<mapsto> r1)"] Cons.prems(2) unfolding list.set ball_simps by blast
    with rep Some show ?thesis by (simp add: x)
  qed
qed simp

lemma onTick_inv:
  assumes "stats_inv root" "\<And>q. set (queue_traversal L q) \<subseteq> set q"
  shows "\<exists>root' mem' acts. onTick L views (root, mem) = Inr (root', mem', acts) \<and> stats_inv root'"
proof (cases "request_queue root = []")
  case True
  with assms show ?thesis by (simp add: onTick_def)
next
  case False
  have "\<forall>(i, p) \<in> set (queue_traversal L (request_queue root)). p = Some i"
    using assms(1) assms(2) [of "request_queue root"] by (auto simp: stats_inv_def)
  from tick_loop_inv [OF assms(1) this, of L views mem] False show ?thesis by (simp add: onTick_def)
qed

lemma onLog_inv: "stats_inv root \<Longrightarrow> \<exists>root' r' acts. onLog L v i root r = Inr (root', r', acts) \<and> stats_inv root'"
  unfolding onLog_def Let_def by (metis report_inv [OF dequeue_inv])

lemma stats_step_inv:
  assumes "stats_step L create expr_delete (root, mem, h) (root', mem', h')" "stats_inv root"
    and "\<And>q. set (queue_traversal L q) \<subseteq> set q"
  shows "stats_inv root'"
  using assms(1)
proof cases
  case (load H data ok acts)
  have ok: "stats_ok root" using assms(2) by (simp add: stats_inv_def)
  obtain root2 h2 acts2 where "onConfigure L create expr_delete H data root h = Inr (True, root2, h2, acts2)"
    "stats_ok root2" "metrics root2 = metrics root" "request_queue root2 = request_queue root"
    using onConfigure_ok [OF ok] by metis
  with load assms(2) show ?thesis by (simp add: stats_inv_def)
next
  case (tick views acts)
  with onTick_inv [OF assms(2,3), of views mem] show ?thesis by auto
next
  case (log i r v r' acts)
  with onLog_inv [OF assms(2), of L v i r] show ?thesis by auto
next
  case (response_headers i r status)
  with enqueue_inv [OF assms(2), of i] show ?thesis by (auto simp: onResponseHeaders_def)
next
  case (new_connection i r r')
  with enqueue_inv [OF assms(2), of i] show ?thesis by (auto simp: onNewConnection_def Let_def)
qed (use assms(2) in simp_all)


text \<open>A run: a TCP stream is opened and connected, and waits in the queue.\<close>

definition example_stream :: RequestInfo where
  "example_stream = (initial_RequestInfo (0, 0, 0))\<lparr>request_protocol := Protocol_TCP, tcp_connections_opened := 1\<rparr>"

lemma example_stats_run:
  "(stats_step example_stats_lib host_create host_delete)\<^sup>*\<^sup>* (initial_stats_root False (\<lambda>_. 0) True, Map.empty, (7, {}))
     ((initial_stats_root False (\<lambda>_. 0) True)\<lparr>request_queue := [(3, Some 3)]\<rparr>, [3 \<mapsto> example_stream], (7, {}))"
proof -
  let ?step = "stats_step example_stats_lib host_create host_delete" and ?root = "initial_stats_root False (\<lambda>_. 0) True"
  have "?step (?root, Map.empty, (7, {})) (?root, [3 \<mapsto> initial_RequestInfo (0, 0, 0)], (7, {}))"
    by (rule stats_step.open_stream) simp
  moreover have "onNewConnection 3 ?root (initial_RequestInfo (0, 0, 0)) = (?root\<lparr>request_queue := [(3, Some 3)]\<rparr>, example_stream)"
    by (simp add: onNewConnection_def addToRequestQueue_def initial_stats_root_def example_stream_def initial_RequestInfo_def Let_def)
  from stats_step.new_connection [OF _ this, of "[3 \<mapsto> initial_RequestInfo (0, 0, 0)]" example_stats_lib host_create host_delete "(7, {})"]
  have "?step (?root, [3 \<mapsto> initial_RequestInfo (0, 0, 0)], (7, {})) (?root\<lparr>request_queue := [(3, Some 3)]\<rparr>, [3 \<mapsto> example_stream], (7, {}))"
    by simp
  ultimately show ?thesis by (meson r_into_rtranclp rtranclp_trans)
qed


text \<open>
  A later configuration does not clear the cache: a report whose dimensions are in the cache goes on
  recording the metrics that were resolved for the former configuration, with their extractors, also
  those the new configuration drops or whose expressions it has deleted.
\<close>

lemma stale_cache:
  assumes "stats_ok root" "onConfigure L create expr_delete H data root h = Inr (ok, root', h', acts)"
    and "initialized root'" "metrics root d = Some ss"
    and "populate_for_report L (view_host v) root' (peer_node_info (flatbuf L) (strings (view_host v))
           (peer_metadata_id_key root') (peer_metadata_key root')) end_stream r = Some r1"
    and "report_dims L v root' r1 = Inr d"
  shows "\<exists>root2 extra. report L v root' r end_stream =
    Inr (root2, fst (record_cached (view_int v) end_stream ss r1), snd (record_cached (view_int v) end_stream ss r1) @ extra)"
proof -
  obtain root3 h3 acts3 where "onConfigure L create expr_delete H data root h = Inr (True, root3, h3, acts3)" "metrics root3 = metrics root"
    using onConfigure_ok [OF assms(1)] by metis
  with assms(2,4) have "metrics root' d = Some ss" by simp
  with assms(3,5,6) show ?thesis by (simp add: report_eq Let_def split: prod.split)
qed

end
