(* ===== verification/Stats_Accounting.thy ===== *)
theory Stats_Accounting
  imports Stats_Report Stats_Overrides
begin

text \<open>
  The accounts of the statistics extension: what a TCP stream transfers is counted in the request
  information by the data handlers, and handed over to the counters by the periodic reports and the
  final one. Each of these counters is drained by its extractor; \<open>drained_counter\<close> states what that
  takes and proves the accounts once, for the bytes sent, the bytes received and the connections
  opened.
\<close>

section \<open>The handlers with their events\<close>

text \<open>
  What happens to a stream, in the order in which it happens. A report carries whether it was made
  for a TCP stream, and what it recorded.
\<close>

datatype stream_event =
    Opened u32
  | Connected u32
  | Sent u32 u64
  | Received u32 u64
  | Reported u32 bool "stats_action list"

fun event_stream :: "stream_event \<Rightarrow> u32" where
  "event_stream (Opened i) = i"
| "event_stream (Connected i) = i"
| "event_stream (Sent i n) = i"
| "event_stream (Received i n) = i"
| "event_stream (Reported i tcp acts) = i"

text \<open>The periodic report, with the actions of each stream apart.\<close>

fun tick_reports :: "stats_lib \<Rightarrow> (u32 \<Rightarrow> stream_view) \<Rightarrow> (u32 \<times> u32 option) list \<Rightarrow> stats_root \<times> streams \<Rightarrow>
    ub + (stats_root \<times> streams \<times> stream_event list)" where
  "tick_reports L views [] (root, mem) = Inr (root, mem, [])"
| "tick_reports L views ((context_id, pointer) # items) (root, mem) =
     (case pointer of
        None \<Rightarrow> tick_reports L views items (root, mem)
      | Some p \<Rightarrow>
          if mem context_id = None then tick_reports L views items (root, mem)
          else case mem p of
              None \<Rightarrow> Inl DanglingReference
            | Some r \<Rightarrow>
                and_then (report L (views context_id) root r False) (\<lambda>(root, r', acts).
                and_then (tick_reports L views items (root, mem(p \<mapsto> r'))) (\<lambda>(root, mem, events).
                  Inr (root, mem, Reported p (request_protocol r = Protocol_TCP) acts # events))))"

fun event_actions :: "stream_event \<Rightarrow> stats_action list" where
  "event_actions (Reported i tcp acts) = acts"
| "event_actions e = []"

lemma tick_loop_reports:
  "tick_loop L views items (root, mem) =
     and_then (tick_reports L views items (root, mem)) (\<lambda>(root, mem, events). Inr (root, mem, concat (map event_actions events)))"
proof (induction items arbitrary: root mem)
  case (Cons x items)
  obtain i p where x: "x = (i, p)" by (cases x)
  show ?case
    unfolding x tick_loop.simps tick_reports.simps Cons.IH
    by (cases "mem i") (simp_all add: and_then_def split: option.split sum.split)
qed simp

definition onTick_reports :: "stats_lib \<Rightarrow> (u32 \<Rightarrow> stream_view) \<Rightarrow> stats_root \<times> streams \<Rightarrow>
    ub + (stats_root \<times> streams \<times> stream_event list)" where
  "onTick_reports L views st =
     (if request_queue (fst st) = [] then Inr (fst st, snd st, [])
      else tick_reports L views (queue_traversal L (request_queue (fst st))) st)"

lemma onTick_reports_eq:
  "onTick L views st =
     and_then (onTick_reports L views st) (\<lambda>(root, mem, events). Inr (root, mem, concat (map event_actions events)))"
  by (cases st) (simp add: onTick_def onTick_reports_def tick_loop_reports)

text \<open>The state machine of the extension, with the events of each step.\<close>

inductive traced_step :: "stats_lib \<Rightarrow> (string \<Rightarrow> 'h \<Rightarrow> WasmResult \<times> u32 \<times> 'h) \<Rightarrow> (u32 \<Rightarrow> 'h \<Rightarrow> 'h) \<Rightarrow>
    stats_root \<times> streams \<times> 'h \<Rightarrow> stream_event list \<Rightarrow> stats_root \<times> streams \<times> 'h \<Rightarrow> bool" for L create expr_delete where
  load: "onConfigure L create expr_delete H data root h = Inr (ok, root', h', acts) \<Longrightarrow>
    traced_step L create expr_delete (root, mem, h) [] (root', mem, h')"
| open_stream: "mem i = None \<Longrightarrow>
    traced_step L create expr_delete (root, mem, h) [Opened i] (root, mem(i \<mapsto> initial_RequestInfo garbage), h)"
| destroy_stream: "traced_step L create expr_delete (root, mem, h) [] (root, mem(i := None), h)"
| request_headers: "mem i = Some r \<Longrightarrow> onRequestHeaders H root r = (status, r') \<Longrightarrow>
    traced_step L create expr_delete (root, mem, h) [] (root, mem(i \<mapsto> r'), h)"
| response_headers: "mem i = Some r \<Longrightarrow> onResponseHeaders i root = (status, root') \<Longrightarrow>
    traced_step L create expr_delete (root, mem, h) [] (root', mem, h)"
| new_connection: "mem i = Some r \<Longrightarrow> onNewConnection i root r = (root', r') \<Longrightarrow>
    traced_step L create expr_delete (root, mem, h) [Connected i] (root', mem(i \<mapsto> r'), h)"
| downstream_data: "mem i = Some r \<Longrightarrow>
    traced_step L create expr_delete (root, mem, h) [Received i n] (root, mem(i \<mapsto> onDownstreamData n r), h)"
| upstream_data: "mem i = Some r \<Longrightarrow>
    traced_step L create expr_delete (root, mem, h) [Sent i n] (root, mem(i \<mapsto> onUpstreamData n r), h)"
| tick: "onTick_reports L views (root, mem) = Inr (root', mem', events) \<Longrightarrow>
    traced_step L create expr_delete (root, mem, h) events (root', mem', h)"
| log: "mem i = Some r \<Longrightarrow> onLog L v i root r = Inr (root', r', acts) \<Longrightarrow>
    traced_step L create expr_delete (root, mem, h) [Reported i (request_protocol r = Protocol_TCP) acts] (root', mem(i \<mapsto> r'), h)"

text \<open>Without the events it is the state machine of the extension.\<close>

lemma traced_step_iff: "stats_step L create expr_delete s t \<longleftrightarrow> (\<exists>events. traced_step L create expr_delete s events t)"
proof
  assume "stats_step L create expr_delete s t"
  then show "\<exists>events. traced_step L create expr_delete s events t"
  proof cases
    case (tick views root mem root' mem' acts h)
    then obtain events where "onTick_reports L views (root, mem) = Inr (root', mem', events)"
      by (auto simp: onTick_reports_eq and_then_def split: sum.splits)
    with tick show ?thesis by (auto intro: traced_step.tick)
  qed (auto intro: traced_step.intros simp del: fun_upd_apply)
next
  assume "\<exists>events. traced_step L create expr_delete s events t"
  then obtain events where "traced_step L create expr_delete s events t" ..
  then show "stats_step L create expr_delete s t"
  proof cases
    case (tick views root mem root' mem' h)
    then have "onTick L views (root, mem) = Inr (root', mem', concat (map event_actions events))"
      by (simp add: onTick_reports_eq)
    with tick show ?thesis by (auto intro: stats_step.tick)
  qed (auto intro: stats_step.intros simp del: fun_upd_apply)
qed

inductive traced_run :: "stats_lib \<Rightarrow> (string \<Rightarrow> 'h \<Rightarrow> WasmResult \<times> u32 \<times> 'h) \<Rightarrow> (u32 \<Rightarrow> 'h \<Rightarrow> 'h) \<Rightarrow>
    stats_root \<times> streams \<times> 'h \<Rightarrow> stream_event list \<Rightarrow> stats_root \<times> streams \<times> 'h \<Rightarrow> bool" for L create expr_delete s where
  start: "traced_run L create expr_delete s [] s"
| step: "traced_run L create expr_delete s trace t \<Longrightarrow> traced_step L create expr_delete t events u \<Longrightarrow>
    traced_run L create expr_delete s (trace @ events) u"

section \<open>Accounts\<close>

text \<open>The events of a stream since it was opened last.\<close>

definition life_step :: "u32 \<Rightarrow> stream_event list \<Rightarrow> stream_event \<Rightarrow> stream_event list" where
  "life_step i acc e = (if event_stream e \<noteq> i then acc else case e of Opened _ \<Rightarrow> [] | _ \<Rightarrow> acc @ [e])"

definition life :: "u32 \<Rightarrow> stream_event list \<Rightarrow> stream_event list" where
  "life i trace = foldl (life_step i) [] trace"

lemma life_append: "life i (trace @ events) = foldl (life_step i) (life i trace) events"
  by (simp add: life_def)

text \<open>What a list of actions records on the metrics with a given property.\<close>

definition booked_value :: "(u32 \<Rightarrow> bool) \<Rightarrow> stats_action \<Rightarrow> u64" where
  "booked_value is_id a = (case a of RecordMetric m v \<Rightarrow> if is_id m then v else 0 | _ \<Rightarrow> 0)"

definition booked :: "(u32 \<Rightarrow> bool) \<Rightarrow> stats_action list \<Rightarrow> u64" where
  "booked is_id acts = sum_list (map (booked_value is_id) acts)"

lemma booked_simps [simp]:
  "booked is_id [] = 0"
  "booked is_id (a # acts) = booked_value is_id a + booked is_id acts"
  "booked is_id (acts @ acts') = booked is_id acts + booked is_id acts'"
  by (simp_all add: booked_def)

text \<open>What the reports of a stream, made while it is a TCP stream, record on these metrics.\<close>

definition tcp_booked :: "(u32 \<Rightarrow> bool) \<Rightarrow> stream_event list \<Rightarrow> u64" where
  "tcp_booked is_id events =
     sum_list (map (\<lambda>e. case e of Reported _ tcp acts \<Rightarrow> if tcp then booked is_id acts else 0 | _ \<Rightarrow> 0) events)"

definition sent_bytes :: "stream_event list \<Rightarrow> u64" where
  "sent_bytes events = sum_list (map (\<lambda>e. case e of Sent _ n \<Rightarrow> n | _ \<Rightarrow> 0) events)"

definition received_bytes :: "stream_event list \<Rightarrow> u64" where
  "received_bytes events = sum_list (map (\<lambda>e. case e of Received _ n \<Rightarrow> n | _ \<Rightarrow> 0) events)"

text \<open>
  A metric recorded for a stream is accounted for: on a TCP stream, it goes to the counter exactly
  when its value is what the extractor drained; on any other, the extractor is not used.
\<close>

definition accounted :: "(u32 \<Rightarrow> bool) \<Rightarrow> ValueExtractor \<Rightarrow> bool \<Rightarrow> SimpleStat \<Rightarrow> bool" where
  "accounted is_id ex tcp s \<longleftrightarrow> (if tcp then is_id (metric_id s) \<longleftrightarrow> value_fn s = ex else value_fn s \<noteq> ex)"

definition tcp_bit :: "u32 \<Rightarrow> bool" where
  "tcp_bit ps \<longleftrightarrow> ps AND protocol_bits Protocol_TCP \<noteq> 0"

text \<open>
  Whatever the configuration, a metric for TCP is one of the standard ones, and the extractors of
  the standard metrics belong to them alone: a metric of the configuration is for HTTP and gRPC.
\<close>

definition standard_factory :: "MetricFactory \<Rightarrow> bool" where
  "standard_factory f \<longleftrightarrow> f \<in> set defaultMetrics \<or> (\<not> tcp_bit (protocols f) \<and> (\<exists>t. extractor f = ExpressionValue t))"

lemma seed_factory_values: "snd ` set (factories (seed_factory f m)) \<subseteq> insert f (snd ` set (factories m))"
  using update_values [of "factory_name f" f "factories m"] by (simp add: seed_factory_def Let_def)

lemma fold_seed_values: "snd ` set (factories (fold seed_factory fs m)) \<subseteq> set fs \<union> snd ` set (factories m)"
proof (induction fs arbitrary: m)
  case (Cons f fs)
  from Cons.IH [of "seed_factory f m"] seed_factory_values [of f m] show ?case by auto
qed simp

lemma seeded_factories: "f \<in> snd ` set (factories seed_maps) \<Longrightarrow> f \<in> set defaultMetrics"
  using fold_seed_values [of defaultMetrics "\<lparr>factories = [], metric_tag_lists = \<lambda>_. [], metric_indexes = \<lambda>_. Map.empty\<rparr>"]
  by (auto simp: seed_maps_def simp del: fold_simps)

lemma definition_visitor_factories:
  assumes "f \<in> snd ` set (factories (fst (snd (definition_visitor create d st))))"
  shows "f \<in> snd ` set (factories (fst st)) \<or> (\<exists>n ty t l. f = metric_factory n ty (ExpressionValue t) http_grpc l False)"
proof -
  obtain m root h where st: "st = (m, root, h)" by (cases st)
  obtain ok m' root' h' where v: "definition_visitor create d (m, root, h) = (ok, m', root', h')"
    by (cases "definition_visitor create d (m, root, h)")
  have f: "f \<in> snd ` set (factories m')" using assms by (simp add: st v)
  from v show ?thesis
  proof (cases rule: definition_visitor_cases)
    case (3 e t n ty l)
    with f update_values [of n "metric_factory n ty (ExpressionValue t) http_grpc l False" "factories m"] show ?thesis
      by (auto simp: st)
  qed (use f in \<open>simp_all add: st\<close>)
qed

lemma configured_factories_inv:
  assumes "configured_maps L create j root h = (m, root', h')" "\<And>ys. set (traversal L ys) \<subseteq> set ys"
    and "\<And>f. f \<in> set defaultMetrics \<Longrightarrow> P f"
    and "\<And>n ty t l. P (metric_factory n ty (ExpressionValue t) http_grpc l False)"
  shows "\<forall>f \<in> snd ` set (factories m). P f"
proof -
  let ?I = "\<lambda>st. \<forall>f \<in> snd ` set (factories (fst st)). P f"
  have step: "?I (snd (definition_visitor create d st))" if I: "?I st" for d st
  proof
    fix f assume "f \<in> snd ` set (factories (fst (snd (definition_visitor create d st))))"
    from definition_visitor_factories [OF this] I assms(4) show "P f" by (elim disjE exE) auto
  qed
  have drop: "?I (snd (metric_visitor create d st))" if "?I st" for d st
    using metric_visitor_shrinks [of st create d] that unfolding shrinks_def by (meson subsetD)
  have "?I (seed_maps, root, h)" using seeded_factories assms(3) by auto
  then have "?I (snd (JsonArrayIterate j ''definitions'' (definition_visitor create) (seed_maps, root, h)))"
    by (intro JsonArrayIterate_keeps [where I = ?I and visitor = "definition_visitor create"] step)
  then obtain ok m1 root1 h1 where d: "JsonArrayIterate j ''definitions'' (definition_visitor create) (seed_maps, root, h) = (ok, m1, root1, h1)"
    and "\<forall>f \<in> snd ` set (factories m1). P f"
    by (cases "JsonArrayIterate j ''definitions'' (definition_visitor create) (seed_maps, root, h)") auto
  then have "?I (m1\<lparr>factories := traversal L (factories m1)\<rparr>, root1, h1)" using assms(2) [of "factories m1"] by auto
  then have "?I (snd (JsonArrayIterate j ''metrics'' (metric_visitor create) (m1\<lparr>factories := traversal L (factories m1)\<rparr>, root1, h1)))"
    by (intro JsonArrayIterate_keeps [where I = ?I and visitor = "metric_visitor create"] drop)
  with assms(1) show ?thesis
    by (cases "JsonArrayIterate j ''metrics'' (metric_visitor create) (m1\<lparr>factories := traversal L (factories m1)\<rparr>, root1, h1)")
      (simp add: configured_maps_def d)
qed

definition standard_gen :: "StatGen \<Rightarrow> bool" where
  "standard_gen g \<longleftrightarrow> (\<exists>f. standard_factory f \<and> stat_extractor g = extractor f \<and> stat_protocols g = protocols f \<and>
     metric_name g = ''istio_'' @ factory_name f)"

lemma http_grpc_not_tcp: "\<not> tcp_bit http_grpc"
  by (simp add: tcp_bit_def http_grpc_def)

lemma matchesProtocol_tcp: "matchesProtocol g Protocol_TCP \<longleftrightarrow> tcp_bit (stat_protocols g)"
  by (simp add: matchesProtocol_def tcp_bit_def)

text \<open>What a configuration does to the generators and to the cache.\<close>

lemma initializeDimensions_standard:
  assumes "\<And>ys. set (traversal L ys) \<subseteq> set ys" "initializeDimensions L create expr_delete j node root h = Inr (ok, root', h', acts)"
  shows "\<forall>g \<in> set (stats root'). standard_gen g"
proof -
  obtain root1 h1 where c: "cleanupExpressions expr_delete root h = (root1, h1)" by (cases "cleanupExpressions expr_delete root h")
  obtain m root2 h2 where m: "configured_maps L create j root1 h1 = (m, root2, h2)" by (cases "configured_maps L create j root1 h1")
  have f: "\<forall>f \<in> snd ` set (factories m). standard_factory f"
    by (rule configured_factories_inv [OF m assms(1)])
      (simp_all add: standard_factory_def, simp_all add: metric_factory_def http_grpc_not_tcp)
  have "stats root' = map (stat_gen (value_or (JsonGetField JsonValueAs_string j ''field_separator'') '''' '';.;'')
      (value_or (JsonGetField JsonValueAs_string j ''value_separator'') '''' ''=.='') m) (factories m)"
    using assms(2) by (auto simp: initializeDimensions_def c m Let_def and_then_def split: sum.splits)
  then show ?thesis using f by (auto simp: standard_gen_def stat_gen_def Let_def)
qed

lemma onConfigure_standard:
  assumes "\<And>ys. set (traversal L ys) \<subseteq> set ys" "onConfigure L create expr_delete H data root h = Inr (ok, root', h', acts)"
    and "\<forall>g \<in> set (stats root). standard_gen g"
  shows "\<forall>g \<in> set (stats root'). standard_gen g"
proof (cases "JsonParse (jsonlib L) data")
  case None
  with assms(2,3) show ?thesis by (auto simp: onConfigure_def configure_def Let_def)
next
  case (Some j)
  then obtain root1 ok2 root2 h2 acts2 where
    i: "initializeDimensions L create expr_delete j (extractLocalNodeFlatBuffer (flatbuf L) (strings H) (maps H)) root1 h = Inr (ok2, root2, h2, acts2)"
    "stats root' = stats root2"
    using assms(2) by (auto simp: onConfigure_def configure_def Let_def and_then_def split: sum.splits if_splits)
  with initializeDimensions_standard [OF assms(1) i(1)] show ?thesis by simp
qed

section \<open>Counters that are drained\<close>

locale drained_counter =
  fixes ex :: ValueExtractor and name :: string and pending :: "RequestInfo \<Rightarrow> u64" and credit :: "stream_event \<Rightarrow> u64"
  assumes extracts: "fst (extract_value evaluate ex r) = pending r"
    and drains: "pending (snd (extract_value evaluate ex r)) = 0"
    and others: "x \<noteq> ex \<Longrightarrow> pending (snd (extract_value evaluate x r)) = pending r"
    and populate_keeps: "populate_for_report L H root p end_stream r = Some r' \<Longrightarrow> pending r' = pending r"
    and headers_keep: "pending (snd (onRequestHeaders H root r)) = pending r"
    and closing_keeps: "pending (r\<lparr>tcp_connections_closed := k\<rparr>) = pending r"
    and initial: "pending (initial_RequestInfo garbage) = 0"
    and connected: "pending (snd (onNewConnection i root r)) = pending r + credit (Connected i)"
    and received: "pending (onDownstreamData n r) = pending r + credit (Received i n)"
    and sent: "pending (onUpstreamData n r) = pending r + credit (Sent i n)"
    and reported: "credit (Reported i tcp acts) = 0"
    and name_decides: "f \<in> set defaultMetrics \<Longrightarrow> tcp_bit (protocols f) \<Longrightarrow>
       suffix name (xs @ ''istio_'' @ factory_name f) \<longleftrightarrow> extractor f = ex"
    and only_tcp: "f \<in> set defaultMetrics \<Longrightarrow> extractor f = ex \<Longrightarrow> protocols f = protocol_bits Protocol_TCP"
    and not_expression: "ex \<noteq> ExpressionValue t"
begin

lemma record_stat_books:
  assumes "accounted is_id ex tcp s" "record_stat evaluate s r = (r', acts)"
  shows "(if tcp then booked is_id acts else 0) + pending r' = pending r"
proof -
  obtain val r1 where e: "extract_value evaluate (value_fn s) r = (val, r1)" by fastforce
  have r: "r' = r1" "acts = (if simple_type s = Counter \<and> val = 0 then [] else [RecordMetric (metric_id s) val])"
    using assms(2) by (auto simp: record_stat_def e split: if_splits)
  show ?thesis
  proof (cases "value_fn s = ex")
    case True
    then have "val = pending r" "pending r1 = 0" using extracts [of evaluate r] drains [of evaluate r] e by simp_all
    with assms(1) True show ?thesis by (simp add: r accounted_def booked_value_def split: if_splits)
  next
    case False
    then have "pending r1 = pending r" using others [of "value_fn s" evaluate r] e by simp
    with assms(1) False show ?thesis by (simp add: r accounted_def booked_value_def)
  qed
qed

lemma record_cached_books:
  "\<forall>s \<in> set ss. accounted is_id ex tcp s \<Longrightarrow> record_cached evaluate end_stream ss r = (r', acts) \<Longrightarrow>
   (if tcp then booked is_id acts else 0) + pending r' = pending r"
proof (induction ss arbitrary: r r' acts)
  case (Cons s ss)
  obtain r1 acts1 where 1: "(if end_stream \<or> simple_recurrent s then record_stat evaluate s r else (r, [])) = (r1, acts1)" by fastforce
  obtain r2 acts2 where 2: "record_cached evaluate end_stream ss r1 = (r2, acts2)" by fastforce
  have e: "r' = r2" "acts = acts1 @ acts2" using Cons.prems(2) 1 2 by simp_all
  have "(if tcp then booked is_id acts1 else 0) + pending r1 = pending r"
  proof (cases "end_stream \<or> simple_recurrent s")
    case True
    with 1 have "record_stat evaluate s r = (r1, acts1)" by simp
    from record_stat_books [OF _ this, of is_id tcp] Cons.prems(1) show ?thesis by simp
  qed (use 1 in simp)
  moreover have "(if tcp then booked is_id acts2 else 0) + pending r2 = pending r1"
    using Cons.IH [OF _ 2] Cons.prems(1) by simp
  ultimately show ?case unfolding e by (cases tcp) (simp_all, metis add.assoc add.commute)
qed simp

end

text \<open>
  The accounts of the extension: its generators are standard, and every cached metric is accounted
  for. \<open>is_id\<close> recognises the ids that the host gives to the counter.
\<close>

definition root_accounts :: "ValueExtractor \<Rightarrow> (u32 \<Rightarrow> bool) \<Rightarrow> stats_root \<Rightarrow> bool" where
  "root_accounts ex is_id root \<longleftrightarrow> (\<forall>g \<in> set (stats root). standard_gen g) \<and>
     (\<forall>d ss. metrics root d = Some ss \<longrightarrow>
        (\<forall>s \<in> set ss. accounted is_id ex (dim d Request_protocol = ''tcp'') s))"

definition recognises :: "stats_lib \<Rightarrow> string \<Rightarrow> (u32 \<Rightarrow> bool) \<Rightarrow> bool" where
  "recognises L name is_id \<longleftrightarrow> (\<forall>ty n. is_id (resolveFullName L ty n) \<longleftrightarrow> suffix name n)"

lemma tcp_dimension: "or_unknown (ProtocolString p) = ''tcp'' \<longleftrightarrow> p = Protocol_TCP"
  by (cases p) (simp_all add: or_unknown_def ProtocolString_def)

text \<open>Completing the request information leaves the counters alone.\<close>

definition tcp_counts :: "RequestInfo \<Rightarrow> u64 \<times> u64" where
  "tcp_counts r = (tcp_sent_bytes r, tcp_received_bytes r)"

lemma tcp_counts_update [simp]:
  "tcp_counts (r\<lparr>is_populated := x0\<rparr>) = tcp_counts r"
  "tcp_counts (r\<lparr>upstream_cluster := x1\<rparr>) = tcp_counts r"
  "tcp_counts (r\<lparr>route_name := x2\<rparr>) = tcp_counts r"
  "tcp_counts (r\<lparr>destination_principal := x3\<rparr>) = tcp_counts r"
  "tcp_counts (r\<lparr>source_principal := x4\<rparr>) = tcp_counts r"
  "tcp_counts (r\<lparr>destination_port := x5\<rparr>) = tcp_counts r"
  "tcp_counts (r\<lparr>service_auth_policy := x6\<rparr>) = tcp_counts r"
  "tcp_counts (r\<lparr>response_flag := x7\<rparr>) = tcp_counts r"
  "tcp_counts (r\<lparr>request_protocol := x8\<rparr>) = tcp_counts r"
  "tcp_counts (r\<lparr>url_path := x9\<rparr>) = tcp_counts r"
  "tcp_counts (r\<lparr>url_host := x10\<rparr>) = tcp_counts r"
  "tcp_counts (r\<lparr>response_code := x11\<rparr>) = tcp_counts r"
  "tcp_counts (r\<lparr>grpc_status := x12\<rparr>) = tcp_counts r"
  "tcp_counts (r\<lparr>request_operation := x13\<rparr>) = tcp_counts r"
  "tcp_counts (r\<lparr>start_time := x14\<rparr>) = tcp_counts r"
  "tcp_counts (r\<lparr>duration := x15\<rparr>) = tcp_counts r"
  "tcp_counts (r\<lparr>request_size := x16\<rparr>) = tcp_counts r"
  "tcp_counts (r\<lparr>response_size := x17\<rparr>) = tcp_counts r"
  "tcp_counts (r\<lparr>request_message_count := x18\<rparr>) = tcp_counts r"
  "tcp_counts (r\<lparr>response_message_count := x19\<rparr>) = tcp_counts r"
  "tcp_counts (r\<lparr>destination_service_host := x20\<rparr>) = tcp_counts r"
  "tcp_counts (r\<lparr>destination_service_name := x21\<rparr>) = tcp_counts r"
  "tcp_counts (r\<lparr>tcp_connections_closed := x22\<rparr>) = tcp_counts r"
  by (simp_all add: tcp_counts_def)

lemma populateDestinationService_counts [simp]:
  "tcp_counts (populateDestinationService H out fallback r) = tcp_counts r"
  "request_protocol (populateDestinationService H out fallback r) = request_protocol r"
  by (simp_all add: populateDestinationService_def Let_def split: prod.split)

lemma populateRequestInfo_counts [simp]:
  "tcp_counts (populateRequestInfo H out fallback r) = tcp_counts r"
  "request_protocol (populateRequestInfo H out fallback r) = request_protocol r"
  by (simp_all add: populateRequestInfo_def Let_def split: prod.split)

lemma populateGRPCInfo_counts [simp]:
  "tcp_counts (snd (populateGRPCInfo S H r)) = tcp_counts r"
  "request_protocol (snd (populateGRPCInfo S H r)) = request_protocol r"
  by (simp_all add: populateGRPCInfo_def Let_def split: prod.split)

lemma populateTCPRequestInfo_counts [simp]:
  "tcp_counts (populateTCPRequestInfo H out r) = tcp_counts r"
  "request_protocol (populateTCPRequestInfo H out r) = Protocol_TCP"
  by (simp_all add: populateTCPRequestInfo_def Let_def split: prod.split)

lemma populateRequestProtocol_counts [simp]:
  "tcp_counts (populateRequestProtocol H r) = tcp_counts r"
  "request_protocol (populateRequestProtocol H r) \<noteq> Protocol_TCP"
  by (simp_all add: populateRequestProtocol_def)

lemma populateHTTPRequestInfo_counts [simp]:
  "tcp_counts (populateHTTPRequestInfo S H out fallback r) = tcp_counts r"
  "request_protocol (populateHTTPRequestInfo S H out fallback r) \<noteq> Protocol_TCP"
  by (simp_all add: populateHTTPRequestInfo_def Let_def split: prod.split)

lemma populate_for_report_counts:
  assumes "populate_for_report L H root p end_stream r = Some r'"
  shows "tcp_counts r' = tcp_counts r" "request_protocol r' = Protocol_TCP \<longleftrightarrow> request_protocol r = Protocol_TCP"
  using assms by (auto simp: populate_for_report_def Let_def split: if_splits)

text \<open>The bytes sent and the bytes received are such counters.\<close>

lemma tcp_metric_names:
  assumes "f \<in> set defaultMetrics" "tcp_bit (protocols f)"
  shows "suffix ''istio_tcp_sent_bytes_total'' (xs @ ''istio_'' @ factory_name f) \<longleftrightarrow> extractor f = SentBytes"
    "suffix ''istio_tcp_received_bytes_total'' (xs @ ''istio_'' @ factory_name f) \<longleftrightarrow> extractor f = ReceivedBytes"
  using assms by (auto simp: defaultMetrics_def metric_factory_def http_grpc_not_tcp tcp_bit_def suffix_to_prefix)

lemma tcp_extractors_only:
  "f \<in> set defaultMetrics \<Longrightarrow> extractor f = SentBytes \<or> extractor f = ReceivedBytes \<Longrightarrow> protocols f = protocol_bits Protocol_TCP"
  by (auto simp: defaultMetrics_def metric_factory_def)

lemma tcp_bits_match: "protocol_bits Protocol_TCP AND protocol_bits p \<noteq> 0 \<longleftrightarrow> p = Protocol_TCP"
  by (cases p) simp_all

lemma counts_fst: "tcp_counts r' = tcp_counts r \<Longrightarrow> tcp_sent_bytes r' = tcp_sent_bytes r \<and> tcp_received_bytes r' = tcp_received_bytes r"
  by (simp add: tcp_counts_def)

lemma onRequestHeaders_counts: "tcp_counts (snd (onRequestHeaders H root r)) = tcp_counts r"
  by (simp add: onRequestHeaders_def Let_def)

lemma extract_other_counts:
  "x \<noteq> SentBytes \<Longrightarrow> tcp_sent_bytes (snd (extract_value evaluate x r)) = tcp_sent_bytes r"
  "x \<noteq> ReceivedBytes \<Longrightarrow> tcp_received_bytes (snd (extract_value evaluate x r)) = tcp_received_bytes r"
  by (cases x; simp)+

interpretation sent: drained_counter SentBytes "''istio_tcp_sent_bytes_total''" tcp_sent_bytes "\<lambda>e. case e of Sent _ n \<Rightarrow> n | _ \<Rightarrow> 0"
  using tcp_extractors_only counts_fst [OF populate_for_report_counts(1)] counts_fst [OF onRequestHeaders_counts]
  by unfold_locales
    (simp_all add: tcp_metric_names [simplified] extract_other_counts initial_RequestInfo_def onNewConnection_def onDownstreamData_def
      onUpstreamData_def Let_def split: prod.split)

interpretation received: drained_counter ReceivedBytes "''istio_tcp_received_bytes_total''" tcp_received_bytes
    "\<lambda>e. case e of Received _ n \<Rightarrow> n | _ \<Rightarrow> 0"
  using tcp_extractors_only counts_fst [OF populate_for_report_counts(1)] counts_fst [OF onRequestHeaders_counts]
  by unfold_locales
    (simp_all add: tcp_metric_names [simplified] extract_other_counts initial_RequestInfo_def onNewConnection_def onDownstreamData_def
      onUpstreamData_def Let_def split: prod.split)

section \<open>Reports balance\<close>

text \<open>A report records nothing, or the metrics of its dimensions, cached or resolved.\<close>

lemma report_cases:
  assumes "stats_ok root" "report L v root r end_stream = Inr (root', r', acts)"
  obtains (silent) "root' = root" "r' = r" "acts = []"
      "\<not> initialized root \<or> populate_for_report L (view_host v) root
         (peer_node_info (flatbuf L) (strings (view_host v)) (peer_metadata_id_key root) (peer_metadata_key root)) end_stream r = None"
  | (recorded) r1 d ss acts0 extra where
      "populate_for_report L (view_host v) root
         (peer_node_info (flatbuf L) (strings (view_host v)) (peer_metadata_id_key root) (peer_metadata_key root)) end_stream r = Some r1"
      "dim d Request_protocol = or_unknown (ProtocolString (request_protocol r1))"
      "record_cached (view_int v) end_stream ss r1 = (r', acts0)" "acts = acts0 @ extra" "recorded extra = []"
      "stats root' = stats root"
      "metrics root d = Some ss \<and> metrics root' = metrics root \<or>
       metrics root d = None \<and> ss = stats_for L root (request_protocol r1) d \<and> metrics root' = (metrics root)(d \<mapsto> ss)"
      "report_dims L v root r1 = Inr d" "istio_dimensions root' = d"
proof (cases "initialized root")
  case False
  then have "root' = root \<and> r' = r \<and> acts = []" using assms(2) by (auto simp: report_def)
  with silent False show ?thesis by blast
next
  case init: True
  let ?p = "peer_node_info (flatbuf L) (strings (view_host v)) (peer_metadata_id_key root) (peer_metadata_key root)"
  show ?thesis
  proof (cases "populate_for_report L (view_host v) root ?p end_stream r")
    case None
    then have "report L v root r end_stream = Inr (root, r, [])" by (simp add: report_eq)
    with assms(2) have "root' = root \<and> r' = r \<and> acts = []" by auto
    with silent None show ?thesis by blast
  next
    case (Some r1)
    obtain d where d: "report_dims L v root r1 = Inr d" "length d = 25 + length (expressions root)"
      "dim d Request_protocol = or_unknown (ProtocolString (request_protocol r1))"
      using report_dims_ok [OF assms(1) init] .
    define ss where "ss = (case metrics root d of Some ss \<Rightarrow> ss | None \<Rightarrow> stats_for L root (request_protocol r1) d)"
    obtain r2 acts0 where rec: "record_cached (view_int v) end_stream ss r1 = (r2, acts0)"
      by (cases "record_cached (view_int v) end_stream ss r1")
    have "\<exists>root' extra. report L v root r end_stream = Inr (root', r2, acts0 @ extra) \<and> recorded extra = [] \<and> stats root' = stats root \<and> istio_dimensions root' = d \<and>
        (metrics root d = Some ss \<and> metrics root' = metrics root \<or>
         metrics root d = None \<and> ss = stats_for L root (request_protocol r1) d \<and> metrics root' = (metrics root)(d \<mapsto> ss))"
    proof (cases "metrics root d")
      case hit: (Some ss')
      with rec show ?thesis by (simp add: report_eq Let_def init Some d(1) ss_def)
    next
      case miss: None
      have "record_generated L (view_int v) end_stream d (stats root) r1 = Inr (ss, r2, acts0)"
        using assms(1) init gen_ok_fits d(2) rec miss
        by (subst record_generated_eq) (auto simp: stats_ok_def Let_def ss_def stats_for_def)
      with miss show ?thesis by (simp add: report_eq Let_def init Some d(1) ss_def)
    qed
    then obtain extra where "r' = r2" "acts = acts0 @ extra" "recorded extra = []" "stats root' = stats root" "istio_dimensions root' = d"
      "metrics root d = Some ss \<and> metrics root' = metrics root \<or>
       metrics root d = None \<and> ss = stats_for L root (request_protocol r1) d \<and> metrics root' = (metrics root)(d \<mapsto> ss)"
      using assms(2) by auto
    with recorded [OF Some d(3), of ss acts0 extra] rec d(1) show ?thesis by simp
  qed
qed

lemma booked_recorded: "recorded acts = [] \<Longrightarrow> booked is_id acts = 0"
  by (induction acts) (auto simp: recorded_def booked_value_def split: stats_action.splits if_splits)

context drained_counter
begin

lemma stat_of_accounted:
  assumes "recognises L name is_id" "standard_gen g" "matchesProtocol g p"
  shows "accounted is_id ex (p = Protocol_TCP) (stat_of L g d)"
proof -
  from assms(2) obtain f where f: "standard_factory f" "stat_extractor g = extractor f" "stat_protocols g = protocols f"
    "metric_name g = ''istio_'' @ factory_name f" by (auto simp: standard_gen_def)
  have v: "value_fn (stat_of L g d) = extractor f" by (simp add: stat_of_def f)
  have i: "is_id (metric_id (stat_of L g d)) \<longleftrightarrow> suffix name (stat_name g d)"
    using assms(1) by (simp add: stat_of_def recognises_def)
  show ?thesis
  proof (cases "p = Protocol_TCP")
    case True
    then have tcp: "tcp_bit (protocols f)" using assms(3) by (simp add: matchesProtocol_tcp f(3))
    with f(1) have "f \<in> set defaultMetrics" by (simp add: standard_factory_def)
    from name_decides [OF this tcp, of "metric_prefix g @ concat (map (\<lambda>(tag, i). tag @ value_separator g @ d ! i @ field_separator g)
        (zip (metric_tags g) (stat_indexes g)))"]
    have "suffix name (stat_name g d) \<longleftrightarrow> extractor f = ex" by (simp add: stat_name_def f(4))
    with True i v show ?thesis by (simp add: accounted_def)
  next
    case False
    have "extractor f \<noteq> ex"
      using f(1) only_tcp not_expression False assms(3) tcp_bits_match [of p]
      by (auto simp: standard_factory_def matchesProtocol_def f(3))
    with False v show ?thesis by (simp add: accounted_def)
  qed
qed

lemma report_books:
  assumes "stats_ok root" "root_accounts ex is_id root" "recognises L name is_id"
    and "report L v root r end_stream = Inr (root', r', acts)"
  shows "root_accounts ex is_id root'"
    "(if request_protocol r = Protocol_TCP then booked is_id acts else 0) + pending r' = pending r"
proof -
  have "root_accounts ex is_id root' \<and> (if request_protocol r = Protocol_TCP then booked is_id acts else 0) + pending r' = pending r"
    using assms(1,4)
  proof (cases rule: report_cases)
    case silent
    with assms(2) show ?thesis by simp
  next
    case (recorded r1 d ss acts0 extra)
    have tcp: "dim d Request_protocol = ''tcp'' \<longleftrightarrow> request_protocol r = Protocol_TCP"
      "request_protocol r1 = Protocol_TCP \<longleftrightarrow> request_protocol r = Protocol_TCP"
      using recorded(2) tcp_dimension populate_for_report_counts(2) [OF recorded(1)] by simp_all
    have ss: "\<forall>s \<in> set ss. accounted is_id ex (request_protocol r = Protocol_TCP) s"
      using recorded(7)
    proof
      assume "metrics root d = Some ss \<and> metrics root' = metrics root"
      with assms(2) show ?thesis unfolding root_accounts_def tcp(1) [symmetric] by blast
    next
      assume "metrics root d = None \<and> ss = stats_for L root (request_protocol r1) d \<and> metrics root' = (metrics root)(d \<mapsto> ss)"
      with assms(2) stat_of_accounted [OF assms(3), of _ "request_protocol r1" d] show ?thesis
        unfolding tcp(2) by (auto simp: root_accounts_def stats_for_def)
    qed
    have "root_accounts ex is_id root'"
      using assms(2) recorded(6,7) ss tcp(1) by (auto simp: root_accounts_def split: if_splits)
    moreover have "booked is_id acts = booked is_id acts0" using recorded(4,5) by (simp add: booked_recorded)
    ultimately show ?thesis
      using record_cached_books [OF ss recorded(3)] populate_keeps [OF recorded(1)] by (simp split: if_splits)
  qed
  then show "root_accounts ex is_id root'"
    "(if request_protocol r = Protocol_TCP then booked is_id acts else 0) + pending r' = pending r" by simp_all
qed

end

section \<open>Runs balance\<close>

lemma life_event:
  "life i (trace @ [e]) = (if event_stream e \<noteq> i then life i trace else if e = Opened i then [] else life i trace @ [e])"
  by (cases e) (simp_all add: life_append life_step_def)

lemma tcp_booked_simps [simp]:
  "tcp_booked is_id [] = 0"
  "tcp_booked is_id (events @ events') = tcp_booked is_id events + tcp_booked is_id events'"
  "tcp_booked is_id [Opened i] = 0" "tcp_booked is_id [Connected i] = 0"
  "tcp_booked is_id [Sent i n] = 0" "tcp_booked is_id [Received i n] = 0"
  "tcp_booked is_id [Reported i tcp acts] = (if tcp then booked is_id acts else 0)"
  by (simp_all add: tcp_booked_def)

context drained_counter
begin

definition credits :: "stream_event list \<Rightarrow> u64" where
  "credits events = sum_list (map credit events)"

definition books_ok :: "(u32 \<Rightarrow> bool) \<Rightarrow> streams \<Rightarrow> stream_event list \<Rightarrow> bool" where
  "books_ok is_id mem trace \<longleftrightarrow>
     (\<forall>i r. mem i = Some r \<longrightarrow> tcp_booked is_id (life i trace) + pending r = credits (life i trace))"

lemma books_event:
  assumes "books_ok is_id mem trace" "mem i = Some r" "event_stream e = i" "e \<noteq> Opened i"
    and "tcp_booked is_id [e] + pending r' = pending r + credit e"
  shows "books_ok is_id (mem(i \<mapsto> r')) (trace @ [e])"
proof -
  have "tcp_booked is_id (life i trace) + pending r = credits (life i trace)" using assms(1,2) by (simp add: books_ok_def)
  then have "tcp_booked is_id (life i trace) + (tcp_booked is_id [e] + pending r') = credits (life i trace) + credit e"
    unfolding assms(5) by (metis add.assoc)
  with assms(1,3,4) show ?thesis by (auto simp: books_ok_def life_event credits_def add.assoc)
qed

lemma books_same:
  "books_ok is_id mem trace \<Longrightarrow> mem i = Some r \<Longrightarrow> pending r' = pending r \<Longrightarrow> books_ok is_id (mem(i \<mapsto> r')) trace"
  by (simp add: books_ok_def)

lemma books_open: "books_ok is_id mem trace \<Longrightarrow> books_ok is_id (mem(i \<mapsto> initial_RequestInfo garbage)) (trace @ [Opened i])"
  by (simp add: books_ok_def life_event initial credits_def)

lemma books_report:
  assumes "books_ok is_id mem trace" "mem i = Some r"
    and "(if request_protocol r = Protocol_TCP then booked is_id acts else 0) + pending r' = pending r"
  shows "books_ok is_id (mem(i \<mapsto> r')) (trace @ [Reported i (request_protocol r = Protocol_TCP) acts])"
  by (rule books_event [OF assms(1,2)]) (use assms(3) reported in \<open>simp_all split: if_splits\<close>)

lemma tick_reports_books:
  "stats_inv root \<Longrightarrow> root_accounts ex is_id root \<Longrightarrow> books_ok is_id mem trace \<Longrightarrow> recognises L name is_id \<Longrightarrow>
   \<forall>(i, p) \<in> set items. p = Some i \<Longrightarrow> tick_reports L views items (root, mem) = Inr (root', mem', events) \<Longrightarrow>
   root_accounts ex is_id root' \<and> books_ok is_id mem' (trace @ events)"
proof (induction items arbitrary: root mem trace events)
  case (Cons x items)
  obtain i where x: "x = (i, Some i)" using Cons.prems(5) by (cases x) auto
  show ?case
  proof (cases "mem i")
    case None
    with Cons.prems Cons.IH [of root mem trace events] show ?thesis by (simp add: x)
  next
    case (Some r)
    obtain root1 r1 acts where rep: "report L (views i) root r False = Inr (root1, r1, acts)" "stats_inv root1"
      using report_inv [OF Cons.prems(1)] .
    have ok: "stats_ok root" using Cons.prems(1) by (simp add: stats_inv_def)
    note b = report_books [OF ok Cons.prems(2,4) rep(1)]
    obtain events1 where t: "tick_reports L views items (root1, mem(i \<mapsto> r1)) = Inr (root', mem', events1)"
      "events = Reported i (request_protocol r = Protocol_TCP) acts # events1"
      using Cons.prems(6) rep(1) Some by (auto simp: x and_then_def split: sum.splits)
    from Cons.IH [OF rep(2) b(1) books_report [OF Cons.prems(3) Some b(2)] Cons.prems(4) _ t(1)] Cons.prems(5) t(2)
    show ?thesis by simp
  qed
qed simp

end

lemma root_accounts_queue [simp]: "root_accounts ex is_id (root\<lparr>request_queue := q\<rparr>) = root_accounts ex is_id root"
  by (simp add: root_accounts_def)

lemma onConfigure_metrics:
  assumes "stats_ok root" "onConfigure L create expr_delete H data root h = Inr (ok, root', h', acts)"
  shows "metrics root' = metrics root"
proof -
  obtain root2 h2 acts2 where "onConfigure L create expr_delete H data root h = Inr (True, root2, h2, acts2)" "metrics root2 = metrics root"
    using onConfigure_ok [OF assms(1)] by metis
  with assms(2) show ?thesis by simp
qed

lemma stats_inv_ok [simp]: "stats_inv root \<Longrightarrow> stats_ok root"
  by (simp add: stats_inv_def)

context drained_counter
begin

lemma onLog_books:
  assumes "stats_inv root" "root_accounts ex is_id root" "recognises L name is_id"
    and "onLog L v i root r = Inr (root', r', acts)"
  shows "root_accounts ex is_id root'"
    "(if request_protocol r = Protocol_TCP then booked is_id acts else 0) + pending r' = pending r"
proof -
  let ?root = "deleteFromRequestQueue i root"
  let ?r = "if request_protocol r = Protocol_TCP then r\<lparr>tcp_connections_closed := tcp_connections_closed r + 1\<rparr> else r"
  have l: "report L v ?root ?r True = Inr (root', r', acts)" using assms(4) by (simp add: onLog_def Let_def)
  have "root_accounts ex is_id ?root" using assms(2) by (simp add: deleteFromRequestQueue_def)
  note b = report_books [OF stats_inv_ok [OF dequeue_inv [OF assms(1)]] this assms(3) l]
  show "root_accounts ex is_id root'" by (rule b(1))
  show "(if request_protocol r = Protocol_TCP then booked is_id acts else 0) + pending r' = pending r"
    using b(2) closing_keeps by (simp split: if_splits)
qed

lemma traced_step_books:
  assumes "traced_step L create expr_delete (root, mem, h) events (root', mem', h')"
    and "\<And>q. set (queue_traversal L q) \<subseteq> set q" "\<And>ys. set (traversal L ys) \<subseteq> set ys" "recognises L name is_id"
    and inv: "stats_inv root" "root_accounts ex is_id root" "books_ok is_id mem trace"
  shows "root_accounts ex is_id root' \<and> books_ok is_id mem' (trace @ events)"
  using assms(1)
proof cases
  case (load H data ok acts)
  have "\<forall>g \<in> set (stats root'). standard_gen g"
    using onConfigure_standard [OF assms(3) load(3)] inv(2) by (simp add: root_accounts_def)
  moreover have "metrics root' = metrics root" using onConfigure_metrics [OF _ load(3)] inv(1) by simp
  ultimately show ?thesis using inv(2,3) load by (simp add: root_accounts_def)
next
  case (open_stream i garbage)
  with inv books_open show ?thesis by simp
next
  case (destroy_stream i)
  with inv show ?thesis by (simp add: books_ok_def)
next
  case (request_headers i r H status r')
  have "pending r' = pending r" using headers_keep [of H root r] request_headers by simp
  with inv books_same [OF inv(3)] request_headers show ?thesis by simp
next
  case (response_headers i r status)
  with inv show ?thesis by (auto simp: onResponseHeaders_def addToRequestQueue_def)
next
  case (new_connection i r r')
  have "books_ok is_id (mem(i \<mapsto> r')) (trace @ [Connected i])"
    by (rule books_event [OF inv(3) new_connection(4)])
      (use connected [of i root r] new_connection(5) in simp_all)
  with inv new_connection show ?thesis by (auto simp: onNewConnection_def addToRequestQueue_def Let_def)
next
  case (downstream_data i r n)
  have "books_ok is_id (mem(i \<mapsto> onDownstreamData n r)) (trace @ [Received i n])"
    by (rule books_event [OF inv(3) downstream_data(5)]) (use received [of n r i] in simp_all)
  with inv downstream_data show ?thesis by simp
next
  case (upstream_data i r n)
  have "books_ok is_id (mem(i \<mapsto> onUpstreamData n r)) (trace @ [Sent i n])"
    by (rule books_event [OF inv(3) upstream_data(5)]) (use sent [of n r i] in simp_all)
  with inv upstream_data show ?thesis by simp
next
  case (tick views)
  have q: "\<forall>(i, p) \<in> set (queue_traversal L (request_queue root)). p = Some i"
    using inv(1) assms(2) [of "request_queue root"] by (auto simp: stats_inv_def)
  show ?thesis
    using tick inv tick_reports_books [OF inv assms(4) q] by (auto simp: onTick_reports_def split: if_splits)
next
  case (log i r v r' acts)
  with inv onLog_books [OF inv(1,2) assms(4)] books_report [OF inv(3)] show ?thesis by metis
qed

end

lemma traced_step_inv:
  "traced_step L create expr_delete (root, mem, h) events (root', mem', h') \<Longrightarrow> stats_inv root \<Longrightarrow>
   (\<And>q. set (queue_traversal L q) \<subseteq> set q) \<Longrightarrow> stats_inv root'"
  using stats_step_inv traced_step_iff by metis

context drained_counter
begin

lemma traced_run_books:
  assumes "traced_run L create expr_delete (initial_stats_root garbage counter is_outbound, Map.empty, h0) trace s"
    and "\<And>q. set (queue_traversal L q) \<subseteq> set q" "\<And>ys. set (traversal L ys) \<subseteq> set ys" "recognises L name is_id"
  shows "stats_inv (fst s) \<and> root_accounts ex is_id (fst s) \<and> books_ok is_id (fst (snd s)) trace"
  using assms(1)
proof induction
  case start
  then show ?case using initial_stats_ok
    by (simp add: stats_inv_def root_accounts_def books_ok_def initial_stats_root_def)
next
  case (step trace t events u)
  obtain root mem h root' mem' h' where s: "t = (root, mem, h)" "u = (root', mem', h')" by (cases t; cases u) auto
  from step.IH have inv: "stats_inv root" "root_accounts ex is_id root" "books_ok is_id mem trace" by (simp_all add: s)
  from traced_step_books [OF step.hyps(2) [unfolded s] assms(2,3,4) inv] traced_step_inv [OF step.hyps(2) [unfolded s] inv(1) assms(2)]
  show ?case by (simp add: s)
qed

lemma record_cached_pending:
  "pending r = 0 \<Longrightarrow> pending (fst (record_cached evaluate end_stream ss r)) = 0"
proof (induction ss arbitrary: r)
  case (Cons s ss)
  obtain r1 acts where 1: "(if end_stream \<or> simple_recurrent s then record_stat evaluate s r else (r, [])) = (r1, acts)" by fastforce
  have "pending (snd (extract_value evaluate (value_fn s) r)) = 0" using Cons.prems drains others by metis
  then have "pending r1 = 0" using 1 Cons.prems by (auto simp: record_stat_def split: if_splits prod.splits)
  with Cons.IH [of r1] 1 show ?case by (simp split: prod.split) (metis fst_conv)
qed simp

lemma record_cached_drains:
  "s \<in> set ss \<Longrightarrow> value_fn s = ex \<Longrightarrow> pending (fst (record_cached evaluate True ss r)) = 0"
proof (induction ss arbitrary: r)
  case (Cons s' ss)
  obtain r1 acts where 1: "record_stat evaluate s' r = (r1, acts)" by fastforce
  have "pending (fst (record_cached evaluate True ss r1)) = 0"
  proof (cases "value_fn s' = ex")
    case True
    then have "pending r1 = 0" using 1 drains [of evaluate r] by (auto simp: record_stat_def split: if_splits prod.splits)
    then show ?thesis by (rule record_cached_pending)
  qed (use Cons in auto)
  with 1 show ?case by (simp split: prod.split) (metis fst_conv)
qed simp

text \<open>
  The final report of a stream hands over all that is pending, if the counter is configured and the
  cache is that of the configuration.
\<close>

lemma onLog_drains:
  assumes "stats_ok root" "initialized root" "cache_ok L root" "g \<in> set (stats root)" "stat_extractor g = ex"
    and "matchesProtocol g Protocol_TCP" "request_protocol r = Protocol_TCP" "onLog L v i root r = Inr (root', r', acts)"
  shows "pending r' = 0"
proof -
  let ?root = "deleteFromRequestQueue i root"
  have l: "report L v ?root (r\<lparr>tcp_connections_closed := tcp_connections_closed r + 1\<rparr>) True = Inr (root', r', acts)"
    using assms(7,8) by (simp add: onLog_def Let_def)
  have ok: "stats_ok ?root" "cache_ok L ?root"
    using assms(1,3) by (simp_all add: deleteFromRequestQueue_def stats_ok_def inputs_ok_def gen_ok_def index_ok_def cache_ok_def stats_for_def)
  from ok(1) l show ?thesis
  proof (cases rule: report_cases)
    case (recorded r1 d ss acts0 extra)
    have p: "request_protocol r1 = Protocol_TCP" using populate_for_report_counts(2) [OF recorded(1)] assms(7) by simp
    have "ss = stats_for L ?root Protocol_TCP d"
      using recorded(2,7) ok(2) p by (auto simp: cache_ok_def)
    then have "stat_of L g d \<in> set ss" using assms(4,6) by (simp add: stats_for_def deleteFromRequestQueue_def)
    from record_cached_drains [OF this, of "view_int v" r1] recorded(3) assms(5) show ?thesis by (simp add: stat_of_def)
  next
    case silent
    then show ?thesis using assms(2,7) by (simp add: deleteFromRequestQueue_def populate_for_report_def split: if_splits)
  qed
qed

end

section \<open>Properties\<close>

text \<open>
  C6: the bytes a stream transfers are accounted for: from the construction of the extension on,
  whatever is configured and reconfigured and in whatever order the host calls the handlers, for
  every stream that exists, what its reports have recorded on the counter of sent bytes since the
  stream was opened, and what is still pending in its request information, are together exactly the
  bytes that were sent; and the same for the bytes received. No byte is lost between two reports
  and none is recorded twice, whatever other streams do in between. The sums are those of 64 bits.
  The host gives ids to metrics; \<open>is_sent\<close> and \<open>is_received\<close> recognise those of the two counters.
\<close>

theorem tcp_bytes_accounted:
  assumes "traced_run L create expr_delete (initial_stats_root garbage counter is_outbound, Map.empty, h0) trace (root, mem, h)"
    and "\<And>q. set (queue_traversal L q) \<subseteq> set q" "\<And>ys. set (traversal L ys) \<subseteq> set ys"
    and "\<And>ty n. is_sent (resolveFullName L ty n) \<longleftrightarrow> suffix ''istio_tcp_sent_bytes_total'' n"
    and "\<And>ty n. is_received (resolveFullName L ty n) \<longleftrightarrow> suffix ''istio_tcp_received_bytes_total'' n"
    and "mem i = Some r"
  shows "tcp_booked is_sent (life i trace) + tcp_sent_bytes r = sent_bytes (life i trace) \<and>
    tcp_booked is_received (life i trace) + tcp_received_bytes r = received_bytes (life i trace)"
proof -
  have s: "recognises L ''istio_tcp_sent_bytes_total'' is_sent" and r: "recognises L ''istio_tcp_received_bytes_total'' is_received"
    using assms(4,5) by (simp_all add: recognises_def)
  from sent.traced_run_books [OF assms(1-3) s] received.traced_run_books [OF assms(1-3) r] assms(6)
  show ?thesis
    by (simp add: sent.books_ok_def sent.credits_def received.books_ok_def received.credits_def sent_bytes_def received_bytes_def)
qed


text \<open>
  An example: the standard configuration is loaded, a stream is opened and connected, and five bytes
  are sent on it. The host numbers the metrics by their names.
\<close>

definition numbering :: "MetricType \<Rightarrow> string \<Rightarrow> u32" where
  "numbering ty n = (if EndsWith n ''istio_tcp_sent_bytes_total'' then 1
     else if EndsWith n ''istio_tcp_received_bytes_total'' then 2 else 0)"

definition account_lib :: stats_lib where
  "account_lib = standard_lib\<lparr>resolveFullName := numbering\<rparr>"

lemma account_lib_facts:
  "JsonParse (jsonlib account_lib) data = Some (JObject [])" "set (traversal account_lib ys) \<subseteq> set ys"
  "traversal account_lib ys = ys" "set (queue_traversal account_lib q) \<subseteq> set q"
  using standard_lib_facts by (simp_all add: account_lib_def)

lemma numbering_sent: "resolveFullName account_lib ty n = 1 \<longleftrightarrow> suffix ''istio_tcp_sent_bytes_total'' n"
  by (simp add: account_lib_def numbering_def EndsWith_iff)

lemma numbering_received: "resolveFullName account_lib ty n = 2 \<longleftrightarrow> suffix ''istio_tcp_received_bytes_total'' n"
proof -
  have "\<not> (suffix ''istio_tcp_sent_bytes_total'' n \<and> suffix ''istio_tcp_received_bytes_total'' n)"
    using suffix_same_cases [of "''istio_tcp_sent_bytes_total''" n "''istio_tcp_received_bytes_total''"]
    by (auto simp: suffix_to_prefix)
  then show ?thesis by (auto simp: account_lib_def numbering_def EndsWith_iff)
qed

definition sending_stream :: RequestInfo where
  "sending_stream = onUpstreamData 5 (snd (onNewConnection 3 (initial_stats_root False (\<lambda>_. 0) True) (initial_RequestInfo (0, 0, 0))))"

lemma sending_run:
  obtains root h acts where
    "traced_run account_lib ready_create (\<lambda>t h. h) (initial_stats_root False (\<lambda>_. 0) True, Map.empty, ())
       [Opened 3, Connected 3, Sent 3 5] (addToRequestQueue 3 (Some 3) root, [3 \<mapsto> sending_stream], h)"
    "onConfigure account_lib ready_create (\<lambda>t h. h) silent_host ''{}'' (initial_stats_root False (\<lambda>_. 0) True) () = Inr (True, root, h, acts)"
proof -
  let ?step = "traced_step account_lib ready_create (\<lambda>t h. h)" and ?init = "initial_stats_root False (\<lambda>_. 0) True"
  let ?run = "traced_run account_lib ready_create (\<lambda>t h. h) (?init, Map.empty, ())"
  obtain root h acts where c: "onConfigure account_lib ready_create (\<lambda>t h. h) silent_host ''{}'' ?init () = Inr (True, root, h, acts)"
    using onConfigure_ok [OF initial_stats_ok] by metis
  have "?run ([] @ []) (root, Map.empty, h)"
    by (rule traced_run.step [OF traced_run.start]) (rule traced_step.load [OF c])
  then have "?run ([] @ [] @ [Opened 3]) (root, [3 \<mapsto> initial_RequestInfo (0, 0, 0)], h)"
    unfolding append.assoc [symmetric] by (intro traced_run.step [OF _ traced_step.open_stream]) simp_all
  moreover have "onNewConnection 3 root r = (addToRequestQueue 3 (Some 3) root, snd (onNewConnection 3 ?init r))" for r
    by (simp add: onNewConnection_def Let_def)
  ultimately have "?run (([] @ [] @ [Opened 3]) @ [Connected 3]) (addToRequestQueue 3 (Some 3) root,
      [3 \<mapsto> initial_RequestInfo (0, 0, 0)](3 \<mapsto> snd (onNewConnection 3 ?init (initial_RequestInfo (0, 0, 0)))), h)"
    by (intro traced_run.step [OF _ traced_step.new_connection]) simp_all
  from traced_run.step [OF this traced_step.upstream_data [of _ 3 "snd (onNewConnection 3 ?init (initial_RequestInfo (0, 0, 0)))" _ _ _ _ _ 5]]
  have "?run [Opened 3, Connected 3, Sent 3 5] (addToRequestQueue 3 (Some 3) root, [3 \<mapsto> sending_stream], h)"
    by (simp add: sending_stream_def)
  with c that show ?thesis by blast
qed

theorem tcp_bytes_accounted_witness:
  "\<exists>root h. traced_run account_lib ready_create (\<lambda>t h. h) (initial_stats_root False (\<lambda>_. 0) True, Map.empty, ())
       [Opened 3, Connected 3, Sent 3 5] (root, [3 \<mapsto> sending_stream], h) \<and>
     tcp_booked (\<lambda>m. m = 1) (life 3 [Opened 3, Connected 3, Sent 3 5]) + tcp_sent_bytes sending_stream = 5"
proof -
  obtain root h acts where r: "traced_run account_lib ready_create (\<lambda>t h. h) (initial_stats_root False (\<lambda>_. 0) True, Map.empty, ())
       [Opened 3, Connected 3, Sent 3 5] (addToRequestQueue 3 (Some 3) root, [3 \<mapsto> sending_stream], h)" using sending_run by metis
  have l: "life 3 [Opened 3, Connected 3, Sent 3 5] = [Connected 3, Sent 3 5]" by (simp add: life_def life_step_def)
  from tcp_bytes_accounted [OF r account_lib_facts(4,2) numbering_sent numbering_received, of 3 sending_stream] r
  show ?thesis unfolding l by (auto simp: sent_bytes_def)
qed


section \<open>Counting requests\<close>

text \<open>The values recorded on the metrics with a given property, in order.\<close>

definition values_on :: "(u32 \<Rightarrow> bool) \<Rightarrow> stats_action list \<Rightarrow> u64 list" where
  "values_on is_id acts = List.map_filter (\<lambda>a. case a of RecordMetric m v \<Rightarrow> if is_id m then Some v else None | _ \<Rightarrow> None) acts"

lemma values_on_append [simp]: "values_on is_id (acts @ acts') = values_on is_id acts @ values_on is_id acts'"
  by (simp add: values_on_def map_filter_def)

lemma values_on_recorded: "recorded acts = [] \<Longrightarrow> values_on is_id acts = []"
  by (induction acts) (auto simp: recorded_def values_on_def map_filter_simps split: stats_action.splits if_splits)

lemma values_of_ones:
  "\<forall>s \<in> set ss. is_id (metric_id s) \<longleftrightarrow> value_fn s = One \<Longrightarrow> record_cached evaluate end_stream ss r = (r', acts) \<Longrightarrow>
   values_on is_id acts = replicate (length (filter (\<lambda>s. value_fn s = One \<and> (end_stream \<or> simple_recurrent s)) ss)) 1"
proof (induction ss arbitrary: r r' acts)
  case (Cons s ss)
  obtain r1 acts1 where 1: "(if end_stream \<or> simple_recurrent s then record_stat evaluate s r else (r, [])) = (r1, acts1)" by fastforce
  obtain r2 acts2 where 2: "record_cached evaluate end_stream ss r1 = (r2, acts2)" by fastforce
  have e: "acts = acts1 @ acts2" using Cons.prems(2) 1 2 by simp
  have "values_on is_id acts1 = (if value_fn s = One \<and> (end_stream \<or> simple_recurrent s) then [1] else [])"
    using 1 Cons.prems(1) by (auto simp: record_stat_def values_on_def map_filter_simps split: if_splits prod.splits)
  with Cons.IH [OF _ 2] Cons.prems(1) show ?case by (simp add: e)
qed (simp add: values_on_def)

text \<open>Reports keep the generators, and a sound cache.\<close>

lemma report_all_keeps:
  "stats_ok root \<Longrightarrow> cache_ok L root \<Longrightarrow> report_all L rs root = Inr (root', outs) \<Longrightarrow>
   stats_ok root' \<and> cache_ok L root' \<and> same_but_cache root root'"
proof (induction rs arbitrary: root outs)
  case (Cons x rs)
  obtain v r e where x: "x = (v, r, e)" by (cases x)
  obtain root1 r1 acts where rep: "report L v root r e = Inr (root1, r1, acts)" "stats_ok root1" "cache_ok L root1" "same_but_cache root root1"
    using report_refines [OF Cons.prems(1,2)] by metis
  obtain outs1 where "report_all L rs root1 = Inr (root', outs1)"
    using Cons.prems(3) rep(1) by (auto simp: x and_then_def split: sum.splits)
  from Cons.IH [OF rep(2,3) this] same_but_cache_trans [OF rep(4)] show ?case by blast
qed simp

text \<open>Among the standard metrics one counts requests: those of HTTP and gRPC, at their end.\<close>

lemma request_names:
  assumes "f \<in> set defaultMetrics"
  shows "suffix ''istio_requests_total'' (xs @ ''istio_'' @ factory_name f) \<longleftrightarrow> extractor f = One"
  using assms by (auto simp: defaultMetrics_def metric_factory_def suffix_to_prefix)

lemma standard_stat_names:
  assumes "recognises L ''istio_requests_total'' is_id" "g = standard_stat fs vs f" "f \<in> set defaultMetrics"
  shows "is_id (metric_id (stat_of L g d)) \<longleftrightarrow> value_fn (stat_of L g d) = One"
proof -
  have "is_id (metric_id (stat_of L g d)) \<longleftrightarrow> suffix ''istio_requests_total'' (stat_name g d)"
    using assms(1) by (simp add: stat_of_def recognises_def)
  also have "\<dots> \<longleftrightarrow> extractor f = One"
    using request_names [OF assms(3), of "metric_prefix g @ concat (map (\<lambda>(tag, i). tag @ value_separator g @ d ! i @ field_separator g)
        (zip (metric_tags g) (stat_indexes g)))"]
    by (simp add: stat_name_def assms(2) standard_stat_def)
  finally show ?thesis by (simp add: stat_of_def assms(2) standard_stat_def)
qed

lemma length_filter_mset: "mset xs = mset ys \<Longrightarrow> length (filter P xs) = length (filter P ys)"
  by (metis mset_filter size_mset)

lemma standard_one_count:
  assumes "mset gs = mset (map (standard_stat fs vs) defaultMetrics)"
  shows "length (filter (\<lambda>s. value_fn s = One \<and> (end_stream \<or> simple_recurrent s))
      (map (\<lambda>g. stat_of L g d) (filter (\<lambda>g. matchesProtocol g p) gs))) =
    (if end_stream \<and> (p = Protocol_HTTP \<or> p = Protocol_GRPC) then 1 else 0)"
proof -
  let ?P = "\<lambda>g. matchesProtocol g p \<and> stat_extractor g = One \<and> (end_stream \<or> stat_recurrent g)"
  have "length (filter (\<lambda>s. value_fn s = One \<and> (end_stream \<or> simple_recurrent s))
      (map (\<lambda>g. stat_of L g d) (filter (\<lambda>g. matchesProtocol g p) gs))) = length (filter ?P gs)"
    by (simp add: filter_map comp_def stat_of_def)
  also have "\<dots> = length (filter ?P (map (standard_stat fs vs) defaultMetrics))"
    by (rule length_filter_mset [OF assms])
  also have "\<dots> = (if end_stream \<and> (p = Protocol_HTTP \<or> p = Protocol_GRPC) then 1 else 0)"
    by (cases p) (simp_all add: defaultMetrics_def metric_factory_def standard_stat_def matchesProtocol_def http_grpc_def)
  finally show ?thesis .
qed

text \<open>The generators of the standard configuration, in whatever order the map is traversed.\<close>

lemma standard_stats:
  assumes "JsonParse (jsonlib L) data = Some j" "json_find j ''definitions'' = None" "json_find j ''metrics'' = None"
    and "\<And>ys. mset (traversal L ys) = mset ys"
    and "onConfigure L create expr_delete H data root h = Inr (ok, root', h', acts)"
  shows "\<exists>fs vs. initialized root' \<and> mset (stats root') = mset (map (standard_stat fs vs) defaultMetrics)"
proof -
  obtain root0 h0 m root1 h1 fs vs where m: "configured_maps L create j root0 h0 = (m, root1, h1)" and i: "initialized root'"
    and s: "stats root' = map (stat_gen fs vs m) (factories m)"
    using onConfigure_stats [OF assms(1,5)] by metis
  have m1: "m = seed_maps\<lparr>factories := traversal L (factories seed_maps)\<rparr>"
    using m configured_maps_standard [OF assms(2,3), of L create root0 h0] by simp
  have "mset (stats root') = mset (map (stat_gen fs vs m) (factories seed_maps))" using assms(4) by (simp add: s m1)
  also have "\<dots> = mset (map (standard_stat fs vs) defaultMetrics)"
  proof -
    have "map (stat_gen fs vs m) (factories seed_maps) = map (standard_stat fs vs) defaultMetrics"
      using standard_stat_gen [of _ m fs vs] by (simp add: seed_maps_eq(1)) (simp add: m1)
    then show ?thesis by (rule arg_cong)
  qed
  finally show ?thesis using i by blast
qed

text \<open>What a final or a periodic report of a stream records on these metrics.\<close>

lemma populateHTTPRequestInfo_protocol:
  "request_protocol (populateHTTPRequestInfo S H out fallback r) = request_protocol (populateRequestProtocol H r)"
  by (simp add: populateHTTPRequestInfo_def Let_def split: prod.split)

lemma final_protocol:
  assumes "populate_for_report L H root p True r = Some r'" "request_protocol r \<noteq> Protocol_TCP"
  shows "request_protocol r' = Protocol_HTTP \<or> request_protocol r' = Protocol_GRPC"
proof -
  from assms have "request_protocol r' = request_protocol (populateRequestProtocol H r)"
    by (auto simp: populate_for_report_def populateHTTPRequestInfo_protocol)
  then show ?thesis by (simp add: populateRequestProtocol_def)
qed

lemma report_counts_requests:
  assumes "stats_ok root" "cache_ok L root" "initialized root" "mset (stats root) = mset (map (standard_stat fs vs) defaultMetrics)"
    and "recognises L ''istio_requests_total'' is_id" "report L v root r end_stream = Inr (root', r', acts)"
  shows "values_on is_id acts = (if end_stream \<and> request_protocol r \<noteq> Protocol_TCP then [1] else [])"
  using assms(1,6)
proof (cases rule: report_cases)
  case silent
  with assms(3) show ?thesis by (auto simp: values_on_def map_filter_simps populate_for_report_def Let_def split: if_splits)
next
  case (recorded r1 d ss acts0 extra)
  let ?p = "request_protocol r1"
  have ss: "ss = map (\<lambda>g. stat_of L g d) (filter (\<lambda>g. matchesProtocol g ?p) (stats root))"
    using recorded(2,7) assms(2) by (auto simp: cache_ok_def stats_for_def)
  have "\<forall>s \<in> set ss. is_id (metric_id s) \<longleftrightarrow> value_fn s = One"
    using standard_stat_names [OF assms(5)] mset_eq_setD [OF assms(4)] by (fastforce simp: ss)
  from values_of_ones [OF this recorded(3)] standard_one_count [OF assms(4), of end_stream L d ?p]
  have v: "values_on is_id acts0 = (if end_stream \<and> (?p = Protocol_HTTP \<or> ?p = Protocol_GRPC) then [1] else [])"
    by (simp add: ss)
  have "end_stream \<Longrightarrow> ?p = Protocol_HTTP \<or> ?p = Protocol_GRPC \<longleftrightarrow> request_protocol r \<noteq> Protocol_TCP"
    using final_protocol [of L "view_host v" root _ r r1] populate_for_report_counts(2) [OF recorded(1)] recorded(1) by auto
  with v recorded(4,5) show ?thesis by (auto simp: values_on_recorded)
qed

text \<open>
  C12: every request is counted once: with the standard configuration loaded, and after whatever
  reports of whatever streams have filled the cache, the end of an HTTP or gRPC stream adds exactly
  one, once, to exactly one of the metrics called \<open>istio_requests_total\<close>; the end of a TCP stream
  and the periodic reports add nothing to any of them. The host gives ids to metrics;
  \<open>is_requests\<close> recognises those of this name, whatever their labels.
\<close>

theorem requests_counted_once:
  assumes "JsonParse (jsonlib L) data = Some j" "json_find j ''definitions'' = None" "json_find j ''metrics'' = None"
    and "\<And>ys. mset (traversal L ys) = mset ys" "stats_ok root0" "metrics root0 = Map.empty"
    and "onConfigure L create expr_delete H data root0 h = Inr (ok, root1, h', acts0)"
    and "report_all L rs root1 = Inr (root, outs)"
    and "\<And>ty n. is_requests (resolveFullName L ty n) \<longleftrightarrow> suffix ''istio_requests_total'' n"
  shows "\<exists>root' r' acts root'' r'' acts'. onLog L v i root r = Inr (root', r', acts) \<and>
    values_on is_requests acts = (if request_protocol r = Protocol_TCP then [] else [1]) \<and>
    report L v root r False = Inr (root'', r'', acts') \<and> values_on is_requests acts' = []"
proof -
  have id: "recognises L ''istio_requests_total'' is_requests" using assms(9) by (simp add: recognises_def)
  have ok1: "stats_ok root1" using onConfigure_ok [OF assms(5), of L create expr_delete H data h] assms(7) by (metis Inr_inject prod.inject)
  have "cache_ok L root1" using onConfigure_metrics [OF assms(5,7)] assms(6) by (simp add: cache_ok_def)
  from report_all_keeps [OF ok1 this assms(8)]
  have ok: "stats_ok root" "cache_ok L root" "initialized root = initialized root1" "stats root = stats root1"
    by (auto dest: same_but_cache_fields)
  obtain fs vs where s: "initialized root1" "mset (stats root1) = mset (map (standard_stat fs vs) defaultMetrics)"
    using standard_stats [OF assms(1-4,7)] by blast
  have q: "stats_ok (deleteFromRequestQueue i root)" "cache_ok L (deleteFromRequestQueue i root)"
    "initialized (deleteFromRequestQueue i root)" "mset (stats (deleteFromRequestQueue i root)) = mset (map (standard_stat fs vs) defaultMetrics)"
    using ok s by (simp_all add: deleteFromRequestQueue_def stats_ok_def inputs_ok_def gen_ok_def index_ok_def cache_ok_def stats_for_def)
  obtain root' r' acts where l: "onLog L v i root r = Inr (root', r', acts)"
    using report_defined [OF q(1)] unfolding onLog_def Let_def by metis
  have "values_on is_requests acts = (if request_protocol r = Protocol_TCP then [] else [1])"
    using report_counts_requests [OF q id l [unfolded onLog_def Let_def]] by simp
  moreover obtain root'' r'' acts' where t: "report L v root r False = Inr (root'', r'', acts')"
    using report_defined [OF ok(1)] by metis
  moreover have "values_on is_requests acts' = []"
    using report_counts_requests [OF ok(1,2) _ _ id t] ok(3,4) s by simp
  ultimately show ?thesis using l by blast
qed

definition request_lib :: stats_lib where
  "request_lib = standard_lib\<lparr>resolveFullName := \<lambda>ty n. if EndsWith n ''istio_requests_total'' then 3 else 0\<rparr>"

theorem requests_counted_once_witness:
  "\<exists>root1 h' acts0 root outs root' r' acts.
     onConfigure request_lib ready_create (\<lambda>t h. h) silent_host ''{}'' (initial_stats_root False (\<lambda>_. 0) True) () = Inr (True, root1, h', acts0) \<and>
     report_all request_lib [(\<lparr>view_host = silent_host, view_string = Map.empty, view_int = Map.empty\<rparr>, initial_RequestInfo (0, 0, 0), True)]
       root1 = Inr (root, outs) \<and>
     onLog request_lib \<lparr>view_host = silent_host, view_string = Map.empty, view_int = Map.empty\<rparr> 3 root (initial_RequestInfo (0, 0, 0)) =
       Inr (root', r', acts) \<and> values_on (\<lambda>m. m = 3) acts = [1]"
proof -
  let ?v = "\<lparr>view_host = silent_host, view_string = Map.empty, view_int = Map.empty\<rparr>" and ?r = "initial_RequestInfo (0, 0, 0)"
  let ?init = "initial_stats_root False (\<lambda>_. 0) True"
  obtain root1 h' acts0 where c: "onConfigure request_lib ready_create (\<lambda>t h. h) silent_host ''{}'' ?init () = Inr (True, root1, h', acts0)"
    "stats_ok root1" "metrics root1 = metrics ?init"
    using onConfigure_ok [OF initial_stats_ok] by metis
  have m: "metrics ?init = Map.empty" by (simp add: initial_stats_root_def)
  have k: "cache_ok request_lib root1" using c(3) m by (simp add: cache_ok_def)
  obtain root outs where a: "report_all request_lib [(?v, ?r, True)] root1 = Inr (root, outs)"
    using report_all_refines [OF c(2) k] by blast
  have lib: "JsonParse (jsonlib request_lib) ''{}'' = Some (JObject [])" "mset (traversal request_lib ys) = mset ys"
    "resolveFullName request_lib ty n = 3 \<longleftrightarrow> suffix ''istio_requests_total'' n" for ys ty n
    using standard_lib_facts by (simp_all add: request_lib_def EndsWith_iff)
  from requests_counted_once [OF lib(1) _ _ lib(2) initial_stats_ok m c(1) a lib(3), of ?v 3 ?r]
  obtain root' r' acts where "onLog request_lib ?v 3 root ?r = Inr (root', r', acts)" "values_on (\<lambda>m. m = 3) acts = [1]"
    by (auto simp: initial_RequestInfo_def)
  with c(1) a show ?thesis by blast
qed

end
