(* ===== verification/Stats_Labels.thy ===== *)
theory Stats_Labels
  imports Stats_Accounting
begin

text \<open>
  The labels of a recorded metric, from end to end: those of the proxy are read from its metadata when
  the configuration is loaded and last through all reports; those of the other side are read from the
  peer of the stream when it is reported.
\<close>

section \<open>The labels of a report\<close>

lemma report_dims_labels:
  assumes "stats_ok root" "initialized root"
    and "peer_get (flatbuf L) (peer_node_info (flatbuf L) (strings (view_host v)) (peer_metadata_id_key root) (peer_metadata_key root)) = Inr node"
    and "report_dims L v root r = Inr d" "l \<noteq> Grpc_response_status"
  shows "dim d l = or_unknown (raw_dim (flatbuf L) (outbound root) node r (istio_dimensions root) l)"
proof -
  have l: "length (istio_dimensions root) = 25 + length (expressions root)" using assms(1,2) by (simp add: stats_ok_def)
  then obtain d1 where d1: "map_dimensions (flatbuf L) (outbound root) node r (istio_dimensions root) = Inr d1"
    "length d1 = length (istio_dimensions root)"
    "\<forall>l. dim d1 l = (if l = Grpc_response_status
        then if request_protocol r = Protocol_GRPC then to_string (unat (grpc_status r)) else ''''
        else or_unknown (raw_dim (flatbuf L) (outbound root) node r (istio_dimensions root) l))"
    using map_dimensions_dims [of "istio_dimensions root"] by (metis le_add1)
  obtain d2 where d2: "evaluate_expressions (view_string v) 0 (expressions root) d1 = Inr d2" "\<forall>k < 25. d2 ! k = d1 ! k"
    using evaluate_expressions_eq [of d1 0 "expressions root"] d1(2) l by auto
  have "d = d2" using assms(4) by (simp add: report_dims_def assms(3) d1(1) d2(1))
  then show ?thesis using d1(3) d2(2) assms(5) label_index_less [of l] by (simp add: dim_def)
qed

text \<open>The labels of the proxy last.\<close>

lemma or_unknown_idem [simp]: "or_unknown (or_unknown s) = or_unknown s"
  by (simp add: or_unknown_def)

lemma report_keeps_local:
  assumes "stats_ok root" "report L v root r end_stream = Inr (root', r', acts)" "l \<in> set (local_labels (outbound root))"
  shows "or_unknown (dim (istio_dimensions root') l) = or_unknown (dim (istio_dimensions root) l)"
proof (cases "initialized root")
  case False
  with assms(2) show ?thesis by (simp add: report_def)
next
  case init: True
  obtain node where node: "peer_get (flatbuf L) (peer_node_info (flatbuf L) (strings (view_host v))
      (peer_metadata_id_key root) (peer_metadata_key root)) = Inr node"
    using peer_get_defined by blast
  have l: "l \<noteq> Grpc_response_status" using assms(3) by (auto simp: local_labels_def split: if_splits)
  from assms(1,2) show ?thesis
  proof (cases rule: report_cases)
    case (recorded r1 d ss acts0 extra)
    from report_dims_labels [OF assms(1) init node recorded(8) l] recorded(9) raw_dim_local [OF assms(3)] show ?thesis
      by simp
  qed simp
qed

lemma report_all_keeps_local:
  "stats_ok root \<Longrightarrow> report_all L rs root = Inr (root', outs) \<Longrightarrow> l \<in> set (local_labels (outbound root)) \<Longrightarrow>
   or_unknown (dim (istio_dimensions root') l) = or_unknown (dim (istio_dimensions root) l)"
proof (induction rs arbitrary: root outs)
  case (Cons x rs)
  obtain v r e where x: "x = (v, r, e)" by (cases x)
  obtain root1 r1 acts where rep: "report L v root r e = Inr (root1, r1, acts)" "stats_ok root1" "same_but_cache root root1"
    using report_defined [OF Cons.prems(1)] by metis
  have o: "outbound root1 = outbound root" using rep(3) by (auto dest: same_but_cache_fields)
  obtain outs1 where "report_all L rs root1 = Inr (root', outs1)"
    using Cons.prems(2) rep(1) by (auto simp: x and_then_def split: sum.splits)
  from Cons.IH [OF rep(2) this] report_keeps_local [OF Cons.prems(1) rep(1)] Cons.prems(3) o show ?case by simp
qed simp

text \<open>After the configuration they are those of the metadata.\<close>

lemma configured_dims:
  assumes "onConfigure L create expr_delete H data root h = Inr (ok, root', h', acts)" "JsonParse (jsonlib L) data = Some j"
  obtains d1 where "25 \<le> length d1" "dim d1 Reporter = (if outbound root then ''source'' else ''destination'')"
    "map_node (flatbuf L) (outbound root) (extractLocalNodeFlatBuffer (flatbuf L) (strings H) (maps H)) d1 = Inr (istio_dimensions root')"
    "outbound root' = outbound root" "peer_metadata_id_key root' = peer_metadata_id_key root"
proof -
  define root2 where "root2 = root\<lparr>local_node_info := Some (extractLocalNodeFlatBuffer (flatbuf L) (strings H) (maps H)),
      use_host_header_fallback := \<not> value_or (JsonGetField JsonValueAs_bool j ''disable_host_header_fallback'') False False\<rparr>"
  let ?node = "extractLocalNodeFlatBuffer (flatbuf L) (strings H) (maps H)"
  obtain root0 h0 where c: "cleanupExpressions expr_delete root2 h = (root0, h0)" by (cases "cleanupExpressions expr_delete root2 h")
  obtain m root1 h1 where m: "configured_maps L create j root0 h0 = (m, root1, h1)" by (cases "configured_maps L create j root0 h0")
  obtain ok3 root3 h3 acts3 where i: "initializeDimensions L create expr_delete j ?node root2 h = Inr (ok3, root3, h3, acts3)"
    using assms(1) by (auto simp: onConfigure_def configure_def assms(2) Let_def root2_def and_then_def split: sum.splits)
  have "without_expressions root1 = without_expressions root2"
    using cleanup_fields [OF c] configured_maps_ok(3) [OF cleanup_fields(2) [OF c] m] by (simp add: extends_def without_expressions_def)
  from arg_cong [OF this, of outbound] arg_cong [OF this, of peer_metadata_id_key]
  have o: "outbound root1 = outbound root" "peer_metadata_id_key root1 = peer_metadata_id_key root"
    by (simp_all add: without_expressions_def root2_def)
  let ?d0 = "resize (count_standard_labels + length (expressions root1)) (istio_dimensions root1)"
  have l: "25 \<le> length ?d0" by (simp add: count_standard_labels_def)
  obtain d1 where d1: "assign_all [(Reporter, if outbound root then ''source'' else ''destination'')] ?d0 = Inr d1"
    "length d1 = length ?d0" "dim d1 Reporter = (if outbound root then ''source'' else ''destination'')"
    using assign_all_dims [OF l, of "[(Reporter, if outbound root then ''source'' else ''destination'')]"] by auto
  have r3: "ok3" "map_node (flatbuf L) (outbound root) ?node d1 = Inr (istio_dimensions root3)"
    "outbound root3 = outbound root" "peer_metadata_id_key root3 = peer_metadata_id_key root"
    using i d1(1) by (auto simp: initializeDimensions_def c m o Let_def and_then_def simp del: assign_all.simps split: sum.splits)
  then have "root' = root3\<lparr>initialized := True\<rparr>"
    using assms(1) i by (simp add: onConfigure_def configure_def assms(2) Let_def root2_def [symmetric])
  with r3 d1(2,3) l show ?thesis by (intro that [of d1]) simp_all
qed

text \<open>A counter of ones that is reported records a one.\<close>

lemma record_cached_one:
  assumes "s \<in> set ss" "value_fn s = One" "end_stream \<or> simple_recurrent s"
  shows "RecordMetric (metric_id s) 1 \<in> set (snd (record_cached evaluate end_stream ss r))"
  using assms(1)
proof (induction ss arbitrary: r)
  case (Cons x ss)
  then show ?case
    using assms(2,3) by (auto simp: record_stat_def split: prod.split) (metis snd_conv)+
qed simp

text \<open>The labels of an endpoint, for the peer of a stream without metadata.\<close>

lemma endpoint_dims:
  assumes "flatbuffers (CreateVectorOfSortedTables fb) (LookupByKey fb)"
    and "\<forall>p \<in> {w, n, s, revision, c}. CHR '';'' \<notin> set p"
    and "props [''upstream_host_metadata'', ''filter_metadata'', ''istio'', ''workload''] =
           Some (join_with (CHR '';'') [w, n, s, revision, c])"
    and "props [kUpstreamMetadataIdKey] = None"
  obtains node where "peer_get fb (peer_node_info fb props kUpstreamMetadataIdKey key) = Inr node"
    "\<And>request d. raw_dim fb True node request d Destination_workload = w"
    "\<And>request d. raw_dim fb True node request d Destination_workload_namespace = n"
    "\<And>request d. raw_dim fb True node request d Destination_cluster = c"
    "\<And>request d. raw_dim fb True node request d Destination_canonical_service = (if s = '''' then w else s)"
    "\<And>request d. raw_dim fb True node request d Destination_canonical_revision = (if revision = '''' then ''latest'' else revision)"
proof -
  let ?pairs = "filter (\<lambda>(key, val). val \<noteq> '''') [(kCanonicalServiceLabelName, s), (kCanonicalServiceRevisionLabelName, revision)]"
  let ?labels = "CreateVectorOfSortedTables fb (map (\<lambda>(key, val). \<lparr>kv_key = key, kv_value = Some val\<rparr>) ?pairs)"
  define node where "node = extractEmptyNodeFlatBuffer\<lparr>node_workload_name := Some w, node_namespace := Some n,
      node_cluster_id := Some c, node_labels := Some ?labels\<rparr>"
  have "LookupByKey fb ?labels key = map_option (\<lambda>val. \<lparr>kv_key = key, kv_value = Some val\<rparr>) (map_of ?pairs key)"
    if "CHR 0x00 \<notin> set key" for key
    by (rule flatbuffers.lookup_pairs [OF assms(1) _ _ that]) (auto simp: label_names)
  note lookup = this [OF label_names(2)] this [OF label_names(3)]
  have s: "label_value_or fb ?labels kCanonicalServiceLabelName x = (if s = '''' then x else s)" for x
    unfolding label_value_or_def lookup(1) using label_names(1) by (auto simp: GetFromFbStringView_def)
  have r: "label_value_or fb ?labels kCanonicalServiceRevisionLabelName x = (if revision = '''' then x else revision)" for x
    unfolding label_value_or_def lookup(2) using label_names(1) by (auto simp: GetFromFbStringView_def)
  have "extractPeerMetadataFromUpstreamHostMetadata fb props = Some node"
    unfolding extractPeerMetadataFromUpstreamHostMetadata_def node_def by (rule endpoint_parts [of w n s revision c props "''upstream_host_metadata''" fb, OF assms(2,3)])
  moreover have "kUpstreamMetadataIdKey \<noteq> kDownstreamMetadataIdKey"
    by (simp add: kUpstreamMetadataIdKey_def kDownstreamMetadataIdKey_def)
  ultimately have g: "peer_get fb (peer_node_info fb props kUpstreamMetadataIdKey key) = Inr node"
    by (simp add: peer_node_info_cases assms(4) fallback_node_def peer_get_def)
  have f: "node_workload_name node = Some w" "node_namespace node = Some n" "node_cluster_id node = Some c" "node_labels node = Some ?labels"
    by (simp_all add: node_def)
  show ?thesis
    by (rule that [OF g]) (simp_all add: raw_dim_def map_request_writes_def map_node_writes_def f s r GetFromFbStringView_def kLatest_def del: filter.simps)
qed

text \<open>The labels of a proxy with an outbound extension, after its configuration.\<close>

lemma configured_source:
  assumes "flatbuffers (CreateVectorOfSortedTables (flatbuf L)) (LookupByKey (flatbuf L))" "JsonParse (jsonlib L) data = Some j"
    and "maps H [''node'', ''metadata'', ''LABELS''] = Some pairs" "distinct (map fst pairs)" "\<forall>p \<in> set pairs. CHR 0x00 \<notin> set (fst p)"
    and "onConfigure L create expr_delete H data (initial_stats_root garbage counter True) h = Inr (ok, root1, h', acts0)"
  shows "outbound root1" "peer_metadata_id_key root1 = kUpstreamMetadataIdKey"
    "dim (istio_dimensions root1) Reporter = ''source''"
    "dim (istio_dimensions root1) Source_workload = case_option '''' id (strings H [''node'', ''metadata'', ''WORKLOAD_NAME''])"
    "dim (istio_dimensions root1) Source_workload_namespace = case_option '''' id (strings H [''node'', ''metadata'', ''NAMESPACE''])"
    "dim (istio_dimensions root1) Source_app = case_option '''' id (map_of pairs ''app'')"
proof -
  obtain d1 where d1: "25 \<le> length d1" "dim d1 Reporter = ''source''"
    "map_node (flatbuf L) True (extractLocalNodeFlatBuffer (flatbuf L) (strings H) (maps H)) d1 = Inr (istio_dimensions root1)"
    and o: "outbound root1" "peer_metadata_id_key root1 = kUpstreamMetadataIdKey"
    using configured_dims [OF assms(6,2)] by (auto simp: initial_stats_root_def)
  show "outbound root1" "peer_metadata_id_key root1 = kUpstreamMetadataIdKey" by (rule o)+
  from local_dimensions_from_metadata [of "flatbuf L" "maps H" pairs d1 "strings H", OF assms(1,3,4,5) d1(1)] d1(2,3)
  show "dim (istio_dimensions root1) Reporter = ''source''"
    "dim (istio_dimensions root1) Source_workload = case_option '''' id (strings H [''node'', ''metadata'', ''WORKLOAD_NAME''])"
    "dim (istio_dimensions root1) Source_workload_namespace = case_option '''' id (strings H [''node'', ''metadata'', ''NAMESPACE''])"
    "dim (istio_dimensions root1) Source_app = case_option '''' id (map_of pairs ''app'')"
    by auto
qed

text \<open>At the end of a request one is recorded under the labels of its report.\<close>

lemma request_recorded:
  assumes "stats_ok root" "cache_ok L root" "initialized root" "mset (stats root) = mset (map (standard_stat fs vs) defaultMetrics)"
    and "request_protocol r \<noteq> Protocol_TCP" "report L v root r True = Inr (root', r', acts)"
  obtains r1 d where "report_dims L v root r1 = Inr d"
    "RecordMetric (resolveFullName L Counter (stat_name (standard_stat fs vs (hd defaultMetrics)) d)) 1 \<in> set acts"
  using assms(1,6)
proof (cases rule: report_cases)
  case silent
  with assms(3,5) show ?thesis by (simp add: populate_for_report_def)
next
  case (recorded r1 d ss acts0 extra)
  let ?g = "standard_stat fs vs (hd defaultMetrics)"
  have ss: "ss = map (\<lambda>g. stat_of L g d) (filter (\<lambda>g. matchesProtocol g (request_protocol r1)) (stats root))"
    using recorded(2,7) assms(2) by (auto simp: cache_ok_def stats_for_def)
  have "?g \<in> set (stats root)" using mset_eq_setD [OF assms(4)] by (simp add: defaultMetrics_def)
  moreover have "matchesProtocol ?g (request_protocol r1)"
    using final_protocol [OF recorded(1) assms(5)]
    by (auto simp: matchesProtocol_def standard_stat_def defaultMetrics_def metric_factory_def http_grpc_def)
  ultimately have "stat_of L ?g d \<in> set ss" by (simp add: ss)
  from record_cached_one [OF this, of True "view_int v" r1]
  have "RecordMetric (resolveFullName L Counter (stat_name ?g d)) 1 \<in> set acts0"
    using recorded(3) by (simp add: stat_of_def standard_stat_def defaultMetrics_def metric_factory_def)
  with recorded(4,8) that show ?thesis by auto
qed

section \<open>Properties\<close>

text \<open>
  C9: a request is counted between the right workloads. The outbound statistics extension is
  constructed and given the standard configuration on a proxy with the metadata \<open>H\<close>; any reports of
  any streams follow; then an HTTP or gRPC stream ends whose upstream endpoint carries the labels
  \<open>workload;namespace;service;revision;cluster\<close> and whose peer has sent no metadata of its own. Then
  one is added to a metric \<open>istio_requests_total\<close> that is labelled with all standard labels, and on
  which the reporter is the source, the source labels are those of the proxy's own metadata, the
  destination labels are those of the endpoint, the canonical service falls back to the workload, the
  revision to \<open>latest\<close>, and whatever is empty is \<open>unknown\<close>.
\<close>

theorem request_counted_between:
  assumes "flatbuffers (CreateVectorOfSortedTables (flatbuf L)) (LookupByKey (flatbuf L))"
    and "JsonParse (jsonlib L) data = Some j" "json_find j ''definitions'' = None" "json_find j ''metrics'' = None"
    and "\<And>ys. mset (traversal L ys) = mset ys"
    and "maps H [''node'', ''metadata'', ''LABELS''] = Some pairs" "distinct (map fst pairs)" "\<forall>p \<in> set pairs. CHR 0x00 \<notin> set (fst p)"
    and "onConfigure L create expr_delete H data (PluginRootContextOutbound garbage counter) h = Inr (ok, root1, h', acts0)"
    and "report_all L rs root1 = Inr (root2, outs)"
    and "\<forall>p \<in> {w, n, s, revision, c}. CHR '';'' \<notin> set p"
    and "strings (view_host v) [''upstream_host_metadata'', ''filter_metadata'', ''istio'', ''workload''] =
           Some (join_with (CHR '';'') [w, n, s, revision, c])"
    and "strings (view_host v) [kUpstreamMetadataIdKey] = None" "request_protocol r \<noteq> Protocol_TCP"
  shows "\<exists>root2' r' acts g d. onLog L v i root2 r = Inr (root2', r', acts) \<and>
    RecordMetric (resolveFullName L Counter (stat_name g d)) 1 \<in> set acts \<and>
    metric_name g = ''istio_requests_total'' \<and> metric_tags g = defaultTags \<and> stat_indexes g = [0..<25] \<and>
    dim d Reporter = ''source'' \<and>
    dim d Source_workload = or_unknown (case_option '''' id (strings H [''node'', ''metadata'', ''WORKLOAD_NAME''])) \<and>
    dim d Source_workload_namespace = or_unknown (case_option '''' id (strings H [''node'', ''metadata'', ''NAMESPACE''])) \<and>
    dim d Source_app = or_unknown (case_option '''' id (map_of pairs ''app'')) \<and>
    dim d Destination_workload = or_unknown w \<and> dim d Destination_workload_namespace = or_unknown n \<and>
    dim d Destination_cluster = or_unknown c \<and>
    dim d Destination_canonical_service = or_unknown (if s = '''' then w else s) \<and>
    dim d Destination_canonical_revision = (if revision = '''' then ''latest'' else revision)"
proof -
  note conf = assms(9) [unfolded PluginRootContextOutbound_def]
  note src = configured_source [OF assms(1,2,6-8) conf]
  obtain fs vs where std: "initialized root1" "mset (stats root1) = mset (map (standard_stat fs vs) defaultMetrics)"
    using standard_stats [OF assms(2-5) conf] by blast
  have ok1: "stats_ok root1"
    using onConfigure_ok [OF initial_stats_ok, of L create expr_delete H data] conf by (metis Inr_inject prod.inject)
  have "cache_ok L root1"
    using onConfigure_metrics [OF initial_stats_ok conf] by (simp add: cache_ok_def initial_stats_root_def)
  from report_all_keeps [OF ok1 this assms(10)]
  have ok: "stats_ok root2" "cache_ok L root2" and same: "same_but_cache root1 root2" by simp_all
  let ?root = "deleteFromRequestQueue i root2"
  have q: "stats_ok ?root" "cache_ok L ?root" "initialized ?root" "mset (stats ?root) = mset (map (standard_stat fs vs) defaultMetrics)"
    "outbound ?root" "peer_metadata_id_key ?root = kUpstreamMetadataIdKey" "istio_dimensions ?root = istio_dimensions root2"
    using ok std src(1,2) same_but_cache_fields [OF same]
    by (simp_all add: deleteFromRequestQueue_def stats_ok_def inputs_ok_def gen_ok_def index_ok_def cache_ok_def stats_for_def)
  obtain root' r' acts where l: "onLog L v i root2 r = Inr (root', r', acts)"
    using report_defined [OF q(1)] unfolding onLog_def Let_def by metis
  obtain r1 d where d: "report_dims L v ?root r1 = Inr d"
    "RecordMetric (resolveFullName L Counter (stat_name (standard_stat fs vs (hd defaultMetrics)) d)) 1 \<in> set acts"
    using request_recorded [OF q(1-4), of r v root' r' acts] l assms(14) by (auto simp: onLog_def)
  obtain node where node: "peer_get (flatbuf L) (peer_node_info (flatbuf L) (strings (view_host v)) kUpstreamMetadataIdKey (peer_metadata_key ?root)) = Inr node"
    and peer: "raw_dim (flatbuf L) True node r1 d0 Destination_workload = w" "raw_dim (flatbuf L) True node r1 d0 Destination_workload_namespace = n"
      "raw_dim (flatbuf L) True node r1 d0 Destination_cluster = c"
      "raw_dim (flatbuf L) True node r1 d0 Destination_canonical_service = (if s = '''' then w else s)"
      "raw_dim (flatbuf L) True node r1 d0 Destination_canonical_revision = (if revision = '''' then ''latest'' else revision)" for d0
    using endpoint_dims [OF assms(1,11,12,13)] by metis
  have labels: "dim d lbl = or_unknown (raw_dim (flatbuf L) True node r1 (istio_dimensions root2) lbl)" if "lbl \<noteq> Grpc_response_status" for lbl
    using report_dims_labels [OF q(1,3) _ d(1) that, of node] node q(5-7) by simp
  have own: "dim d lbl = or_unknown (dim (istio_dimensions root1) lbl)" if "lbl \<in> set (local_labels True)" for lbl
  proof -
    have "lbl \<noteq> Grpc_response_status" using that by (auto simp: local_labels_def)
    from labels [OF this] report_all_keeps_local [OF ok1 assms(10)] src(1) that show ?thesis by (simp add: raw_dim_local)
  qed
  have g: "metric_name g = ''istio_requests_total'' \<and> metric_tags g = defaultTags \<and> stat_indexes g = [0..<25]"
    if "g = standard_stat fs vs (hd defaultMetrics)" for g
    using that by (simp add: standard_stat_def defaultMetrics_def metric_factory_def count_standard_labels_def defaultTags(2))
  show ?thesis
    by (intro exI [of _ root'] exI [of _ r'] exI [of _ acts] exI [of _ "standard_stat fs vs (hd defaultMetrics)"] exI [of _ d] conjI)
      (use l d(2) g in \<open>simp_all add: own labels peer src local_labels_def or_unknown_def\<close>)
qed

text \<open>An example: a proxy of the workload \<open>reviews-v1\<close>, and a request to the workload \<open>ratings-v1\<close>.\<close>

definition reviews_host :: stream_host where
  "reviews_host = silent_host\<lparr>strings := [[''node'', ''metadata'', ''WORKLOAD_NAME''] \<mapsto> ''reviews-v1''],
     maps := [[''node'', ''metadata'', ''LABELS''] \<mapsto> [(''app'', ''reviews'')]]\<rparr>"

definition ratings_view :: stream_view where
  "ratings_view = \<lparr>view_host = silent_host\<lparr>strings :=
       [[''upstream_host_metadata'', ''filter_metadata'', ''istio'', ''workload''] \<mapsto> ''ratings-v1;default;ratings;;c1'']\<rparr>,
     view_string = Map.empty, view_int = Map.empty\<rparr>"

definition mesh_lib :: stats_lib where
  "mesh_lib = request_lib\<lparr>flatbuf := reference_lib\<rparr>"

theorem request_counted_between_witness:
  "\<exists>root1 h' acts0 root' r' acts g d.
     onConfigure mesh_lib ready_create (\<lambda>t h. h) reviews_host ''{}'' (PluginRootContextOutbound False (\<lambda>_. 0)) () = Inr (True, root1, h', acts0) \<and>
     onLog mesh_lib ratings_view 3 root1 (initial_RequestInfo (0, 0, 0)) = Inr (root', r', acts) \<and>
     RecordMetric (resolveFullName mesh_lib Counter (stat_name g d)) 1 \<in> set acts \<and>
     dim d Source_workload = ''reviews-v1'' \<and> dim d Source_workload_namespace = ''unknown'' \<and>
     dim d Destination_canonical_service = ''ratings'' \<and> dim d Destination_canonical_revision = ''latest''"
proof -
  obtain root1 h' acts0 where c: "onConfigure mesh_lib ready_create (\<lambda>t h. h) reviews_host ''{}''
      (PluginRootContextOutbound False (\<lambda>_. 0)) () = Inr (True, root1, h', acts0)"
    unfolding PluginRootContextOutbound_def using onConfigure_ok [OF initial_stats_ok] by metis
  have lib: "flatbuffers (CreateVectorOfSortedTables (flatbuf mesh_lib)) (LookupByKey (flatbuf mesh_lib))"
    "JsonParse (jsonlib mesh_lib) ''{}'' = Some (JObject [])" "mset (traversal mesh_lib ys) = mset ys" for ys
    using reference.flatbuffers_axioms standard_lib_facts by (simp_all add: mesh_lib_def request_lib_def reference_lib_def)
  have labels: "maps reviews_host [''node'', ''metadata'', ''LABELS''] = Some [(''app'', ''reviews'')]" by (simp add: reviews_host_def)
  have peer: "strings (view_host ratings_view) [''upstream_host_metadata'', ''filter_metadata'', ''istio'', ''workload''] =
      Some (join_with (CHR '';'') [''ratings-v1'', ''default'', ''ratings'', '''', ''c1''])" by (simp add: ratings_view_def)
  have id: "strings (view_host ratings_view) [kUpstreamMetadataIdKey] = None" by (simp add: ratings_view_def)
  have parts: "\<forall>p \<in> {''ratings-v1'', ''default'', ''ratings'', '''', ''c1''}. CHR '';'' \<notin> set p" by simp
  have http: "request_protocol (initial_RequestInfo (0, 0, 0)) \<noteq> Protocol_TCP" by (simp add: initial_RequestInfo_def)
  have "json_find (JObject []) f = None" for f by simp
  from request_counted_between [OF lib(1,2) this this lib(3) labels _ _ c report_all.simps(1) parts peer id http, of 3]
  obtain root' r' acts g d where "onLog mesh_lib ratings_view 3 root1 (initial_RequestInfo (0, 0, 0)) = Inr (root', r', acts)"
    "RecordMetric (resolveFullName mesh_lib Counter (stat_name g d)) 1 \<in> set acts"
    "dim d Source_workload = ''reviews-v1'' \<and> dim d Source_workload_namespace = ''unknown'' \<and>
     dim d Destination_canonical_service = ''ratings'' \<and> dim d Destination_canonical_revision = ''latest''"
    by (auto simp: reviews_host_def or_unknown_def)
  with c show ?thesis by blast
qed

end
