(* ===== verification/Opa_Streams.thy ===== *)
theory Opa_Streams
  imports Opa_Plugin
begin

text \<open>
  The streams of the Open Policy Agent extension: every request that reaches the extension is
  settled once, at once or by the callback of its call. The state machine of \<open>Opa_Plugin\<close> is
  observed through the events of the streams: a request of a stream arrives, and a stream is
  settled, by \<open>Continue\<close>, by a local response, or by being resumed.
\<close>

section \<open>Events\<close>

datatype opa_event = Arrived u32 | Settled u32

text \<open>The calls to the host that decide about the stream whose context is the effective one.\<close>

fun is_verdict :: "host_action \<Rightarrow> bool" where
  "is_verdict (SendLocalResponse _ _ _ _) = True"
| "is_verdict ContinueRequest = True"
| "is_verdict _ = False"

fun settled_by :: "u32 \<Rightarrow> host_action list \<Rightarrow> opa_event list" where
  "settled_by i [] = []"
| "settled_by i (a # acts) =
     (case a of SetEffectiveContext j \<Rightarrow> settled_by j acts
      | _ \<Rightarrow> (if is_verdict a then [Settled i] else []) @ settled_by i acts)"

definition request_events :: "u32 \<Rightarrow> FilterHeadersStatus \<Rightarrow> host_action list \<Rightarrow> opa_event list" where
  "request_events i status acts = Arrived i # settled_by i acts @ (if status = Continue then [Settled i] else [])"

text \<open>
  The steps with their events. A callback runs with the root context as the effective one, whose id
  is \<open>root_id\<close>.
\<close>

inductive opa_traced :: "json_lib \<Rightarrow> (string \<Rightarrow> u64) \<Rightarrow> u32 \<Rightarrow> opa_system \<Rightarrow> opa_event list \<Rightarrow> opa_system \<Rightarrow> bool"
  for L std_hash root_id where
  configure:
    "onConfigure L resolve data (root s) = (ok, root') \<Longrightarrow> opa_traced L std_hash root_id s [] (s\<lparr>root := root'\<rparr>)"
| request:
    "onRequestHeaders L std_hash props now call_result i (root s) = Inr (status, acts, root', call) \<Longrightarrow>
     opa_traced L std_hash root_id s (request_events i status acts)
       (record_admitted (status = Continue) (request_payload props) now
         (s\<lparr>root := root', pending := (case call of None \<Rightarrow> [] | Some c \<Rightarrow> [(c, request_payload props)]) @ pending s\<rparr>))"
| response:
    "n < length (pending s) \<Longrightarrow> pending s ! n = (call, payload) \<Longrightarrow>
     check_response L live body now call (root s) = Inr (acts, root') \<Longrightarrow>
     opa_traced L std_hash root_id s (settled_by root_id acts)
       (record_admitted (ContinueRequest \<in> set acts) payload now
         (s\<lparr>root := root', pending := take n (pending s) @ drop (Suc n) (pending s),
            answers := (case opa_answer L body of None \<Rightarrow> [] | Some r \<Rightarrow> [(payload, r, now)]) @ answers s\<rparr>))"

lemma opa_traced_iff: "opa_step L std_hash s t \<longleftrightarrow> (\<exists>events. opa_traced L std_hash root_id s events t)"
  by (auto intro: opa_step.intros opa_traced.intros elim!: opa_step.cases opa_traced.cases)

inductive opa_run :: "json_lib \<Rightarrow> (string \<Rightarrow> u64) \<Rightarrow> u32 \<Rightarrow> opa_system \<Rightarrow> opa_event list \<Rightarrow> opa_system \<Rightarrow> bool"
  for L std_hash root_id s0 where
  start: "opa_run L std_hash root_id s0 [] s0"
| step: "opa_run L std_hash root_id s0 trace s \<Longrightarrow> opa_traced L std_hash root_id s events t \<Longrightarrow>
    opa_run L std_hash root_id s0 (trace @ events) t"

lemma opa_run_reachable: "opa_run L std_hash root_id s0 trace s \<Longrightarrow> (opa_step L std_hash)\<^sup>*\<^sup>* s0 s"
  by (induction rule: opa_run.induct) (auto simp: opa_traced_iff [of L std_hash _ _ root_id] intro: rtranclp.rtrancl_into_rtrancl)

section \<open>The balance\<close>

text \<open>How many calls of a stream are under way.\<close>

definition calls_of :: "u32 \<Rightarrow> opa_system \<Rightarrow> nat" where
  "calls_of i s = length (filter (\<lambda>(c, p). stream_context_id c = i) (pending s))"

definition balanced :: "u32 \<Rightarrow> opa_event list \<Rightarrow> opa_system \<Rightarrow> bool" where
  "balanced i trace s \<longleftrightarrow> count_list trace (Arrived i) = count_list trace (Settled i) + calls_of i s"

lemma calls_of_record [simp]: "calls_of i (record_admitted ok p now s) = calls_of i s"
  by (simp add: calls_of_def record_admitted_def)

text \<open>A request settles its stream, or makes one call for it.\<close>

lemma request_settles:
  assumes "onRequestHeaders L std_hash props now call_result i rt = Inr (status, acts, rt', call)"
  shows "request_events i status acts = (case call of None \<Rightarrow> [Arrived i, Settled i] | Some c \<Rightarrow> [Arrived i]) \<and>
    (\<forall>c. call = Some c \<longrightarrow> stream_context_id c = i)"
  using assms by (auto simp: onRequestHeaders_def check_stream_def checkCache_def request_events_def Let_def
      split: sum.splits prod.splits if_splits)

text \<open>A callback settles the stream of its call.\<close>

lemma response_settles:
  assumes "check_response L live body now call rt = Inr (acts, rt')"
  shows "settled_by root_id acts = [Settled (stream_context_id call)]"
  using check_response_answer [OF assms] by (auto split: option.splits)

lemma calls_of_removed:
  assumes "n < length (pending s)" "pending s ! n = (call, p)"
  shows "calls_of i s = calls_of i (s\<lparr>pending := take n (pending s) @ drop (Suc n) (pending s)\<rparr>) +
    (if stream_context_id call = i then 1 else 0)"
  using assms unfolding calls_of_def by (subst id_take_nth_drop [OF assms(1)]) simp

lemma opa_traced_balance:
  assumes "opa_traced L std_hash root_id s events t" "balanced i trace s"
  shows "balanced i (trace @ events) t"
  using assms(1)
proof cases
  case (configure resolve data ok root')
  with assms(2) show ?thesis by (simp add: balanced_def calls_of_def)
next
  case (request props now call_result j status acts root' call)
  with request_settles [OF request(3)] assms(2) show ?thesis
    by (auto simp: balanced_def calls_of_def record_admitted_def split: option.splits)
next
  case (response n call payload live body now acts root')
  have "calls_of i t = calls_of i (s\<lparr>pending := take n (pending s) @ drop (Suc n) (pending s)\<rparr>)"
    using response(2) by (simp add: calls_of_def record_admitted_def)
  with response_settles [OF response(5)] calls_of_removed [OF response(3,4), of i] response(1) assms(2) show ?thesis
    by (auto simp: balanced_def)
qed

section \<open>Properties\<close>

text \<open>
  C10: every request is settled exactly once: in every run, whatever the host and OPA answer and in
  whatever order, a stream has been settled as often as requests of it have arrived, less the calls
  that are still under way for it. No request is left without a verdict or a call that will bring
  one, and no callback decides a second time about a stream, or about another one. When no call is
  under way, every request that arrived is settled.
\<close>

theorem requests_settled_once:
  assumes "opa_run L std_hash root_id (initial_opa_system hits misses) trace s"
  shows "count_list trace (Arrived i) = count_list trace (Settled i) +
      length (filter (\<lambda>(c, p). stream_context_id c = i) (pending s)) \<and>
    (pending s = [] \<longrightarrow> (\<forall>j. count_list trace (Settled j) = count_list trace (Arrived j)))"
proof -
  have "balanced j trace s" for j
    using assms
  proof induction
    case start
    show ?case by (simp add: balanced_def calls_of_def initial_opa_system_def)
  next
    case (step trace s events t)
    with opa_traced_balance show ?case by blast
  qed
  then show ?thesis by (auto simp: balanced_def calls_of_def)
qed

theorem requests_settled_once_witness:
  "\<exists>s. opa_run example_opa (\<lambda>_. 0) 0 (initial_opa_system 3 4) [Arrived 1, Settled 1] s \<and> pending s = [] \<and>
     count_list [Arrived 1, Settled 1] (Settled 1) = 1"
proof -
  let ?s = "initial_opa_system 3 4" and ?run = "opa_run example_opa (\<lambda>_. 0) 0 (initial_opa_system 3 4)"
  have q: "onRequestHeaders example_opa (\<lambda>_. 0) example_props 5 (Failure 1) 1 (root ?s) =
      Inr (StopIteration, [IncrementMetric 4 1, HttpCall '''' (opa_headers (initial_opa_root 3 4)) '''' [] 5000,
        SendLocalResponse 500 ''OPA policy check call failed'' '''' []], initial_opa_root 3 4, None)"
    using example_check by (simp add: onRequestHeaders_def check_stream_def checkCache_def initial_opa_root_def
        initial_opa_system_def Let_def example_opa_def opa_headers_def)
  have "?run ([] @ [Arrived 1, Settled 1]) ?s"
    using opa_run.step [OF opa_run.start opa_traced.request [OF q]]
    by (simp add: request_events_def record_admitted_def initial_opa_system_def)
  with requests_settled_once [OF this, of 1] show ?thesis
    by (intro exI [of _ ?s]) (simp add: initial_opa_system_def)
qed

end
