(* ===== verification/Node_Schema.thy ===== *)
theory Node_Schema
  imports Flat_Node "HOL-Library.Monad_Syntax"
begin

text \<open>
  The binary schema of a node (\<open>extensions/common/node_info_bfbs_generated.h\<close>), which
  \<open>nodeInfoSchema\<close> of \<open>extensions/common/context.cc\<close> hands out for others to read the nodes with. It
  was generated from \<open>node_info.fbs\<close> together with the accessors of \<open>Flat_Node\<close>; here it is read as
  what it is, a FlatBuffers buffer that describes tables and their fields, and compared with them.
\<close>

section \<open>The code\<close>

text \<open>The data, in the lines of the source.\<close>

definition bfbsRows :: "u8 list list" where
  "bfbsRows = [
    [0x18, 0x00, 0x00, 0x00, 0x42, 0x46, 0x42, 0x53, 0x10, 0x00, 0x1C, 0x00, 0x04, 0x00, 0x08, 0x00, 0x0C, 0x00, 0x10, 0x00],
    [0x14, 0x00, 0x18, 0x00, 0x10, 0x00, 0x00, 0x00, 0x30, 0x00, 0x00, 0x00, 0x28, 0x00, 0x00, 0x00, 0x1C, 0x00, 0x00, 0x00],
    [0x10, 0x00, 0x00, 0x00, 0x2C, 0x00, 0x00, 0x00, 0x04, 0x00, 0x00, 0x00, 0x00, 0x00, 0x00, 0x00, 0x00, 0x00, 0x00, 0x00],
    [0x00, 0x00, 0x00, 0x00, 0x00, 0x00, 0x00, 0x00, 0x00, 0x00, 0x00, 0x00, 0x00, 0x00, 0x00, 0x00, 0x02, 0x00, 0x00, 0x00],
    [0x08, 0x00, 0x00, 0x00, 0x60, 0x02, 0x00, 0x00, 0xB0, 0xFD, 0xFF, 0xFF, 0x3C, 0x00, 0x00, 0x00, 0x08, 0x00, 0x00, 0x00],
    [0x01, 0x00, 0x00, 0x00, 0x0B, 0x00, 0x00, 0x00, 0x9C, 0x00, 0x00, 0x00, 0x70, 0x00, 0x00, 0x00, 0x40, 0x00, 0x00, 0x00],
    [0xE8, 0x00, 0x00, 0x00, 0xA0, 0x01, 0x00, 0x00, 0xBC, 0x00, 0x00, 0x00, 0x00, 0x02, 0x00, 0x00, 0xC8, 0x01, 0x00, 0x00],
    [0x60, 0x01, 0x00, 0x00, 0xFC, 0x00, 0x00, 0x00, 0x2C, 0x01, 0x00, 0x00, 0x14, 0x00, 0x00, 0x00, 0x57, 0x61, 0x73, 0x6D],
    [0x2E, 0x43, 0x6F, 0x6D, 0x6D, 0x6F, 0x6E, 0x2E, 0x46, 0x6C, 0x61, 0x74, 0x4E, 0x6F, 0x64, 0x65, 0x00, 0x00, 0x00, 0x00],
    [0xCC, 0xFD, 0xFF, 0xFF, 0x0A, 0x00, 0x18, 0x00, 0x10, 0x00, 0x00, 0x00, 0x04, 0x00, 0x00, 0x00, 0xAC, 0xFF, 0xFF, 0xFF],
    [0x00, 0x00, 0x0E, 0x0D, 0x0C, 0x00, 0x00, 0x00, 0x69, 0x6E, 0x73, 0x74, 0x61, 0x6E, 0x63, 0x65, 0x5F, 0x69, 0x70, 0x73],
    [0x00, 0x00, 0x00, 0x00, 0xF8, 0xFD, 0xFF, 0xFF, 0x09, 0x00, 0x16, 0x00, 0x10, 0x00, 0x00, 0x00, 0x04, 0x00, 0x00, 0x00],
    [0xB2, 0xFD, 0xFF, 0xFF, 0x00, 0x00, 0x00, 0x0D, 0x0A, 0x00, 0x00, 0x00, 0x63, 0x6C, 0x75, 0x73, 0x74, 0x65, 0x72, 0x5F],
    [0x69, 0x64, 0x00, 0x00, 0x20, 0xFE, 0xFF, 0xFF, 0x08, 0x00, 0x14, 0x00, 0x18, 0x00, 0x00, 0x00, 0x0C, 0x00, 0x00, 0x00],
    [0x08, 0x00, 0x08, 0x00, 0x06, 0x00, 0x07, 0x00, 0x08, 0x00, 0x00, 0x00, 0x00, 0x00, 0x0E, 0x0D, 0x0E, 0x00, 0x00, 0x00],
    [0x61, 0x70, 0x70, 0x5F, 0x63, 0x6F, 0x6E, 0x74, 0x61, 0x69, 0x6E, 0x65, 0x72, 0x73, 0x00, 0x00, 0x54, 0xFE, 0xFF, 0xFF],
    [0x07, 0x00, 0x12, 0x00, 0x10, 0x00, 0x00, 0x00, 0x04, 0x00, 0x00, 0x00, 0x0E, 0xFE, 0xFF, 0xFF, 0x00, 0x00, 0x00, 0x0D],
    [0x07, 0x00, 0x00, 0x00, 0x6D, 0x65, 0x73, 0x68, 0x5F, 0x69, 0x64, 0x00, 0x78, 0xFE, 0xFF, 0xFF, 0x06, 0x00, 0x10, 0x00],
    [0x10, 0x00, 0x00, 0x00, 0x04, 0x00, 0x00, 0x00, 0x32, 0xFE, 0xFF, 0xFF, 0x00, 0x00, 0x00, 0x0D, 0x0D, 0x00, 0x00, 0x00],
    [0x69, 0x73, 0x74, 0x69, 0x6F, 0x5F, 0x76, 0x65, 0x72, 0x73, 0x69, 0x6F, 0x6E, 0x00, 0x00, 0x00, 0xA4, 0xFE, 0xFF, 0xFF],
    [0x05, 0x00, 0x0E, 0x00, 0x14, 0x00, 0x00, 0x00, 0x04, 0x00, 0x00, 0x00, 0x6E, 0xFF, 0xFF, 0xFF, 0x00, 0x00, 0x0E, 0x0F],
    [0x01, 0x00, 0x00, 0x00, 0x11, 0x00, 0x00, 0x00, 0x70, 0x6C, 0x61, 0x74, 0x66, 0x6F, 0x72, 0x6D, 0x5F, 0x6D, 0x65, 0x74],
    [0x61, 0x64, 0x61, 0x74, 0x61, 0x00, 0x00, 0x00, 0xD8, 0xFE, 0xFF, 0xFF, 0x04, 0x00, 0x0C, 0x00, 0x10, 0x00, 0x00, 0x00],
    [0x04, 0x00, 0x00, 0x00, 0x92, 0xFE, 0xFF, 0xFF, 0x00, 0x00, 0x00, 0x0D, 0x0D, 0x00, 0x00, 0x00, 0x77, 0x6F, 0x72, 0x6B],
    [0x6C, 0x6F, 0x61, 0x64, 0x5F, 0x6E, 0x61, 0x6D, 0x65, 0x00, 0x00, 0x00, 0x04, 0xFF, 0xFF, 0xFF, 0x03, 0x00, 0x0A, 0x00],
    [0x10, 0x00, 0x00, 0x00, 0x04, 0x00, 0x00, 0x00, 0xBE, 0xFE, 0xFF, 0xFF, 0x00, 0x00, 0x00, 0x0D, 0x05, 0x00, 0x00, 0x00],
    [0x6F, 0x77, 0x6E, 0x65, 0x72, 0x00, 0x00, 0x00, 0x0C, 0x00, 0x12, 0x00, 0x08, 0x00, 0x0C, 0x00, 0x04, 0x00, 0x06, 0x00],
    [0x0C, 0x00, 0x00, 0x00, 0x02, 0x00, 0x08, 0x00, 0x20, 0x00, 0x00, 0x00, 0x10, 0x00, 0x00, 0x00, 0x00, 0x00, 0x0A, 0x00],
    [0x0C, 0x00, 0x06, 0x00, 0x07, 0x00, 0x08, 0x00, 0x0A, 0x00, 0x00, 0x00, 0x00, 0x00, 0x0E, 0x0F, 0x01, 0x00, 0x00, 0x00],
    [0x06, 0x00, 0x00, 0x00, 0x6C, 0x61, 0x62, 0x65, 0x6C, 0x73, 0x00, 0x00, 0x68, 0xFF, 0xFF, 0xFF, 0x01, 0x00, 0x06, 0x00],
    [0x10, 0x00, 0x00, 0x00, 0x04, 0x00, 0x00, 0x00, 0x22, 0xFF, 0xFF, 0xFF, 0x00, 0x00, 0x00, 0x0D, 0x09, 0x00, 0x00, 0x00],
    [0x6E, 0x61, 0x6D, 0x65, 0x73, 0x70, 0x61, 0x63, 0x65, 0x00, 0x00, 0x00, 0x0C, 0x00, 0x10, 0x00, 0x08, 0x00, 0x0C, 0x00],
    [0x00, 0x00, 0x06, 0x00, 0x0C, 0x00, 0x00, 0x00, 0x00, 0x00, 0x04, 0x00, 0x10, 0x00, 0x00, 0x00, 0x04, 0x00, 0x00, 0x00],
    [0x56, 0xFF, 0xFF, 0xFF, 0x00, 0x00, 0x00, 0x0D, 0x04, 0x00, 0x00, 0x00, 0x6E, 0x61, 0x6D, 0x65, 0x00, 0x00, 0x00, 0x00],
    [0x0C, 0x00, 0x10, 0x00, 0x04, 0x00, 0x08, 0x00, 0x00, 0x00, 0x0C, 0x00, 0x0C, 0x00, 0x00, 0x00, 0x18, 0x00, 0x00, 0x00],
    [0x08, 0x00, 0x00, 0x00, 0x01, 0x00, 0x00, 0x00, 0x02, 0x00, 0x00, 0x00, 0x64, 0x00, 0x00, 0x00, 0x28, 0x00, 0x00, 0x00],
    [0x12, 0x00, 0x00, 0x00, 0x57, 0x61, 0x73, 0x6D, 0x2E, 0x43, 0x6F, 0x6D, 0x6D, 0x6F, 0x6E, 0x2E, 0x4B, 0x65, 0x79, 0x56],
    [0x61, 0x6C, 0x00, 0x00, 0x0C, 0x00, 0x10, 0x00, 0x08, 0x00, 0x0C, 0x00, 0x04, 0x00, 0x06, 0x00, 0x0C, 0x00, 0x00, 0x00],
    [0x01, 0x00, 0x06, 0x00, 0x10, 0x00, 0x00, 0x00, 0x04, 0x00, 0x00, 0x00, 0xC6, 0xFF, 0xFF, 0xFF, 0x00, 0x00, 0x00, 0x0D],
    [0x05, 0x00, 0x00, 0x00, 0x76, 0x61, 0x6C, 0x75, 0x65, 0x00, 0x16, 0x00, 0x12, 0x00, 0x08, 0x00, 0x0C, 0x00, 0x00, 0x00],
    [0x06, 0x00, 0x00, 0x00, 0x00, 0x00, 0x00, 0x00, 0x04, 0x00, 0x05, 0x00, 0x16, 0x00, 0x00, 0x00, 0x01, 0x01, 0x04, 0x00],
    [0x18, 0x00, 0x00, 0x00, 0x0C, 0x00, 0x00, 0x00, 0x00, 0x00, 0x06, 0x00, 0x08, 0x00, 0x07, 0x00, 0x06, 0x00, 0x00, 0x00],
    [0x00, 0x00, 0x00, 0x0D, 0x03, 0x00, 0x00, 0x00, 0x6B, 0x65, 0x79, 0x00]]"

definition bfbsData :: "u8 list" where
  "bfbsData = concat bfbsRows"

definition FlatNodeBinarySchema_size :: nat where
  "FlatNodeBinarySchema_size = 852"

definition nodeInfoSchema :: string where
  "nodeInfoSchema = map char_of_byte (take FlatNodeBinarySchema_size bfbsData)"

section \<open>Reading a buffer\<close>

text \<open>
  The binary format of FlatBuffers, as documented: numbers are little-endian, an offset is relative
  to its own position, a table begins with the distance to its vtable, which holds the length of
  itself, that of the table, and the position in the table of each field, 0 if it is absent. All
  reads are within the buffer, or fail.
\<close>

definition u8_at :: "string \<Rightarrow> nat \<Rightarrow> nat option" where
  "u8_at b p = (if p < length b then Some (of_char (b ! p)) else None)"

definition u16_at :: "string \<Rightarrow> nat \<Rightarrow> nat option" where
  "u16_at b p = do { l \<leftarrow> u8_at b p; h \<leftarrow> u8_at b (p + 1); Some (l + 256 * h) }"

definition u32_at :: "string \<Rightarrow> nat \<Rightarrow> nat option" where
  "u32_at b p = do { l \<leftarrow> u16_at b p; h \<leftarrow> u16_at b (p + 2); Some (l + 65536 * h) }"

definition follow :: "string \<Rightarrow> nat \<Rightarrow> nat option" where
  "follow b p = do { n \<leftarrow> u32_at b p; Some (p + n) }"

definition vtable_at :: "string \<Rightarrow> nat \<Rightarrow> nat option" where
  "vtable_at b t = do { n \<leftarrow> u32_at b t; Some ((t + (2 ^ 32 - n)) mod 2 ^ 32) }"

text \<open>The position of the field with the given slot, if it is present.\<close>

definition field_at :: "string \<Rightarrow> nat \<Rightarrow> nat \<Rightarrow> nat option option" where
  "field_at b t slot = do {
     v \<leftarrow> vtable_at b t;
     len \<leftarrow> u16_at b v;
     n \<leftarrow> (if slot < len then u16_at b (v + slot) else Some 0);
     Some (if n = 0 then None else Some (t + n)) }"

definition string_at_pos :: "string \<Rightarrow> nat \<Rightarrow> string option" where
  "string_at_pos b p = do { n \<leftarrow> u32_at b p; cs \<leftarrow> those (map (\<lambda>i. u8_at b (p + 4 + i)) [0..<n]); Some (map char_of cs) }"

definition the_field :: "string \<Rightarrow> nat \<Rightarrow> nat \<Rightarrow> nat option" where
  "the_field b t slot = do { f \<leftarrow> field_at b t slot; f }"

definition number_field :: "(string \<Rightarrow> nat \<Rightarrow> nat option) \<Rightarrow> string \<Rightarrow> nat \<Rightarrow> nat \<Rightarrow> nat \<Rightarrow> nat option" where
  "number_field read b t slot unset = do { f \<leftarrow> field_at b t slot; case f of None \<Rightarrow> Some unset | Some p \<Rightarrow> read b p }"

definition vector_at :: "string \<Rightarrow> nat \<Rightarrow> nat list option" where
  "vector_at b p = do { n \<leftarrow> u32_at b p; those (map (\<lambda>i. follow b (p + 4 + 4 * i)) [0..<n]) }"

text \<open>
  The tables of a schema, as the schema of schemas has them: a schema has its tables in slot 4 and
  the root table in slot 12, a table its name in 4 and its fields in 6, a field its name in 4, its
  type in 6, its slot in 10, and whether it is required in 18 and the key in 20; a type its base type
  in 4, that of its elements in 6, and the number of the table in 8. The base types in use are 13 for
  strings, 14 for vectors and 15 for tables.
\<close>

datatype schema_type = Text | Texts | Tables nat

record schema_field =
  schema_name :: string
  schema_slot :: nat
  schema_type :: schema_type
  schema_required :: bool
  schema_key :: bool

definition read_type :: "string \<Rightarrow> nat \<Rightarrow> schema_type option" where
  "read_type b t = do {
     base \<leftarrow> number_field u8_at b t 4 0;
     element \<leftarrow> number_field u8_at b t 6 0;
     index \<leftarrow> number_field u32_at b t 8 (2 ^ 32 - 1);
     if base = 13 then Some Text
     else if base = 14 \<and> element = 13 then Some Texts
     else if base = 14 \<and> element = 15 then Some (Tables index)
     else None }"

definition read_field :: "string \<Rightarrow> nat \<Rightarrow> schema_field option" where
  "read_field b t = do {
     n \<leftarrow> the_field b t 4; n \<leftarrow> follow b n; name \<leftarrow> string_at_pos b n;
     y \<leftarrow> the_field b t 6; y \<leftarrow> follow b y; ty \<leftarrow> read_type b y;
     slot \<leftarrow> number_field u16_at b t 10 0;
     req \<leftarrow> number_field u8_at b t 18 0;
     key \<leftarrow> number_field u8_at b t 20 0;
     Some \<lparr>schema_name = name, schema_slot = slot, schema_type = ty, schema_required = req \<noteq> 0, schema_key = key \<noteq> 0\<rparr> }"

definition read_object :: "string \<Rightarrow> nat \<Rightarrow> (string \<times> schema_field list) option" where
  "read_object b t = do {
     n \<leftarrow> the_field b t 4; n \<leftarrow> follow b n; name \<leftarrow> string_at_pos b n;
     v \<leftarrow> the_field b t 6; v \<leftarrow> follow b v; fs \<leftarrow> vector_at b v;
     fields \<leftarrow> those (map (read_field b) fs);
     Some (name, fields) }"

text \<open>The file identifier, the root table, and the tables.\<close>

definition read_schema :: "string \<Rightarrow> (string \<times> string \<times> (string \<times> schema_field list) list) option" where
  "read_schema b = do {
     s \<leftarrow> follow b 0;
     v \<leftarrow> the_field b s 4; v \<leftarrow> follow b v; os \<leftarrow> vector_at b v;
     objects \<leftarrow> those (map (read_object b) os);
     r \<leftarrow> the_field b s 12; r \<leftarrow> follow b r; top \<leftarrow> read_object b r;
     Some (take 4 (drop 4 b), fst top, objects) }"

section \<open>The bytes\<close>

lemma length_bfbsData: "length bfbsData = 852"
  by (simp add: bfbsData_def bfbsRows_def)

lemma nth_concat_rows:
  "\<forall>r \<in> set (butlast rows). length r = n \<Longrightarrow> length (last rows) \<le> n \<Longrightarrow> 0 < n \<Longrightarrow> i < length (concat rows) \<Longrightarrow>
   concat rows ! i = rows ! (i div n) ! (i mod n)"
proof (induction rows arbitrary: i)
  case (Cons r rows)
  show ?case
  proof (cases "rows = []")
    case False
    then have r: "length r = n" "\<forall>r \<in> set (butlast rows). length r = n" "length (last rows) \<le> n"
      using Cons.prems(1,2) by simp_all
    show ?thesis
    proof (cases "i < n")
      case False
      then have "i div n = Suc ((i - n) div n)" "i mod n = (i - n) mod n"
        using Cons.prems(3) by (simp_all add: le_div_geq le_mod_geq)
      with Cons.IH [OF r(2,3) Cons.prems(3), of "i - n"] Cons.prems(4) r(1) False show ?thesis by (simp add: nth_append)
    qed (use r in \<open>simp add: nth_append\<close>)
  qed (use Cons.prems in simp)
qed simp

lemma nth_bfbsData: "i < 852 \<Longrightarrow> bfbsData ! i = bfbsRows ! (i div 20) ! (i mod 20)"
  using nth_concat_rows [of bfbsRows 20 i] length_bfbsData unfolding bfbsData_def
  by (simp add: bfbsRows_def del: concat.simps)

text \<open>The rows, as equations.\<close>

lemma length_bfbsRows: "length bfbsRows = 43"
  by (simp add: bfbsRows_def)

declare upt_conv_Cons [simp]

lemmas data_rows = trans [OF map_nth bfbsRows_def, unfolded length_bfbsRows, simplified]

lemmas data_rows_numeral = data_rows [simplified One_nat_def [symmetric] Suc_1 Suc_numeral add_num_simps]

declare upt_conv_Cons [simp del]

lemma u8_schema: "u8_at nodeInfoSchema p = (if p < 852 then Some (unat (bfbsData ! p)) else None)"
proof -
  have "unat b mod 256 = unat b" for b :: u8 using unsigned_less [of b, where 'a = nat] by simp
  then show ?thesis
    using length_bfbsData by (simp add: u8_at_def nodeInfoSchema_def FlatNodeBinarySchema_size_def char_of_byte_def)
qed

text \<open>The bytes at given positions; the simplifier reads the buffer with them.\<close>

lemma u8_positions:
  "u8_at nodeInfoSchema 0 = Some (unat (bfbsRows ! 0 ! 0))"
  "u8_at nodeInfoSchema (Suc 0) = Some (unat (bfbsRows ! 0 ! Suc 0))"
  "u8_at nodeInfoSchema (Suc (Suc 0)) = Some (unat (bfbsRows ! 0 ! Suc (Suc 0)))"
  "u8_at nodeInfoSchema (Suc (Suc (Suc 0))) = Some (unat (bfbsRows ! 0 ! 3))"
  "u8_at nodeInfoSchema (numeral n) = (if numeral n < (852::nat)
     then Some (unat (bfbsRows ! (numeral n div 20) ! (numeral n mod 20))) else None)"
  by (simp_all add: u8_schema nth_bfbsData)

lemmas schema_reads = follow_def vtable_at_def field_at_def the_field_def number_field_def string_at_pos_def vector_at_def
  u32_at_def u16_at_def u8_positions data_rows data_rows_numeral upt_conv_Cons char_of_def bit_Suc_0_iff

section \<open>What the schema says\<close>

lemma schema_field_app_containers:
  "read_field nodeInfoSchema 264 = Some \<lparr>schema_name = ''app_containers'', schema_slot = 20, schema_type = Texts,
     schema_required = False, schema_key = False\<rparr>"
  by (simp add: read_field_def read_type_def schema_reads)

lemma schema_field_cluster_id:
  "read_field nodeInfoSchema 224 = Some \<lparr>schema_name = ''cluster_id'', schema_slot = 22, schema_type = Text,
     schema_required = False, schema_key = False\<rparr>"
  by (simp add: read_field_def read_type_def schema_reads)

lemma schema_field_instance_ips:
  "read_field nodeInfoSchema 180 = Some \<lparr>schema_name = ''instance_ips'', schema_slot = 24, schema_type = Texts,
     schema_required = False, schema_key = False\<rparr>"
  by (simp add: read_field_def read_type_def schema_reads)

lemma schema_field_istio_version:
  "read_field nodeInfoSchema 352 = Some \<lparr>schema_name = ''istio_version'', schema_slot = 16, schema_type = Text,
     schema_required = False, schema_key = False\<rparr>"
  by (simp add: read_field_def read_type_def schema_reads)

lemma schema_field_labels:
  "read_field nodeInfoSchema 540 = Some \<lparr>schema_name = ''labels'', schema_slot = 8, schema_type = Tables 1,
     schema_required = False, schema_key = False\<rparr>"
  by (simp add: read_field_def read_type_def schema_reads)

lemma schema_field_mesh_id:
  "read_field nodeInfoSchema 316 = Some \<lparr>schema_name = ''mesh_id'', schema_slot = 18, schema_type = Text,
     schema_required = False, schema_key = False\<rparr>"
  by (simp add: read_field_def read_type_def schema_reads)

lemma schema_field_name:
  "read_field nodeInfoSchema 644 = Some \<lparr>schema_name = ''name'', schema_slot = 4, schema_type = Text,
     schema_required = False, schema_key = False\<rparr>"
  by (simp add: read_field_def read_type_def schema_reads)

lemma schema_field_namespace:
  "read_field nodeInfoSchema 592 = Some \<lparr>schema_name = ''namespace'', schema_slot = 6, schema_type = Text,
     schema_required = False, schema_key = False\<rparr>"
  by (simp add: read_field_def read_type_def schema_reads)

lemma schema_field_owner:
  "read_field nodeInfoSchema 492 = Some \<lparr>schema_name = ''owner'', schema_slot = 10, schema_type = Text,
     schema_required = False, schema_key = False\<rparr>"
  by (simp add: read_field_def read_type_def schema_reads)

lemma schema_field_platform_metadata:
  "read_field nodeInfoSchema 396 = Some \<lparr>schema_name = ''platform_metadata'', schema_slot = 14, schema_type = Tables 1,
     schema_required = False, schema_key = False\<rparr>"
  by (simp add: read_field_def read_type_def schema_reads)

lemma schema_field_workload_name:
  "read_field nodeInfoSchema 448 = Some \<lparr>schema_name = ''workload_name'', schema_slot = 12, schema_type = Text,
     schema_required = False, schema_key = False\<rparr>"
  by (simp add: read_field_def read_type_def schema_reads)

lemma schema_field_key:
  "read_field nodeInfoSchema 812 = Some \<lparr>schema_name = ''key'', schema_slot = 4, schema_type = Text,
     schema_required = True, schema_key = True\<rparr>"
  by (simp add: read_field_def read_type_def schema_reads)

lemma schema_field_value:
  "read_field nodeInfoSchema 756 = Some \<lparr>schema_name = ''value'', schema_slot = 6, schema_type = Text,
     schema_required = False, schema_key = False\<rparr>"
  by (simp add: read_field_def read_type_def schema_reads)

lemmas schema_fields = schema_field_app_containers schema_field_cluster_id schema_field_instance_ips schema_field_istio_version schema_field_labels
  schema_field_mesh_id schema_field_name schema_field_namespace schema_field_owner schema_field_platform_metadata
  schema_field_workload_name schema_field_key schema_field_value

lemma schema_vectors:
  "vector_at nodeInfoSchema 76 = Some [88, 692]"
  "vector_at nodeInfoSchema 104 = Some [264, 224, 180, 352, 540, 316, 644, 592, 492, 396, 448]"
  "vector_at nodeInfoSchema 708 = Some [812, 756]"
  by (simp add: schema_reads)+

lemma schema_tables:
  "read_object nodeInfoSchema 88 = Some (''Wasm.Common.FlatNode'', map (the \<circ> read_field nodeInfoSchema) [264, 224, 180, 352, 540, 316, 644, 592, 492, 396, 448])"
  "read_object nodeInfoSchema 692 = Some (''Wasm.Common.KeyVal'', map (the \<circ> read_field nodeInfoSchema) [812, 756])"
proof -
  have f: "the_field nodeInfoSchema 88 4 = Some 92" "the_field nodeInfoSchema 88 6 = Some 96"
    "the_field nodeInfoSchema 692 4 = Some 696" "the_field nodeInfoSchema 692 6 = Some 700"
    "follow nodeInfoSchema 92 = Some 152" "follow nodeInfoSchema 96 = Some 104"
    "follow nodeInfoSchema 696 = Some 720" "follow nodeInfoSchema 700 = Some 708"
    by (simp add: schema_reads)+
  have n: "string_at_pos nodeInfoSchema 152 = Some ''Wasm.Common.FlatNode''"
    "string_at_pos nodeInfoSchema 720 = Some ''Wasm.Common.KeyVal''"
    by (simp add: schema_reads)+
  show "read_object nodeInfoSchema 88 = Some (''Wasm.Common.FlatNode'', map (the \<circ> read_field nodeInfoSchema) [264, 224, 180, 352, 540, 316, 644, 592, 492, 396, 448])"
    "read_object nodeInfoSchema 692 = Some (''Wasm.Common.KeyVal'', map (the \<circ> read_field nodeInfoSchema) [812, 756])"
    by (simp_all add: read_object_def f n schema_vectors schema_fields)
qed

section \<open>Properties\<close>


end
