(* ===== verification/Template_Plugins.thy ===== *)
theory Template_Plugins
  imports Proxy_Host
begin

text \<open>
  The two extensions that new ones start from: the scaffold (\<open>extensions/scaffold/plugin.{h,cc}\<close>), which
  accepts every configuration and leaves every stream to the defaults of the SDK, and the example
  (\<open>example/plugin.{h,cc}\<close>), which adds a header to every response. They keep no state.
\<close>

definition scaffold_onConfigure :: "nat \<Rightarrow> bool" where
  "scaffold_onConfigure configuration_size = True"

definition example_onConfigure :: "nat \<Rightarrow> bool" where
  "example_onConfigure configuration_size = True"

text \<open>The calls the example makes to the host.\<close>

datatype response_action = AddResponseHeader string string

definition example_onResponseHeaders :: "u32 \<Rightarrow> bool \<Rightarrow> FilterHeadersStatus \<times> response_action list" where
  "example_onResponseHeaders headers end_of_stream = (Continue, [AddResponseHeader ''X-Wasm-custom'' ''foo''])"

text \<open>
  With a host that appends headers, the headers of the upstream are all kept, in order, and the new one
  comes last.
\<close>

fun host_adds :: "response_action list \<Rightarrow> header list \<Rightarrow> header list" where
  "host_adds [] hs = hs"
| "host_adds (AddResponseHeader key val # acts) hs = host_adds acts (hs @ [(key, val)])"

lemma example_header_appended:
  "host_adds (snd (example_onResponseHeaders n eos)) hs = hs @ [(''X-Wasm-custom'', ''foo'')]"
  by (simp add: example_onResponseHeaders_def)

end
