(* ===== verification/Spec2Isabelle.thy ===== *)
theory Spec2Isabelle
  imports Prelude Base64 Proxy_Host Json_Util Response_Flags Basic_Auth Shared_Data Token_Bucket Rate_Limit
    Opa_Cache Opa_Plugin Grpc_Logging Expr_Service Attribute_Gen
    Node_Info Flat_Node Request_Info Stats_Dimensions Stats_Config Stats_Overrides Stats_Report Stats_Accounting Stats_Labels
    Opa_Streams Node_Schema Template_Plugins
begin

text \<open>
  A verification of the Proxy-Wasm extensions of this repository. An extension is a C++ program that
  runs in a WebAssembly VM inside a proxy. The host calls its handlers (a configuration is loaded, a
  request arrives, a timer ticks, a callback returns, a stream ends), and the extension calls the
  host (read a property or a header, send a local reply, read or write shared data, start a call,
  compile an expression, record a metric). An extension has one root context per VM, which keeps the
  configuration and the state across streams, and one context per stream.

  \<^bold>\<open>How the code is modelled.\<close> A context is a record with the fields of the class, a handler is a
  function from the record, the arguments of the handler and the answers of the host to the new
  record, the result and the calls made for their effect, in order. Where the order of host calls
  between VMs matters (the rate limiter), a handler is a tree of calls with continuations. Integers
  keep the width of their C++ types and wrap. What the standard leaves undefined (an index out of
  range, a dangling iterator, reading a missing buffer) is an error value \<open>Inl\<close>, so that a theorem
  that says \<open>Inr\<close> is a theorem that it does not happen; what it leaves indeterminate (a variable
  that is read without having been set) is an argument \<open>garbage\<close> over which the theorems quantify.
  A \<open>std::string\<close> is a \<open>string\<close>; a hash map is a function where only lookups matter, and an
  association list with an arbitrary traversal where it is iterated.

  Code that is not in the repository is a parameter: the JSON library (\<open>json_lib\<close>), the protobuf
  messages of the logging service (\<open>proto_lib\<close>), \<open>std::hash\<close>, the UTF-8 decoder and the number
  parser (\<open>string_lib\<close>), flatbuffers, the metric resolver and the traversal order of hash maps
  (\<open>stats_lib\<close>), and the host. What the code relies on is a hypothesis of the theorem that needs it,
  or a locale with an interpretation.

  \<^bold>\<open>The theories\<close>, each with the files it models under \<open>extensions/\<close>:

    \<^item> \<open>Prelude\<close>: words, undefined behaviour and its sequencing \<open>and_then\<close>, the string functions of
      the standard library and of Abseil, values as bytes in memory.
    \<^item> \<open>Proxy_Host\<close>: the vocabulary of the host: statuses, results, actions, properties.
    \<^item> \<open>Base64\<close> (\<open>common/wasm/base64.h\<close>): the tables, the functions per character, \<open>encode\<close> and
      \<open>decodeWithoutPadding\<close> with its buffer. Shown: no access out of bounds and no failed assertion
      for any input, decoding inverts encoding, and encoding what was decoded gives the canonical
      form.
    \<^item> \<open>Json_Util\<close> (\<open>common/wasm/json_util.{h,cc}\<close>): typed access and iteration. The locale
      \<open>json_value_as\<close> is the contract of an overload of \<open>JsonValueAs\<close>, interpreted for six of them
      (the seventh, of string lists, breaks it on an empty array); \<open>json_visitor\<close> carries an
      invariant of a visitor through the iterations.
    \<^item> \<open>Response_Flags\<close> (\<open>common/util.cc\<close>): the rendering of Envoy's response flags, shown injective.
    \<^item> \<open>Basic_Auth\<close> (\<open>basic_auth/plugin.{h,cc}\<close>): rules, their configuration, the check of a request.
      Shown: a request is let through exactly if every rule that applies to it accepts its
      credentials; what a configuration stores is exactly what it says and is well formed.
    \<^item> \<open>Shared_Data\<close>, \<open>Token_Bucket\<close>, \<open>Rate_Limit\<close> (\<open>local_rate_limit/bucket.{h,cc}\<close>,
      \<open>plugin.{h,cc}\<close>): two keys of shared data used with compare-and-swap by all VMs. The locale
      \<open>shared_data\<close> is the contract of the store (a write with a stale cas fails, every write makes a
      new version), interpreted by a store with versions. \<open>vm_step\<close> interleaves the host calls of any
      number of requests and ticks. Shown, for every interleaving: tokens are conserved, the rate is
      bounded, a request passes with a token or after twenty lost races, the refill loop repeats
      only when another VM has made progress, and alone it adds the tokens once per interval.
    \<^item> \<open>Opa_Cache\<close>, \<open>Opa_Plugin\<close> (\<open>open_policy_agent/cache.{h,cc}\<close>, \<open>plugin.{h,cc}\<close>): the cache with
      its list and the iterators into it (nodes with addresses, so that a dangling iterator is
      visible), the request and response handlers and the state machine \<open>opa_step\<close> of concurrent
      requests. Shown: \<open>check\<close> and \<open>add\<close> refine an abstract LRU cache with expiry, as long as hashes
      fit in an \<open>int\<close>; what happens if one does not; a request is let through only on a positive answer that
      is still valid. The locale \<open>decision_cache\<close> is what the plugin needs of the cache.
    \<^item> \<open>Opa_Streams\<close>: the same state machine with the events of its streams (\<open>opa_traced_iff\<close>). Shown:
      every request is settled exactly once, at once or by the callback of its call.
    \<^item> \<open>Grpc_Logging\<close> (\<open>grpc_logging/plugin.{h,cc}\<close>): batches of log entries, sending, callbacks,
      shutdown, as the state machine \<open>log_step\<close>. The locale \<open>batching\<close> is the contract of the
      buffer. Shown: entries are delivered or still held, once, in order, in batches of 1 to 500;
      completion is signalled once, with the last callback.
    \<^item> \<open>Expr_Service\<close>, \<open>Attribute_Gen\<close> (\<open>attributegen/plugin.{h,cc}\<close>): the locale
      \<open>expression_service\<close> is the contract of compiled expressions and their tokens. Shown: a
      configuration is loaded completely or not at all, no token is leaked or used after deletion,
      the first match decides.
    \<^item> \<open>Node_Info\<close>, \<open>Flat_Node\<close> (\<open>common/context.{h,cc}\<close>, \<open>common/node_info_generated.h\<close>): the nodes of
      the proxy and of its peer. \<open>Node_Info\<close> describes them as records, over the locale \<open>flatbuffers\<close>
      (sorting and lookup by key). \<open>Flat_Node\<close> has the generated builders, accessors and verifiers,
      and the extraction as the sequence of builder calls the code makes, over the locale
      \<open>flat_library\<close> (what is written can be read, and later writes do not change it), interpreted
      by a heap. Shown: the builder calls implement the records.
    \<^item> \<open>Node_Schema\<close> (\<open>common/node_info_bfbs_generated.h\<close>, \<open>nodeInfoSchema\<close>): the 852 bytes of the binary
      schema, and a reader of the documented FlatBuffers format. Shown: read as a schema, the bytes
      describe exactly the tables, fields, types and offsets of the generated accessors.
    \<^item> \<open>Request_Info\<close> (\<open>common/context.{h,cc}\<close>): what is collected about a stream, the destination
      service, the protocol, the sanitizing of strings. Shown: sanitizing ends with valid text and
      is idempotent, the destination service is chosen once.
    \<^item> \<open>Stats_Dimensions\<close>, \<open>Stats_Config\<close>, \<open>Stats_Report\<close> (\<open>stats/plugin.{h,cc}\<close>): the vector of
      labels, the configuration (factories, tags, indexes, expressions, generators), reports with
      their cache, the queue of streams and all handlers, as the state machine \<open>stats_step\<close>.
      \<open>expression_invariant\<close> carries an invariant of the expression service through a configuration;
      it holds of any host, and of the ownership of tokens by a \<open>sublocale\<close> of \<open>expression_service\<close>.
      Shown: generators stay well formed, no handler is ever undefined, tokens are balanced, and the
      cache does not change what is recorded.
    \<^item> \<open>Stats_Overrides\<close>: what a configuration means. The metrics and labels of the standard
      configuration, those that removals and drops leave, and that an overridden label evaluates the
      expression that was configured for it.
    \<^item> \<open>Stats_Accounting\<close>: what the counters mean. \<open>traced_step\<close> is \<open>stats_step\<close> with the events of
      each stream (\<open>traced_step_iff\<close>). The locale \<open>drained_counter\<close> is the contract of a count that
      is kept in the request information and handed over to a metric; it is interpreted for the bytes
      sent and the bytes received. Shown: every byte of a TCP stream is recorded once, in every run
      with any configurations, the final report leaves none behind, and every request is counted
      once.
    \<^item> \<open>Stats_Labels\<close>: what the labels mean, from the metadata of the proxy and the labels of the
      upstream endpoint, through the node extraction, the configuration and any number of reports, to
      the name of the metric on which a request is counted.
    \<^item> \<open>Template_Plugins\<close> (\<open>scaffold/plugin.{h,cc}\<close>, and \<open>plugin.{h,cc}\<close> of the example): the stateless
      extensions that new ones start from.

  \<^bold>\<open>Composition.\<close> Basic auth rests on \<open>Base64\<close> and \<open>Json_Util\<close>; every configuration rests on
  \<open>Json_Util\<close>. The OPA plugin rests on its cache, the rate limiter on its bucket and on the store,
  the generators of attributes and of statistics on the expression service, the statistics on the
  nodes and the request information. The properties of the state machines are about the composed
  code: no handler is replaced by its specification. \<open>request_counted_between\<close> goes through all parts
  of the statistics, and \<open>login_decides\<close>, below, from the text of a configuration of basic auth through
  its JSON, its rules and the Base64 codec to the verdict on a request.

  \<^bold>\<open>Termination.\<close> All definitions are total but one: the loop of \<open>sanitizeBytes\<close> advances by what the
  decoder says, so it is a \<open>partial_function\<close> in the option type, and that it returns is part of the
  theorem, for a decoder that consumes at least one byte on success. The refill loop of the rate limiter may repeat for ever when
  others keep writing; \<open>refill_lock_free\<close> says that each round is due to a write of somebody else.
  The loop for a token has the bound of the code, twenty. No fuel is used.

  \<^bold>\<open>Not modelled.\<close> Logging; the registration of contexts with the SDK and its casts between context
  classes; the wrappers of \<open>node_info_generated.h\<close> that verify a root buffer, with or without a size
  prefix, which only pass to the library and which the extensions do not call; declarations and type
  traits; the Zig demo, an empty extension in another language; tests, build files and scripts. The
  time at which the host calls a handler is not limited: the theorems about state machines allow every
  order that the host interface allows.
\<close>

section \<open>Properties across components\<close>

subsection \<open>A login against a configuration\<close>

text \<open>
  C11: a configuration of basic auth decides about logins as its author reads it. Let any configuration
  be accepted, and let a client send a login \<open>user:password\<close> the standard way, Base64-encoded after
  \<open>Basic\<close>. The request is let through exactly when every configured rule that lists the method of the
  request and whose host and path patterns match it lists this login among its credentials, in the
  clear or encoded. No other login passes for it, since different logins have different encodings.
\<close>

theorem login_decides:
  assumes "JsonParse L data = Some j" "data \<noteq> ''''" "array_field j ''basic_auth_rules'' = Some js"
    and "Basic_Auth.onConfigure L garbage data initial_root = (True, st)"
    and "CHR '':'' \<in> set login" "header ''authorization'' = ''Basic '' @ encode login True"
  shows "fst (Basic_Auth.onRequestHeaders st header) = Continue \<longleftrightarrow>
    (\<forall>e \<in> set js. \<forall>ms rule cs. read_rule garbage e = Some (ms, rule) \<longrightarrow> string_array e ''credentials'' = Some cs \<longrightarrow>
       header '':method'' \<in> set ms \<longrightarrow> applies rule header \<longrightarrow> login \<in> set cs \<or> encode login True \<in> set cs)"
proof -
  have "fst (Basic_Auth.onRequestHeaders st header) = Continue \<longleftrightarrow>
      (\<forall>e \<in> set js. \<forall>ms rule. read_rule garbage e = Some (ms, rule) \<longrightarrow> header '':method'' \<in> set ms \<longrightarrow> applies rule header \<longrightarrow>
         authorized rule (''Basic '' @ encode login True))"
    using configured_rules [OF assms(1-4), of "header '':method''"] assms(6) by (auto simp: onRequestHeaders_eq)
  moreover have "authorized rule (''Basic '' @ encode login True) \<longleftrightarrow>
      (\<forall>cs. string_array e ''credentials'' = Some cs \<longrightarrow> login \<in> set cs \<or> encode login True \<in> set cs)"
    if r: "read_rule garbage e = Some (ms, rule)" for e ms rule
  proof -
    obtain cs where "string_array e ''credentials'' = Some cs" using read_rule_credentials [OF r] by metis
    with authorized_login [OF r this assms(5)] show ?thesis by simp
  qed
  ultimately show ?thesis by blast
qed

theorem login_decides_witness:
  "\<exists>st. Basic_Auth.onConfigure example_lib None ''{}'' initial_root = (True, st) \<and>
     fst (Basic_Auth.onRequestHeaders st ((\<lambda>_. '''')('':method'' := ''GET'', '':path'' := ''/api/x'',
       ''authorization'' := ''Basic '' @ encode ''ok:test'' True))) = Continue"
proof -
  let ?header = "(\<lambda>_. '''')('':method'' := ''GET'', '':path'' := ''/api/x'', ''authorization'' := ''Basic '' @ encode ''ok:test'' True)"
  let ?e = "prefix_rule ''/api'' [''GET''] [''ok:test'']" and ?j = "JObject [(''basic_auth_rules'', JArray [prefix_rule ''/api'' [''GET''] [''ok:test'']])]"
  have p: "JsonParse example_lib ''{}'' = Some ?j" by (simp add: example_lib_def JsonParse_def)
  have a: "array_field ?j ''basic_auth_rules'' = Some [?e]" by (simp add: array_field_def)
  obtain st where st: "Basic_Auth.onConfigure example_lib None ''{}'' initial_root = (True, st)"
    by (simp add: Basic_Auth.onConfigure_def Basic_Auth.configure_def p JsonArrayIterate_def extract_eq read_prefix_rule)
  have cs: "string_array ?e ''credentials'' = Some [''ok:test'']" by (simp add: string_array_def array_field_def prefix_rule_def)
  from login_decides [OF p _ a st, of "''ok:test''" ?header] cs
  have "fst (Basic_Auth.onRequestHeaders st ?header) = Continue" by auto
  with st show ?thesis by blast
qed

end
